(* ===== verification/Kosh_Prelude.thy ===== *)
theory Kosh_Prelude
  imports Main "HOL-Library.Word"
begin

text \<open>
  What the components share: the machine integer types of the Rust sources, Rust's
  \<open>Result\<close>, saturating subtraction, the list operations the sources take from
  \<^verbatim>\<open>Vec\<close> and \<^verbatim>\<open>Iterator\<close>, and the generic lemmas on them. Integer arithmetic is
  that of a release build, in which \<open>+\<close>, \<open>-\<close> and \<open>*\<close> wrap around.
\<close>

unbundle bit_operations_syntax

section \<open>Machine integers\<close>

type_synonym u8 = "8 word"
type_synonym u16 = "16 word"
type_synonym u32 = "32 word"
type_synonym u64 = "64 word"
type_synonym usize = "64 word"
type_synonym i32 = "32 word"

definition saturating_sub :: "'l::len word \<Rightarrow> 'l word \<Rightarrow> 'l word" where
  "saturating_sub a b = (if a < b then 0 else a - b)"

section \<open>Results\<close>

datatype ('a, 'e) result = Ok 'a | Err 'e

fun is_ok :: "('a, 'e) result \<Rightarrow> bool" where
  "is_ok (Ok _) = True"
| "is_ok (Err _) = False"

text \<open>\<open>try_unit a b\<close> is \<^verbatim>\<open>a?; b\<close>.\<close>

fun try_unit :: "(unit, 'e) result \<Rightarrow> ('a, 'e) result \<Rightarrow> ('a, 'e) result" where
  "try_unit (Ok _) r = r"
| "try_unit (Err e) r = Err e"

section \<open>Outcomes\<close>

text \<open>
  How a piece of code ends that may index an array out of range, or wait for a lock that its
  caller holds.
\<close>

datatype 'a outcome = Returns 'a | Panics | Hangs

fun and_then :: "'a outcome \<Rightarrow> ('a \<Rightarrow> 'b outcome) \<Rightarrow> 'b outcome" where
  "and_then (Returns x) f = f x"
| "and_then Panics f = Panics"
| "and_then Hangs f = Hangs"

text \<open>Where \<^term>\<open>None\<close> stands for a panic.\<close>

fun or_panic :: "'a option \<Rightarrow> 'a outcome" where
  "or_panic None = Panics"
| "or_panic (Some x) = Returns x"

text \<open>Reading an array: an index out of range panics.\<close>

definition array_get :: "'a list \<Rightarrow> nat \<Rightarrow> 'a outcome" where
  "array_get xs i = (if i < length xs then Returns (xs ! i) else Panics)"

section \<open>Decimal output\<close>

text \<open>How \<^verbatim>\<open>format!\<close> prints an unsigned integer under \<^verbatim>\<open>{}\<close>.\<close>

fun show_dec :: "nat \<Rightarrow> string" where
  "show_dec n = (if n < 10 then [char_of (48 + n)] else show_dec (n div 10) @ [char_of (48 + n mod 10)])"

declare show_dec.simps [simp del]

section \<open>Vectors\<close>

text \<open>\<open>position P xs\<close> is \<^verbatim>\<open>xs.iter().position(P)\<close>.\<close>

fun position :: "('a \<Rightarrow> bool) \<Rightarrow> 'a list \<Rightarrow> nat option" where
  "position P [] = None"
| "position P (x # xs) = (if P x then Some 0 else map_option Suc (position P xs))"

text \<open>
  \<open>find_map f xs\<close> is \<^verbatim>\<open>xs.iter().find_map(f)\<close>, and \<open>modify_first P f xs\<close> the vector after
  \<open>f\<close> has changed, in place, the first element that satisfies \<open>P\<close>.
\<close>

fun find_map :: "('a \<Rightarrow> 'b option) \<Rightarrow> 'a list \<Rightarrow> 'b option" where
  "find_map f [] = None"
| "find_map f (x # xs) = (case f x of Some y \<Rightarrow> Some y | None \<Rightarrow> find_map f xs)"

fun modify_first :: "('a \<Rightarrow> bool) \<Rightarrow> ('a \<Rightarrow> 'a) \<Rightarrow> 'a list \<Rightarrow> 'a list" where
  "modify_first P f [] = []"
| "modify_first P f (x # xs) = (if P x then f x # xs else x # modify_first P f xs)"

text \<open>\<open>vec_insert i x xs\<close> is \<^verbatim>\<open>xs.insert(i, x)\<close> for an index within the vector's length.\<close>

definition vec_insert :: "nat \<Rightarrow> 'a \<Rightarrow> 'a list \<Rightarrow> 'a list" where
  "vec_insert i x xs = take i xs @ x # drop i xs"

text \<open>\<open>vec_remove i xs\<close> is the vector after \<^verbatim>\<open>xs.remove(i)\<close>.\<close>

definition vec_remove :: "nat \<Rightarrow> 'a list \<Rightarrow> 'a list" where
  "vec_remove i xs = take i xs @ drop (Suc i) xs"

named_theorems pages_simps \<open>page arithmetic, from words to natural numbers\<close>
named_theorems frame_simps \<open>what a component's operations leave unchanged\<close>

section \<open>Lemmas on positions and vectors\<close>

lemma position_Some_iff:
  "position P xs = Some i \<longleftrightarrow> i < length xs \<and> P (xs ! i) \<and> (\<forall>j<i. \<not> P (xs ! j))"
proof (induction xs arbitrary: i)
  case Nil
  then show ?case by simp
next
  case (Cons x xs)
  show ?case
  proof (cases i)
    case 0
    then show ?thesis by auto
  next
    case (Suc k)
    then show ?thesis
      using Cons.IH [of k] by (auto simp: All_less_Suc2)
  qed
qed

lemma position_None_iff [simp]: "position P xs = None \<longleftrightarrow> (\<forall>x\<in>set xs. \<not> P x)"
  by (induction xs) auto

lemma length_vec_insert [simp]: "i \<le> length xs \<Longrightarrow> length (vec_insert i x xs) = Suc (length xs)"
  by (simp add: vec_insert_def)

lemma set_vec_insert [simp]: "set (vec_insert i x xs) = insert x (set xs)"
  by (metis Un_insert_right append_take_drop_id list.simps(15) set_append vec_insert_def)

lemma length_vec_remove [simp]: "i < length xs \<Longrightarrow> length (vec_remove i xs) = length xs - 1"
  by (simp add: vec_remove_def)

lemma set_vec_remove_subset: "set (vec_remove i xs) \<subseteq> set xs"
  by (auto simp: vec_remove_def dest: in_set_takeD in_set_dropD)

lemma find_append: "find P (xs @ ys) = (case find P xs of None \<Rightarrow> find P ys | Some x \<Rightarrow> Some x)"
  by (induction xs) auto

lemma find_upt_Least:
  "find P [0..<n] = (if \<exists>i<n. P i then Some (LEAST i. P i) else None)"
proof (cases "find P [0..<n]")
  case None
  then show ?thesis by (auto simp: find_None_iff)
next
  case (Some i)
  then have "i < n" "P i" "\<forall>j<i. \<not> P j"
    by (auto simp: find_Some_iff)
  moreover from this have "(LEAST i. P i) = i"
    by (metis Least_equality not_le_imp_less)
  ultimately show ?thesis using Some by auto
qed

section \<open>Lemmas on words\<close>

lemma saturating_sub_le: "saturating_sub a b \<le> a"
  by (simp add: saturating_sub_def word_le_nat_alt unat_sub word_less_nat_alt)

lemma unat_saturating_sub: "unat (saturating_sub a b) = unat a - unat b"
  by (simp add: saturating_sub_def word_less_nat_alt unat_sub word_le_nat_alt)

lemma word_and_not_low_bits:
  fixes x :: "'l::len word"
  shows "x AND NOT (mask n) = x - take_bit n x"
proof -
  have "NOT x AND take_bit n x = 0"
    by (rule bit_eqI) (auto simp: bit_simps)
  then have "x - take_bit n x = x AND NOT (take_bit n x)"
    by (rule disjunctive_diff_eq_and_not)
  also have "\<dots> = x AND NOT (mask n)"
    by (rule bit_eqI) (auto simp: bit_simps)
  finally show ?thesis by simp
qed

lemma unat_and_not_low_bits:
  fixes x :: "'l::len word"
  shows "unat (x AND NOT (mask n)) = unat x div 2 ^ n * 2 ^ n"
proof -
  have low: "unat (take_bit n x) = unat x mod 2 ^ n"
    by (simp only: unsigned_take_bit_eq) (simp only: take_bit_eq_mod)
  then have "take_bit n x \<le> x"
    by (simp only: word_le_nat_alt) simp
  then have "unat (x - take_bit n x) = unat x - unat (take_bit n x)"
    by (simp only: unat_sub)
  with low show ?thesis
    by (simp only: word_and_not_low_bits minus_mod_eq_div_mult)
qed

lemma unat_dec [simp]: "x \<noteq> 0 \<Longrightarrow> unat (x - 1) = unat x - 1"
  by (simp add: unat_minus_one)

lemma unat_inc: "Suc (unat x) < 2 ^ LENGTH('l) \<Longrightarrow> unat (x + 1) = Suc (unat x)"
  for x :: "'l::len word"
  by (simp add: unat_word_ariths)

lemma unat_uminus: "x \<noteq> 0 \<Longrightarrow> unat (- x) = 2 ^ LENGTH('l) - unat x" for x :: "'l::len word"
  using unat_sub_if_size [of 0 x] by (simp add: word_size unat_gt_0)

lemma and_exp_eq_0_iff: "x AND 2 ^ n = 0 \<longleftrightarrow> \<not> bit x n" if "n < LENGTH('l)"
  for x :: "'l::len word"
proof
  assume "x AND 2 ^ n = 0"
  then have "\<not> bit (x AND 2 ^ n) n" by simp
  with that show "\<not> bit x n" by (simp add: bit_simps)
next
  assume "\<not> bit x n"
  then show "x AND 2 ^ n = 0"
    by (intro bit_word_eqI) (auto simp: bit_and_iff bit_exp_iff)
qed

text \<open>A cyclic scan from \<open>h\<close> visits every index.\<close>

lemma cyclic_scan:
  assumes "s < (n::nat)"
  obtains i where "i < n" "(h + i) mod n = s"
proof -
  define i where "i = (s + n - h mod n) mod n"
  have "h mod n \<le> n" using assms by (simp add: less_imp_le)
  have "(h + i) mod n = (h mod n + (s + n - h mod n)) mod n"
    unfolding i_def by (simp only: mod_simps)
  also have "h mod n + (s + n - h mod n) = s + n" using \<open>h mod n \<le> n\<close> by linarith
  also have "(s + n) mod n = s" using assms by simp
  finally show ?thesis using that [of i] assms by (auto simp: i_def)
qed

lemma splice_before:
  "a + n \<le> b \<Longrightarrow> b \<le> length xs \<Longrightarrow> take n (drop a (take b xs @ ys)) = take n (drop a xs)"
  by (auto simp: drop_take min_def)

lemma splice_after:
  "b + length ys \<le> a \<Longrightarrow> b \<le> length xs \<Longrightarrow>
    drop a (take b xs @ ys @ drop (b + length ys) xs) = drop a xs"
  by (simp add: min_def add.commute)

lemma sum_list_map_update:
  fixes f :: "'a \<Rightarrow> 'b::ab_group_add"
  shows "i < length xs \<Longrightarrow> sum_list (map f (xs[i := a])) = sum_list (map f xs) + (f a - f (xs ! i))"
  by (induction xs arbitrary: i) (auto split: nat.splits simp: algebra_simps)

lemma map_update_same: "f a = f (xs ! i) \<Longrightarrow> map f (xs[i := a]) = map f xs"
  by (metis list_update_id map_update)

lemma nth_vec_remove:
  "k < length xs \<Longrightarrow> i < length xs - 1 \<Longrightarrow> vec_remove k xs ! i = (if i < k then xs ! i else xs ! Suc i)"
  by (auto simp: vec_remove_def nth_append min_def)

lemma sum_list_vec_remove:
  fixes f :: "'a \<Rightarrow> 'b::ab_group_add"
  shows "k < length xs \<Longrightarrow> sum_list (map f (vec_remove k xs)) = sum_list (map f xs) - f (xs ! k)"
proof -
  assume "k < length xs"
  then have "xs = take k xs @ xs ! k # drop (Suc k) xs" by (rule id_take_nth_drop)
  then have "sum_list (map f xs) = sum_list (map f (take k xs @ xs ! k # drop (Suc k) xs))" by simp
  then show ?thesis by (simp add: vec_remove_def algebra_simps)
qed

lemma find_map_Some:
  "find_map f xs = Some y \<Longrightarrow> \<exists>x\<in>set xs. f x = Some y"
  by (induction xs) (auto split: option.splits)

lemma find_map_None: "find_map f xs = None \<longleftrightarrow> (\<forall>x\<in>set xs. f x = None)"
  by (induction xs) (auto split: option.splits)

lemma find_map_append: "find_map f (xs @ ys) = (case find_map f xs of Some y \<Rightarrow> Some y | None \<Rightarrow> find_map f ys)"
  by (induction xs) (auto split: option.splits)

lemma map_modify_first: "(\<And>x. P x \<Longrightarrow> g (f x) = g x) \<Longrightarrow> map g (modify_first P f xs) = map g xs"
  by (induction xs) auto

lemma length_filter_partition:
  assumes "\<And>x. x \<in> set xs \<Longrightarrow> f x < (n::nat)"
  shows "(\<Sum>k<n. length (filter (\<lambda>x. f x = k) xs)) = length xs"
  using assms
proof (induction xs)
  case (Cons x xs)
  have "(\<Sum>k<n. length (filter (\<lambda>x. f x = k) (x # xs))) =
      (\<Sum>k<n. (if k = f x then 1 else 0) + length (filter (\<lambda>x. f x = k) xs))"
    by (rule sum.cong) auto
  also have "\<dots> = 1 + length xs"
    using Cons by (simp add: sum.distrib sum.delta)
  finally show ?case by simp
qed simp

lemma position_SomeD: "position P xs = Some k \<Longrightarrow> \<exists>x\<in>set xs. P x"
  by (auto simp: position_Some_iff)

lemma vec_remove_simps [simp]:
  "vec_remove 0 (x # xs) = xs" "vec_remove (Suc k) (x # xs) = x # vec_remove k xs"
  by (simp_all add: vec_remove_def)

lemma vec_insert_position:
  "vec_insert (case position P xs of Some k \<Rightarrow> k | None \<Rightarrow> length xs) x xs =
     takeWhile (\<lambda>y. \<not> P y) xs @ x # dropWhile (\<lambda>y. \<not> P y) xs"
proof (cases "position P xs")
  case None
  then have all: "takeWhile (\<lambda>y. \<not> P y) xs = xs" "dropWhile (\<lambda>y. \<not> P y) xs = []"
    by (auto simp: takeWhile_eq_all_conv)
  show ?thesis unfolding None all by (simp add: vec_insert_def)
next
  case (Some k)
  then have k: "k < length xs" "P (xs ! k)" "\<forall>j<k. \<not> P (xs ! j)" by (auto simp: position_Some_iff)
  then have "takeWhile (\<lambda>y. \<not> P y) xs = take k xs" by (intro takeWhile_eq_take_P_nth) auto
  moreover from this have "dropWhile (\<lambda>y. \<not> P y) xs = drop k xs"
    by (metis append_take_drop_id same_append_eq takeWhile_dropWhile_id)
  ultimately show ?thesis using Some by (simp add: vec_insert_def)
qed

lemma sorted_dropWhile_gt:
  "sorted (map f xs) \<Longrightarrow> y \<in> set (dropWhile (\<lambda>x. f x \<le> (p :: nat)) xs) \<Longrightarrow> p < f y"
  by (induction xs) (auto split: if_splits)

lemma sorted_between:
  "sorted (map f (xs @ ys)) \<Longrightarrow> \<forall>x\<in>set xs. f x \<le> f m \<Longrightarrow> \<forall>y\<in>set ys. f m \<le> f y \<Longrightarrow>
    sorted (map f (xs @ m # ys))"
  by (auto simp: sorted_append)

lemma sorted_insert_middle:
  fixes f :: "'a \<Rightarrow> nat"
  assumes "sorted (map f xs)"
  shows "sorted (map f (takeWhile (\<lambda>x. f x \<le> f m) xs @ m # dropWhile (\<lambda>x. f x \<le> f m) xs))"
proof (rule sorted_between)
  show "sorted (map f (takeWhile (\<lambda>x. f x \<le> f m) xs @ dropWhile (\<lambda>x. f x \<le> f m) xs))" using assms by simp
  show "\<forall>x\<in>set (takeWhile (\<lambda>x. f x \<le> f m) xs). f x \<le> f m" by (blast dest: set_takeWhileD)
  show "\<forall>y\<in>set (dropWhile (\<lambda>x. f x \<le> f m) xs). f m \<le> f y"
    using sorted_dropWhile_gt [OF assms] by (blast intro: less_imp_le)
qed

lemma sum_list_split:
  fixes g :: "'a \<Rightarrow> nat"
  shows "sum_list (map g (takeWhile P xs @ m # dropWhile P xs)) = sum_list (map g xs) + g m"
proof -
  have "sum_list (map g xs) = sum_list (map g (takeWhile P xs @ dropWhile P xs))" by simp
  then show ?thesis unfolding map_append sum_list_append by simp
qed

lemma length_split: "length (takeWhile P xs @ m # dropWhile P xs) = Suc (length xs)"
  by (metis add_Suc_right length_Cons length_append takeWhile_dropWhile_id)

lemma length_filter_update:
  "i < length xs \<Longrightarrow> P (xs ! i) \<Longrightarrow> \<not> P y \<Longrightarrow> length (filter P (xs[i := y])) < length (filter P xs)"
proof (induction xs arbitrary: i)
  case (Cons x xs)
  then show ?case by (cases i) auto
qed simp

lemma array_get_out: "length xs \<le> i \<Longrightarrow> array_get xs i = Panics"
  by (simp add: array_get_def)

lemma and_then_Returns: "and_then a f = Returns y \<longleftrightarrow> (\<exists>x. a = Returns x \<and> f x = Returns y)"
  by (cases a) auto

lemma try_unit_Err_iff: "try_unit a b = Err e \<longleftrightarrow> a = Err e \<or> is_ok a \<and> b = Err e"
  by (cases a) auto

lemma unat_add_of_nat_le: "unat ((w :: 64 word) + of_nat n) \<le> unat w + n"
proof -
  have "unat (w + of_nat n) = (unat w + n) mod 2 ^ 64"
    by (simp add: unat_word_ariths unat_of_nat mod_simps)
  then show ?thesis by simp
qed

lemma show_dec_length: "length (show_dec n) \<le> Suc n"
proof (induction n rule: show_dec.induct)
  case (1 n)
  show ?case
  proof (cases "n < 10")
    case True
    then show ?thesis by (simp add: show_dec.simps [of n])
  next
    case False
    with 1 have "length (show_dec (n div 10)) \<le> Suc (n div 10)" by blast
    with False show ?thesis by (simp add: show_dec.simps [of n])
  qed
qed

lemma small_nonneg: "(v :: u64) < 2 ^ 32 \<Longrightarrow> 0 \<le> sint v"
proof -
  assume "v < 2 ^ 32"
  then have "uint v < 2 ^ 63" by (simp add: word_less_def)
  moreover have "- (2 ^ 63) \<le> uint v" by (rule order_trans [OF _ uint_ge_0]) simp
  ultimately have "sint v = uint v" by (simp add: sint_uint signed_take_bit_int_eq_self_iff)
  then show ?thesis by simp
qed

lemma ucast_small: "(ucast (p :: u32) :: u64) < 2 ^ 32"
proof -
  have "unat (ucast p :: u64) = unat p mod 2 ^ 64" by (simp add: unsigned_ucast_eq take_bit_nat_def)
  also have "\<dots> < 2 ^ 32" using unsigned_less [of p, where ?'a = nat] by (intro le_less_trans [OF mod_less_eq_dividend]) simp
  finally show ?thesis by (simp add: word_less_nat_alt)
qed

lemma modify_first_map:
  assumes "\<And>k l. k < length xs \<Longrightarrow> l < length xs \<Longrightarrow> P (xs ! k) \<Longrightarrow> P (xs ! l) \<Longrightarrow> k = l"
  shows "modify_first P f xs = map (\<lambda>x. if P x then f x else x) xs"
  using assms
proof (induction xs)
  case (Cons x xs)
  show ?case
  proof (cases "P x")
    case True
    have "\<not> P y" if "y \<in> set xs" for y
    proof
      assume "P y"
      from that obtain k where "k < length xs" "xs ! k = y" by (auto simp: in_set_conv_nth)
      with Cons.prems [of 0 "Suc k"] True \<open>P y\<close> show False by simp
    qed
    with True show ?thesis by (auto intro!: map_idI [symmetric])
  next
    case False
    have "modify_first P f xs = map (\<lambda>x. if P x then f x else x) xs"
    proof (rule Cons.IH)
      fix k l
      assume "k < length xs" "l < length xs" "P (xs ! k)" "P (xs ! l)"
      with Cons.prems [of "Suc k" "Suc l"] show "k = l" by simp
    qed
    with False show ?thesis by simp
  qed
qed simp

lemma map_modify_first_in:
  "(\<And>x. x \<in> set xs \<Longrightarrow> P x \<Longrightarrow> g (f x) = g x) \<Longrightarrow> map g (modify_first P f xs) = map g xs"
  by (induction xs) auto

lemma find_map_upt_Some:
  "find_map f [a..<b] = Some y \<longleftrightarrow> (\<exists>j. a \<le> j \<and> j < b \<and> f j = Some y \<and> (\<forall>i. a \<le> i \<and> i < j \<longrightarrow> f i = None))"
proof (induction "b - a" arbitrary: a)
  case 0
  then show ?case by simp
next
  case (Suc n)
  then have up: "[a..<b] = a # [Suc a..<b]" "a < b" by (simp_all add: upt_conv_Cons)
  have IH: "find_map f [Suc a..<b] = Some y \<longleftrightarrow>
      (\<exists>j. Suc a \<le> j \<and> j < b \<and> f j = Some y \<and> (\<forall>i. Suc a \<le> i \<and> i < j \<longrightarrow> f i = None))"
    using Suc by (intro Suc(1)) simp
  show ?case
  proof (cases "f a")
    case None
    have "(\<exists>j. Suc a \<le> j \<and> j < b \<and> f j = Some y \<and> (\<forall>i. Suc a \<le> i \<and> i < j \<longrightarrow> f i = None)) \<longleftrightarrow>
        (\<exists>j. a \<le> j \<and> j < b \<and> f j = Some y \<and> (\<forall>i. a \<le> i \<and> i < j \<longrightarrow> f i = None))"
      using None by (metis Suc_leD Suc_leI le_eq_less_or_eq option.simps(3))
    with None IH show ?thesis unfolding up(1) by simp
  next
    case (Some z)
    have "j = a" if "a \<le> j" "\<forall>i. a \<le> i \<and> i < j \<longrightarrow> f i = None" for j
      using that Some by (metis le_eq_less_or_eq option.simps(3) order_refl)
    with Some up show ?thesis by auto (metis option.inject)
  qed
qed

lemma find_sorted_least:
  "sorted xs \<Longrightarrow> find P xs = Some x \<Longrightarrow> y \<in> set xs \<Longrightarrow> P y \<Longrightarrow> x \<le> y"
  by (induction xs) (auto split: if_splits)

end
