(* ===== verification/Memory_Base.thy ===== *)
theory Memory_Base
  imports Kosh_Prelude
begin

text \<open>
  The page arithmetic of \<^verbatim>\<open>kernel/src/memory/mod.rs\<close>, on 64-bit addresses. The shared
  facts rewrite it to division on natural numbers.
\<close>

definition PAGE_SIZE :: usize where
  "PAGE_SIZE = 4096"

definition bytes_to_pages :: "usize \<Rightarrow> usize" where
  "bytes_to_pages bytes = (bytes + PAGE_SIZE - 1) div PAGE_SIZE"

definition pages_to_bytes :: "usize \<Rightarrow> usize" where
  "pages_to_bytes pages = pages * PAGE_SIZE"

definition align_up :: "usize \<Rightarrow> usize" where
  "align_up addr = (addr + PAGE_SIZE - 1) AND NOT (PAGE_SIZE - 1)"

definition align_down :: "usize \<Rightarrow> usize" where
  "align_down addr = addr AND NOT (PAGE_SIZE - 1)"

definition is_aligned :: "usize \<Rightarrow> bool" where
  "is_aligned addr \<longleftrightarrow> addr AND (PAGE_SIZE - 1) = 0"

section \<open>Page arithmetic on natural numbers\<close>

lemma page_mask: "PAGE_SIZE - 1 = mask 12"
  by (simp add: PAGE_SIZE_def mask_eq_exp_minus_1)

lemma unat_PAGE_SIZE [simp, pages_simps]: "unat PAGE_SIZE = 4096"
  by (simp add: PAGE_SIZE_def)

lemma unat_align_down [pages_simps]: "unat (align_down a) = unat a div 4096 * 4096"
  by (simp add: align_down_def page_mask unat_and_not_low_bits)

lemma is_aligned_iff [pages_simps]: "is_aligned a \<longleftrightarrow> unat a mod 4096 = 0"
proof -
  have "is_aligned a \<longleftrightarrow> take_bit 12 a = 0"
    by (simp only: is_aligned_def page_mask take_bit_eq_mask)
  also have "\<dots> \<longleftrightarrow> unat (take_bit 12 a) = 0"
    by (simp only: unat_eq_0)
  also have "unat (take_bit 12 a) = unat a mod 4096"
    by (simp only: unsigned_take_bit_eq) (simp add: take_bit_eq_mod)
  finally show ?thesis .
qed

lemma unat_page_round [pages_simps]: "unat (a + PAGE_SIZE - 1) = (unat a + 4095) mod 2 ^ 64"
proof -
  have e: "a + PAGE_SIZE - 1 = a + 4095"
    by (simp add: PAGE_SIZE_def)
  show ?thesis
    by (subst e) (simp add: unat_word_ariths)
qed

lemma unat_align_up [pages_simps]: "unat (align_up a) = (unat a + 4095) mod 2 ^ 64 div 4096 * 4096"
  by (simp only: align_up_def page_mask unat_and_not_low_bits unat_page_round) simp

lemma unat_bytes_to_pages [pages_simps]:
  "unat (bytes_to_pages a) = (unat a + 4095) mod 2 ^ 64 div 4096"
  by (simp only: bytes_to_pages_def unat_div_distrib unat_page_round unat_PAGE_SIZE)

lemma unat_lt_64 [simp]: "unat (x :: 64 word) < 18446744073709551616"
  using unsigned_less [of x, where ?'a = nat] by simp

text \<open>
  Rounding an address up gives a page boundary that is not below the address and less
  than a page above it, for every address whose last page does not end past the top of the
  address space.
\<close>

theorem align_up_next_boundary:
  assumes "unat a \<le> 2 ^ 64 - 4096"
  shows "is_aligned (align_up a) \<and> unat a \<le> unat (align_up a) \<and> unat (align_up a) < unat a + 4096"
proof -
  from assms have up: "unat (align_up a) = (unat a + 4095) div 4096 * 4096"
    by (simp add: pages_simps)
  have "(unat a + 4095) div 4096 * 4096 = unat a + 4095 - (unat a + 4095) mod 4096"
    by (rule minus_mod_eq_div_mult [symmetric])
  moreover have "(unat a + 4095) mod 4096 \<le> 4095"
    by (simp flip: less_Suc_eq_le)
  ultimately have "unat a \<le> unat (align_up a)" "unat (align_up a) < unat a + 4096"
    using up by linarith+
  with up show ?thesis
    by (simp add: is_aligned_iff)
qed

theorem align_up_next_boundary_witness:
  "is_aligned (align_up 0x1234) \<and> unat (0x1234 :: usize) \<le> unat (align_up 0x1234)
     \<and> unat (align_up 0x1234) < unat (0x1234 :: usize) + 4096"
  by (rule align_up_next_boundary) simp

end
