(* ===== verification/Slot_Pool.thy ===== *)
theory Slot_Pool
  imports Kosh_Prelude
begin

text \<open>
  The contract shared by the allocators that hand out numbered slots (page frames, swap
  slots): what is free, what an allocation takes from it and what a release gives back.
  Its clients only see allocations and releases, so what they rely on - slots in
  exclusive use, a pool that can be drained completely - is proved here once.
\<close>

section \<open>Clients of a pool\<close>

text \<open>
  A client that starts from \<open>s0\<close> and holds the slots \<open>H\<close>: it takes a slot by a
  successful allocation, and gives back only what it holds.
\<close>

inductive client ::
    "('s \<Rightarrow> nat option \<times> 's) \<Rightarrow> ('s \<Rightarrow> nat \<Rightarrow> 's) \<Rightarrow> 's \<Rightarrow> 's \<Rightarrow> nat set \<Rightarrow> bool"
  for alloc release s0 where
  start: "client alloc release s0 s0 {}"
| take_slot: "client alloc release s0 s H \<Longrightarrow> alloc s = (Some x, s') \<Longrightarrow>
     client alloc release s0 s' (insert x H)"
| give_slot: "client alloc release s0 s H \<Longrightarrow> x \<in> H \<Longrightarrow>
     client alloc release s0 (release s x) (H - {x})"

text \<open>Repeated allocation, until a request fails or \<open>n\<close> slots are taken.\<close>

fun alloc_many :: "('s \<Rightarrow> nat option \<times> 's) \<Rightarrow> nat \<Rightarrow> 's \<Rightarrow> nat list \<times> 's" where
  "alloc_many alloc 0 s = ([], s)"
| "alloc_many alloc (Suc n) s =
     (case alloc s of
        (None, s') \<Rightarrow> ([], s')
      | (Some x, s') \<Rightarrow> (case alloc_many alloc n s' of (xs, s'') \<Rightarrow> (x # xs, s'')))"

section \<open>The contract\<close>

locale slot_pool =
  fixes free :: "'s \<Rightarrow> nat set"
    and capacity :: "'s \<Rightarrow> nat"
    and inv :: "'s \<Rightarrow> bool"
    and alloc :: "'s \<Rightarrow> nat option \<times> 's"
    and release :: "'s \<Rightarrow> nat \<Rightarrow> 's"
  assumes free_bounded: "inv s \<Longrightarrow> free s \<subseteq> {..<capacity s}"
    and alloc_Some: "inv s \<Longrightarrow> alloc s = (Some x, s') \<Longrightarrow> x \<in> free s \<and> free s' = free s - {x}"
    and alloc_None: "inv s \<Longrightarrow> alloc s = (None, s') \<Longrightarrow> free s = {} \<and> s' = s"
    and alloc_inv: "inv s \<Longrightarrow> alloc s = (r, s') \<Longrightarrow> inv s' \<and> capacity s' = capacity s"
    and release_free: "inv s \<Longrightarrow> x < capacity s \<Longrightarrow> free (release s x) = insert x (free s)"
    and release_inv: "inv s \<Longrightarrow> x < capacity s \<Longrightarrow> inv (release s x) \<and> capacity (release s x) = capacity s"
begin

lemma finite_free: "inv s \<Longrightarrow> finite (free s)"
  by (meson finite_lessThan finite_subset free_bounded)

lemma client_partition:
  assumes "client alloc release s0 s H" "inv s0"
  shows "inv s \<and> capacity s = capacity s0 \<and> H \<inter> free s = {} \<and> H \<union> free s = free s0"
  using assms(1)
proof induction
  case start
  with assms(2) show ?case by simp
next
  case (take_slot s H x s')
  then show ?case
    using alloc_Some [of s x s'] alloc_inv [of s "Some x" s'] by auto
next
  case (give_slot s H x)
  then have "x < capacity s"
    using free_bounded [OF assms(2)] by auto
  with give_slot show ?case
    using release_free [of s x] release_inv [of s x] by auto
qed

lemma client_exclusive:
  assumes "client alloc release s0 s H" "inv s0" "alloc s = (Some x, s')"
  shows "x \<notin> H"
  using client_partition [OF assms(1,2)] alloc_Some [OF _ assms(3)] by auto

lemma alloc_many_drains:
  assumes "inv s" "alloc_many alloc n s = (xs, s')"
  shows "inv s' \<and> distinct xs \<and> set xs \<subseteq> free s \<and> free s' = free s - set xs
    \<and> length xs = min n (card (free s))"
  using assms
proof (induction n arbitrary: s xs s')
  case 0
  then show ?case by auto
next
  case (Suc n)
  show ?case
  proof (cases "fst (alloc s)")
    case None
    with Suc.prems alloc_None [of s "snd (alloc s)"] show ?thesis
      by (cases "alloc s") auto
  next
    case (Some x)
    then obtain t ys where alloc: "alloc s = (Some x, t)"
      and more: "alloc_many alloc n t = (ys, s')" and xs: "xs = x # ys"
      using Suc.prems(2) by (cases "alloc s") (auto split: prod.splits)
    have x: "x \<in> free s" and t: "free t = free s - {x}" and "inv t"
      using alloc_Some [OF Suc.prems(1) alloc] alloc_inv [OF Suc.prems(1) alloc] by auto
    moreover have "card (free t) = card (free s) - 1" "0 < card (free s)"
      using x t finite_free [OF Suc.prems(1)] by (auto simp: card_gt_0_iff)
    ultimately show ?thesis
      using Suc.IH [OF \<open>inv t\<close> more] xs by auto
  qed
qed

lemma release_alloc_restores:
  assumes "inv s" "alloc s = (Some x, s')"
  shows "free (release s' x) = free s"
proof -
  have "x \<in> free s" "free s' = free s - {x}" "inv s'" "capacity s' = capacity s"
    using alloc_Some [OF assms] alloc_inv [OF assms] by auto
  moreover from this have "x < capacity s'"
    using free_bounded [OF assms(1)] by auto
  ultimately show ?thesis
    using release_free [of s' x] by auto
qed

end

end
