(* ===== verification/Phys_Mem.thy ===== *)
theory Phys_Mem
  imports Memory_Base Slot_Pool
begin

text \<open>
  The physical page-frame allocator of \<^verbatim>\<open>kernel/src/memory/physical.rs\<close>: a bitmap with
  one bit per page frame, set where the frame is in use, and the counters kept beside it.
  Frame numbers are natural numbers; the places where the source adds to a frame number
  that its caller chose write the wrap-around out. The memory map is the list of areas
  the multiboot2 library reports.
\<close>

section \<open>Page frames\<close>

type_synonym page_frame = nat

definition frame_from_address :: "usize \<Rightarrow> page_frame" where
  "frame_from_address addr = unat (align_down addr div PAGE_SIZE)"

definition frame_address :: "page_frame \<Rightarrow> usize" where
  "frame_address f = of_nat f * PAGE_SIZE"

definition frame_next :: "page_frame \<Rightarrow> page_frame" where
  "frame_next f = (f + 1) mod 2 ^ 64"

section \<open>State\<close>

record memory_stats =
  total_pages :: usize
  used_pages :: usize
  free_pages :: usize
  reserved_pages :: usize

definition total_memory_mb :: "memory_stats \<Rightarrow> usize" where
  "total_memory_mb s = (total_pages s * PAGE_SIZE) div (1024 * 1024)"

definition used_memory_mb :: "memory_stats \<Rightarrow> usize" where
  "used_memory_mb s = (used_pages s * PAGE_SIZE) div (1024 * 1024)"

definition free_memory_mb :: "memory_stats \<Rightarrow> usize" where
  "free_memory_mb s = (free_pages s * PAGE_SIZE) div (1024 * 1024)"

record phys_mem =
  bitmap :: "u8 list"
  total_frames :: nat
  free_frames :: usize
  used_frames :: usize
  reserved_frames :: usize
  bitmap_start :: nat

record memory_area =
  start_address :: u64
  end_address :: u64
  available :: bool

section \<open>One frame\<close>

definition is_frame_free :: "phys_mem \<Rightarrow> page_frame \<Rightarrow> bool" where
  "is_frame_free m f =
     (if f \<ge> total_frames m then False
      else let byte_idx = f div 8; bit_idx = f mod 8 in
        if byte_idx \<ge> length (bitmap m) then False
        else bitmap m ! byte_idx AND push_bit bit_idx 1 = 0)"

definition mark_frame_used :: "phys_mem \<Rightarrow> page_frame \<Rightarrow> phys_mem" where
  "mark_frame_used m f =
     (if f \<ge> total_frames m then m
      else let byte_idx = f div 8; bit_idx = f mod 8 in
        if byte_idx \<ge> length (bitmap m) then m
        else if bitmap m ! byte_idx AND push_bit bit_idx 1 = 0
        then m\<lparr>bitmap := (bitmap m)[byte_idx := bitmap m ! byte_idx OR push_bit bit_idx 1],
               free_frames := free_frames m - 1,
               used_frames := used_frames m + 1\<rparr>
        else m)"

definition mark_frame_free :: "phys_mem \<Rightarrow> page_frame \<Rightarrow> phys_mem" where
  "mark_frame_free m f =
     (if f \<ge> total_frames m then m
      else let byte_idx = f div 8; bit_idx = f mod 8 in
        if byte_idx \<ge> length (bitmap m) then m
        else if bitmap m ! byte_idx AND push_bit bit_idx 1 \<noteq> 0
        then m\<lparr>bitmap := (bitmap m)[byte_idx := bitmap m ! byte_idx AND NOT (push_bit bit_idx 1)],
               used_frames := used_frames m - 1,
               free_frames := free_frames m + 1\<rparr>
        else m)"

section \<open>Initialisation from the memory map\<close>

text \<open>The body of the loop over the frames of an available area.\<close>

definition release_area_frame :: "page_frame \<Rightarrow> phys_mem \<Rightarrow> phys_mem" where
  "release_area_frame f m =
     (let frame_addr = f * unat PAGE_SIZE in
      if frame_addr < 0x100000 \<or>
         (frame_addr \<ge> bitmap_start m \<and> frame_addr < bitmap_start m + length (bitmap m))
      then m\<lparr>reserved_frames := reserved_frames m + 1\<rparr>
      else if f < total_frames m then mark_frame_free m f else m)"

text \<open>The body of the loop over the frames of any other area.\<close>

definition reserve_area_frame :: "page_frame \<Rightarrow> phys_mem \<Rightarrow> phys_mem" where
  "reserve_area_frame f m =
     (if f < total_frames m then m\<lparr>reserved_frames := reserved_frames m + 1\<rparr> else m)"

definition area_frames :: "memory_area \<Rightarrow> page_frame list" where
  "area_frames a =
     [frame_from_address (start_address a)..<Suc (frame_from_address (end_address a - 1))]"

definition parse_area :: "memory_area \<Rightarrow> phys_mem \<Rightarrow> phys_mem" where
  "parse_area a m =
     (if available a then fold release_area_frame (area_frames a) m
      else fold reserve_area_frame (area_frames a) m)"

definition parse_memory_map :: "memory_area list \<Rightarrow> phys_mem \<Rightarrow> phys_mem" where
  "parse_memory_map areas m = fold parse_area areas m"

definition max_end_addr :: "memory_area list \<Rightarrow> usize" where
  "max_end_addr areas = fold (\<lambda>a e. if available a then max e (end_address a) else e) areas 0"

definition phys_mem_new :: "memory_area list option \<Rightarrow> (phys_mem, string) result" where
  "phys_mem_new memory_map =
     (case memory_map of
        None \<Rightarrow> Err ''No memory map found in multiboot2 info''
      | Some areas \<Rightarrow>
          if max_end_addr areas = 0 then Err ''No usable memory found''
          else
            let n_frames = unat (max_end_addr areas div PAGE_SIZE);
                bitmap_size = (n_frames + 7) div 8;
                bm_start = 0x200000;
                bm_end = bm_start + bitmap_size
            in if \<exists>a\<in>set areas. \<not> available a \<and> bm_start < unat (end_address a) \<and>
                                bm_end > unat (start_address a)
               then Err ''Cannot place bitmap - overlaps with reserved memory''
               else Ok (parse_memory_map areas
                 \<lparr>bitmap = replicate bitmap_size 0xFF, total_frames = n_frames,
                  free_frames = 0, used_frames = 0, reserved_frames = 0,
                  bitmap_start = bm_start\<rparr>))"

section \<open>Allocation\<close>

fun scan_bits :: "nat \<Rightarrow> u8 \<Rightarrow> nat \<Rightarrow> nat list \<Rightarrow> page_frame option" where
  "scan_bits n_frames byte byte_idx [] = None"
| "scan_bits n_frames byte byte_idx (bit_idx # rest) =
     (if byte AND push_bit bit_idx 1 = 0
      then let frame_num = byte_idx * 8 + bit_idx in
        if frame_num < n_frames then Some frame_num else scan_bits n_frames byte byte_idx rest
      else scan_bits n_frames byte byte_idx rest)"

fun scan_bytes :: "phys_mem \<Rightarrow> nat list \<Rightarrow> page_frame option" where
  "scan_bytes m [] = None"
| "scan_bytes m (byte_idx # rest) =
     (let byte = bitmap m ! byte_idx in
      if byte \<noteq> 0xFF
      then case scan_bits (total_frames m) byte byte_idx [0..<8] of
             Some f \<Rightarrow> Some f
           | None \<Rightarrow> scan_bytes m rest
      else scan_bytes m rest)"

definition allocate_frame :: "phys_mem \<Rightarrow> page_frame option \<times> phys_mem" where
  "allocate_frame m =
     (if free_frames m = 0 then (None, m)
      else case scan_bytes m [0..<length (bitmap m)] of
             Some f \<Rightarrow> (Some f, mark_frame_used m f)
           | None \<Rightarrow> (None, m))"

fun find_run :: "phys_mem \<Rightarrow> nat \<Rightarrow> page_frame list \<Rightarrow> nat \<Rightarrow> page_frame option \<Rightarrow> page_frame option" where
  "find_run m count [] consecutive_free start_frame = None"
| "find_run m count (f # rest) consecutive_free start_frame =
     (if is_frame_free m f
      then let start = (if consecutive_free = 0 then Some f else start_frame);
               consecutive = consecutive_free + 1
           in if consecutive = count then start else find_run m count rest consecutive start
      else find_run m count rest 0 None)"

definition mark_frames_used :: "page_frame \<Rightarrow> nat \<Rightarrow> phys_mem \<Rightarrow> phys_mem" where
  "mark_frames_used start count m = fold (\<lambda>i m. mark_frame_used m (start + i)) [0..<count] m"

definition allocate_frames :: "phys_mem \<Rightarrow> nat \<Rightarrow> page_frame option \<times> phys_mem" where
  "allocate_frames m count =
     (if count = 0 \<or> unat (free_frames m) < count then (None, m)
      else if count = 1 then allocate_frame m
      else case find_run m count [0..<total_frames m] 0 None of
             Some start \<Rightarrow> (Some start, mark_frames_used start count m)
           | None \<Rightarrow> (None, m))"

definition deallocate_frame :: "phys_mem \<Rightarrow> page_frame \<Rightarrow> phys_mem" where
  "deallocate_frame m f =
     (if f \<ge> total_frames m then m
      else if is_frame_free m f then m
      else mark_frame_free m f)"

definition deallocate_frames :: "phys_mem \<Rightarrow> page_frame \<Rightarrow> nat \<Rightarrow> phys_mem" where
  "deallocate_frames m start count =
     fold (\<lambda>i m. deallocate_frame m ((start + i) mod 2 ^ 64)) [0..<count] m"

definition phys_stats :: "phys_mem \<Rightarrow> memory_stats" where
  "phys_stats m =
     \<lparr>total_pages = of_nat (total_frames m), used_pages = used_frames m,
      free_pages = free_frames m, reserved_pages = reserved_frames m\<rparr>"

section \<open>The global manager\<close>

definition init_physical_memory ::
    "memory_area list option \<Rightarrow> phys_mem option \<Rightarrow> (unit, string) result \<times> phys_mem option" where
  "init_physical_memory memory_map g =
     (case phys_mem_new memory_map of
        Err e \<Rightarrow> (Err e, g)
      | Ok m \<Rightarrow> (Ok (), Some m))"

definition global_allocate_frame :: "phys_mem option \<Rightarrow> page_frame option \<times> phys_mem option" where
  "global_allocate_frame g =
     (case g of None \<Rightarrow> (None, None) | Some m \<Rightarrow> map_prod id Some (allocate_frame m))"

definition global_allocate_frames ::
    "phys_mem option \<Rightarrow> nat \<Rightarrow> page_frame option \<times> phys_mem option" where
  "global_allocate_frames g count =
     (case g of None \<Rightarrow> (None, None) | Some m \<Rightarrow> map_prod id Some (allocate_frames m count))"

definition global_deallocate_frame :: "phys_mem option \<Rightarrow> page_frame \<Rightarrow> phys_mem option" where
  "global_deallocate_frame g f = map_option (\<lambda>m. deallocate_frame m f) g"

definition global_deallocate_frames :: "phys_mem option \<Rightarrow> page_frame \<Rightarrow> nat \<Rightarrow> phys_mem option" where
  "global_deallocate_frames g start count = map_option (\<lambda>m. deallocate_frames m start count) g"

definition memory_stats_of :: "phys_mem option \<Rightarrow> memory_stats option" where
  "memory_stats_of g = map_option phys_stats g"

section \<open>Free frames, the invariant and reachable states\<close>

definition free_set :: "phys_mem \<Rightarrow> page_frame set" where
  "free_set m = {f. is_frame_free m f}"

definition pm_shape :: "phys_mem \<Rightarrow> bool" where
  "pm_shape m \<longleftrightarrow> length (bitmap m) = (total_frames m + 7) div 8 \<and> total_frames m \<le> 2 ^ 52"

definition pm_wf :: "phys_mem \<Rightarrow> bool" where
  "pm_wf m \<longleftrightarrow> pm_shape m \<and> unat (free_frames m) = card (free_set m)"

definition run_free :: "phys_mem \<Rightarrow> page_frame \<Rightarrow> nat \<Rightarrow> bool" where
  "run_free m s count \<longleftrightarrow> (\<forall>i<count. is_frame_free m (s + i))"

definition usable_frame :: "phys_mem \<Rightarrow> page_frame \<Rightarrow> bool" where
  "usable_frame m f \<longleftrightarrow> f < total_frames m \<and> 0x100000 \<le> f * 4096 \<and>
     \<not> (bitmap_start m \<le> f * 4096 \<and> f * 4096 < bitmap_start m + length (bitmap m))"

definition same_layout :: "phys_mem \<Rightarrow> phys_mem \<Rightarrow> bool" where
  "same_layout m m' \<longleftrightarrow> total_frames m' = total_frames m \<and> bitmap_start m' = bitmap_start m \<and>
     length (bitmap m') = length (bitmap m) \<and>
     used_frames m' + free_frames m' = used_frames m + free_frames m"

definition fresh_phys_mem :: "nat \<Rightarrow> phys_mem" where
  "fresh_phys_mem n =
     \<lparr>bitmap = replicate ((n + 7) div 8) 0xFF, total_frames = n, free_frames = 0,
      used_frames = 0, reserved_frames = 0, bitmap_start = 0x200000\<rparr>"

inductive pm_reachable :: "memory_area list \<Rightarrow> phys_mem \<Rightarrow> bool" for areas where
  boot: "phys_mem_new (Some areas) = Ok m \<Longrightarrow> pm_reachable areas m"
| allocate_one: "pm_reachable areas m \<Longrightarrow> pm_reachable areas (snd (allocate_frame m))"
| allocate_many: "pm_reachable areas m \<Longrightarrow> pm_reachable areas (snd (allocate_frames m count))"
| free_one: "pm_reachable areas m \<Longrightarrow> pm_reachable areas (deallocate_frame m f)"
| free_many: "pm_reachable areas m \<Longrightarrow> pm_reachable areas (deallocate_frames m f count)"

text \<open>A manager of 16 frames, two of them free, and a small memory map.\<close>

definition demo_mem :: phys_mem where
  "demo_mem = mark_frame_free (mark_frame_free (fresh_phys_mem 16) 3) 4"

definition demo_map :: "memory_area list" where
  "demo_map = [\<lparr>start_address = 0, end_address = 0x9FC00, available = True\<rparr>,
               \<lparr>start_address = 0x100000, end_address = 0x103000, available = True\<rparr>]"

section \<open>The bitmap as a set of frames\<close>

lemma byte_bit_clear_iff: "(b :: u8) AND 2 ^ (f mod 8) = 0 \<longleftrightarrow> \<not> bit b (f mod 8)"
  by (rule and_exp_eq_0_iff) simp

lemma frame_byte_in_bitmap: "pm_shape m \<Longrightarrow> f < total_frames m \<Longrightarrow> f div 8 < length (bitmap m)"
  unfolding pm_shape_def by linarith

lemma is_frame_free_bit:
  "pm_shape m \<Longrightarrow>
     is_frame_free m f \<longleftrightarrow> f < total_frames m \<and> \<not> bit (bitmap m ! (f div 8)) (f mod 8)"
  using frame_byte_in_bitmap [of m f]
  by (auto simp: is_frame_free_def Let_def byte_bit_clear_iff)

lemma mem_free_set [simp]: "f \<in> free_set m \<longleftrightarrow> is_frame_free m f"
  by (simp add: free_set_def)

lemma free_set_bounded: "free_set m \<subseteq> {..<total_frames m}"
  by (auto simp: free_set_def is_frame_free_def split: if_splits)

lemma finite_free_set [simp]: "finite (free_set m)"
  using free_set_bounded finite_lessThan by (rule finite_subset)

lemma card_free_set_le: "card (free_set m) \<le> total_frames m"
  using card_mono [OF finite_lessThan free_set_bounded] by simp

lemma bit_update_frame:
  assumes "g div 8 < length bs"
  shows "bit (bs[f div 8 := w] ! (g div 8)) (g mod 8) =
     (if f div 8 = g div 8 then bit w (g mod 8) else bit (bs ! (g div 8)) (g mod 8))"
  using assms by (auto simp: nth_list_update)

lemma same_frame: "f div 8 = g div 8 \<Longrightarrow> g mod 8 = f mod (8::nat) \<Longrightarrow> g = f"
  by (metis div_mult_mod_eq)

section \<open>Marking one frame\<close>

lemma mark_used_fields [frame_simps]:
  "total_frames (mark_frame_used m f) = total_frames m"
  "length (bitmap (mark_frame_used m f)) = length (bitmap m)"
  "bitmap_start (mark_frame_used m f) = bitmap_start m"
  "reserved_frames (mark_frame_used m f) = reserved_frames m"
  "used_frames (mark_frame_used m f) + free_frames (mark_frame_used m f) = used_frames m + free_frames m"
  by (simp_all add: mark_frame_used_def Let_def)

lemma mark_free_fields [frame_simps]:
  "total_frames (mark_frame_free m f) = total_frames m"
  "length (bitmap (mark_frame_free m f)) = length (bitmap m)"
  "bitmap_start (mark_frame_free m f) = bitmap_start m"
  "reserved_frames (mark_frame_free m f) = reserved_frames m"
  "used_frames (mark_frame_free m f) + free_frames (mark_frame_free m f) = used_frames m + free_frames m"
  by (simp_all add: mark_frame_free_def Let_def)

lemma pm_shape_mark [simp]:
  "pm_shape (mark_frame_used m f) \<longleftrightarrow> pm_shape m"
  "pm_shape (mark_frame_free m f) \<longleftrightarrow> pm_shape m"
  by (simp_all add: pm_shape_def frame_simps)

lemma is_frame_free_mark_used:
  assumes "pm_shape m"
  shows "is_frame_free (mark_frame_used m f) g \<longleftrightarrow> is_frame_free m g \<and> g \<noteq> f"
proof (cases "is_frame_free m f \<and> g < total_frames m")
  case True
  with assms have "f div 8 < length (bitmap m)" "g div 8 < length (bitmap m)"
    by (auto simp: is_frame_free_bit frame_byte_in_bitmap)
  with True assms show ?thesis
    by (auto simp: is_frame_free_bit mark_used_fields)
       (auto simp: mark_frame_used_def Let_def byte_bit_clear_iff is_frame_free_bit bit_update_frame
          bit_simps split: if_splits dest: same_frame)
next
  case False
  then show ?thesis
    using assms frame_byte_in_bitmap [OF assms, of f]
    by (auto simp: is_frame_free_bit mark_used_fields)
       (auto simp: mark_frame_used_def Let_def is_frame_free_bit byte_bit_clear_iff split: if_splits)
qed

lemma is_frame_free_mark_free:
  assumes "pm_shape m" "f < total_frames m"
  shows "is_frame_free (mark_frame_free m f) g \<longleftrightarrow> is_frame_free m g \<or> g = f"
proof (cases "\<not> is_frame_free m f \<and> g < total_frames m")
  case True
  with assms have "f div 8 < length (bitmap m)" "g div 8 < length (bitmap m)"
    by (auto simp: is_frame_free_bit frame_byte_in_bitmap)
  with True assms show ?thesis
    by (auto simp: is_frame_free_bit mark_free_fields)
       (auto simp: mark_frame_free_def Let_def byte_bit_clear_iff is_frame_free_bit bit_update_frame
          bit_simps split: if_splits dest: same_frame)
next
  case False
  then show ?thesis
    using assms frame_byte_in_bitmap [OF assms]
    by (auto simp: is_frame_free_bit mark_free_fields)
       (auto simp: mark_frame_free_def Let_def is_frame_free_bit byte_bit_clear_iff split: if_splits)
qed

lemma free_set_mark_used: "pm_shape m \<Longrightarrow> free_set (mark_frame_used m f) = free_set m - {f}"
  by (auto simp: free_set_def is_frame_free_mark_used)

lemma free_set_mark_free:
  "pm_shape m \<Longrightarrow> f < total_frames m \<Longrightarrow> free_set (mark_frame_free m f) = insert f (free_set m)"
  by (auto simp: free_set_def is_frame_free_mark_free)

lemma mark_used_count:
  assumes "pm_shape m"
  shows "free_frames (mark_frame_used m f) = (if is_frame_free m f then free_frames m - 1 else free_frames m)"
  using assms frame_byte_in_bitmap [OF assms, of f]
  by (auto simp: mark_frame_used_def Let_def is_frame_free_bit byte_bit_clear_iff)

lemma mark_free_count:
  assumes "pm_shape m" "f < total_frames m"
  shows "free_frames (mark_frame_free m f) = (if is_frame_free m f then free_frames m else free_frames m + 1)"
  using assms frame_byte_in_bitmap [OF assms]
  by (auto simp: mark_frame_free_def Let_def is_frame_free_bit byte_bit_clear_iff)

lemma mark_used_wf:
  assumes "pm_wf m"
  shows "pm_wf (mark_frame_used m f)"
proof (cases "is_frame_free m f")
  case True
  then have "card (free_set m) \<noteq> 0" by auto
  with assms have "free_frames m \<noteq> 0" by (auto simp: pm_wf_def)
  with True assms show ?thesis
    by (simp add: pm_wf_def free_set_mark_used mark_used_count)
next
  case False
  with assms show ?thesis
    by (simp add: pm_wf_def free_set_mark_used mark_used_count)
qed

lemma mark_free_wf:
  assumes "pm_wf m" "f < total_frames m"
  shows "pm_wf (mark_frame_free m f)"
proof (cases "is_frame_free m f")
  case True
  with assms show ?thesis
    by (simp add: pm_wf_def free_set_mark_free mark_free_count insert_absorb)
next
  case False
  have "card (free_set m) \<le> 2 ^ 52"
    using card_free_set_le [of m] assms(1) by (auto simp: pm_wf_def pm_shape_def)
  with assms have "unat (free_frames m + 1) = Suc (unat (free_frames m))"
    by (intro unat_inc) (simp add: pm_wf_def)
  with False assms show ?thesis
    by (simp add: pm_wf_def free_set_mark_free mark_free_count)
qed

section \<open>The scan for a free frame\<close>

lemma scan_bits_eq:
  "scan_bits (total_frames m) byte j is =
     find (\<lambda>f. f < total_frames m \<and> byte AND 2 ^ (f - j * 8) = 0) (map (\<lambda>i. j * 8 + i) is)"
  by (induction "is") (auto simp: Let_def)

lemma full_byte: "bit (0xFF :: u8) (f mod 8)"
proof -
  have "(0xFF :: u8) = mask 8" by (simp add: mask_eq_exp_minus_1)
  then show ?thesis by (simp only: bit_mask_iff) simp
qed

lemma scan_bits_free:
  assumes "pm_shape m" "j < length (bitmap m)"
  shows "scan_bits (total_frames m) (bitmap m ! j) j [0..<8] = find (is_frame_free m) [j * 8..<j * 8 + 8]"
proof -
  have frames: "map (\<lambda>i. j * 8 + i) [0..<8] = [j * 8..<j * 8 + 8]"
    by (simp add: map_add_upt add.commute)
  have "(f < total_frames m \<and> bitmap m ! j AND 2 ^ (f - j * 8) = 0) = is_frame_free m f"
    if "f \<in> set [j * 8..<j * 8 + 8]" for f
  proof -
    from that have "f div 8 = j" by auto
    moreover from this have "f mod 8 = f - j * 8" by (simp flip: minus_div_mult_eq_mod)
    ultimately show ?thesis
      using assms byte_bit_clear_iff [of "bitmap m ! j" f] by (auto simp: is_frame_free_bit)
  qed
  then show ?thesis
    unfolding scan_bits_eq frames by (intro find_cong) auto
qed

lemma div_eq_of_range: "a * 8 \<le> x \<Longrightarrow> x < a * 8 + 8 \<Longrightarrow> x div 8 = (a::nat)"
  by auto

lemma scan_bytes_free:
  assumes "pm_shape m" "b \<le> length (bitmap m)"
  shows "scan_bytes m [a..<b] = find (is_frame_free m) [a * 8..<b * 8]"
  using assms(2)
proof (induction "b - a" arbitrary: a)
  case 0
  then show ?case by simp
next
  case (Suc k)
  then have ab: "a < b" by simp
  with Suc.prems have len: "a < length (bitmap m)" by simp
  from ab have bytes: "[a..<b] = a # [Suc a..<b]" by (simp add: upt_conv_Cons)
  from ab have frames: "[a * 8..<b * 8] = [a * 8..<a * 8 + 8] @ [Suc a * 8..<b * 8]"
    using upt_add_eq_append [of "a * 8" "a * 8 + 8" "b * 8 - (a * 8 + 8)"] by (simp add: add.commute)
  have "scan_bytes m [Suc a..<b] = find (is_frame_free m) [Suc a * 8..<b * 8]"
    using Suc by simp
  moreover have "bitmap m ! a = 0xFF \<Longrightarrow> find (is_frame_free m) [a * 8..<a * 8 + 8] = None"
    using assms(1) full_byte by (fastforce simp: find_None_iff is_frame_free_bit div_eq_of_range)
  ultimately show ?case
    unfolding bytes frames
    by (auto simp: Let_def scan_bits_free [OF assms(1) len] find_append split: option.splits)
qed

lemma scan_bytes_Least:
  assumes "pm_shape m"
  shows "scan_bytes m [0..<length (bitmap m)] =
     (if free_set m = {} then None else Some (LEAST f. is_frame_free m f))"
proof -
  have "f < length (bitmap m) * 8" if "is_frame_free m f" for f
    using assms that by (auto simp: is_frame_free_bit pm_shape_def)
  then have "(\<exists>f<length (bitmap m) * 8. is_frame_free m f) \<longleftrightarrow> free_set m \<noteq> {}"
    by (auto simp: free_set_def)
  with scan_bytes_free [OF assms, of "length (bitmap m)" 0] show ?thesis
    by (simp add: find_upt_Least)
qed

lemma allocate_frame_eq:
  assumes "pm_wf m"
  shows "allocate_frame m =
     (if free_set m = {} then (None, m)
      else (Some (LEAST f. is_frame_free m f), mark_frame_used m (LEAST f. is_frame_free m f)))"
  using assms by (auto simp: allocate_frame_def pm_wf_def scan_bytes_Least)

lemma Least_free: "free_set m \<noteq> {} \<Longrightarrow> is_frame_free m (LEAST f. is_frame_free m f)"
  by (metis LeastI_ex all_not_in_conv mem_free_set)

section \<open>The scan for contiguous frames\<close>

lemma find_run_scan:
  assumes "c < count" "c \<le> k" "\<forall>i. k - c \<le> i \<and> i < k \<longrightarrow> is_frame_free m i"
    "c = 0 \<or> start = Some (k - c)" "\<forall>s<k - c. \<not> run_free m s count"
  shows "find_run m count [k..<n] c start =
     (if \<exists>s. s + count \<le> n \<and> run_free m s count then Some (LEAST s. run_free m s count) else None)"
  using assms
proof (induction "n - k" arbitrary: k c start)
  case 0
  have "\<not> run_free m s count" if "s + count \<le> n" for s
    using 0 that by auto
  with 0 show ?case by auto
next
  case (Suc d)
  then have frames: "[k..<n] = k # [Suc k..<n]" by (simp add: upt_conv_Cons)
  have d: "d = n - Suc k" using Suc.hyps(2) by simp
  show ?case
  proof (cases "is_frame_free m k")
    case free: True
    have before: "\<forall>i. Suc k - Suc c \<le> i \<and> i < Suc k \<longrightarrow> is_frame_free m i"
      using Suc.prems free by (auto simp: less_Suc_eq)
    have start: "(if c = 0 then Some k else start) = Some (Suc k - Suc c)"
      using Suc.prems by auto
    show ?thesis
    proof (cases "Suc c = count")
      case True
      have run: "run_free m (k - c) count"
        unfolding run_free_def
      proof (intro allI impI)
        fix i assume "i < count"
        with True Suc.prems(2) have "Suc k - Suc c \<le> k - c + i" "k - c + i < Suc k" by auto
        with before show "is_frame_free m (k - c + i)" by blast
      qed
      moreover have "(LEAST s. run_free m s count) = k - c"
        using run Suc.prems(5) by (intro Least_equality) (auto intro: leI)
      moreover have "k - c + count \<le> n"
        using True Suc.prems(2) Suc.hyps(2) by auto
      ultimately show ?thesis
        using free start True by (auto simp: frames)
    next
      case False
      then show ?thesis
        using Suc.hyps(1) [OF d, of "Suc c" "Some (k - c)"] Suc.prems before start free
        by (simp add: frames)
    qed
  next
    case busy: False
    have "\<not> run_free m s count" if "s < Suc k" for s
    proof (cases "s < k - c")
      case True
      with Suc.prems show ?thesis by blast
    next
      case False
      with that Suc.prems have "s + (k - s) = k" "k - s < count" by auto
      with busy show ?thesis unfolding run_free_def by metis
    qed
    then show ?thesis
      using Suc.hyps(1) [OF d, of 0 None] Suc.prems busy by (simp add: frames)
  qed
qed

lemma find_run_Least:
  assumes "0 < count"
  shows "find_run m count [0..<total_frames m] 0 None =
     (if \<exists>s. run_free m s count then Some (LEAST s. run_free m s count) else None)"
proof -
  have "s + count \<le> total_frames m" if "run_free m s count" for s
  proof -
    from that assms have "is_frame_free m (s + (count - 1))"
      unfolding run_free_def by (metis diff_less zero_less_one)
    then have "s + (count - 1) < total_frames m"
      using free_set_bounded [of m] by auto
    with assms show ?thesis by simp
  qed
  with find_run_scan [of 0 count 0 m None "total_frames m"] assms show ?thesis by auto
qed

section \<open>Initialisation\<close>

lemma same_layout_refl [simp]: "same_layout m m"
  by (simp add: same_layout_def)

lemma same_layout_trans [trans]: "same_layout a b \<Longrightarrow> same_layout b c \<Longrightarrow> same_layout a c"
  by (simp add: same_layout_def)

lemma same_layout_usable: "same_layout m m' \<Longrightarrow> usable_frame m' f = usable_frame m f"
  by (simp add: same_layout_def usable_frame_def)

lemma same_layout_mark [simp]:
  "same_layout m (mark_frame_used m f)" "same_layout m (mark_frame_free m f)"
  by (simp_all add: same_layout_def frame_simps)

lemma reserve_counter [simp]:
  "pm_wf (m\<lparr>reserved_frames := r\<rparr>) = pm_wf m"
  "free_set (m\<lparr>reserved_frames := r\<rparr>) = free_set m"
  "same_layout m (m\<lparr>reserved_frames := r\<rparr>)"
  by (simp_all add: pm_wf_def pm_shape_def free_set_def is_frame_free_def same_layout_def)

lemma release_area_frame_effect:
  assumes "pm_wf m"
  shows "pm_wf (release_area_frame f m)" "same_layout m (release_area_frame f m)"
    "free_set (release_area_frame f m) = free_set m \<union> (if usable_frame m f then {f} else {})"
  using assms
  by (auto simp: release_area_frame_def Let_def usable_frame_def free_set_mark_free pm_wf_def [of m]
      intro: mark_free_wf)

lemma release_frames_effect:
  assumes "pm_wf m"
  shows "pm_wf (fold release_area_frame fs m) \<and> same_layout m (fold release_area_frame fs m) \<and>
    free_set (fold release_area_frame fs m) = free_set m \<union> {f \<in> set fs. usable_frame m f}"
  using assms
proof (induction fs arbitrary: m)
  case Nil
  then show ?case by simp
next
  case (Cons f fs)
  note effect = release_area_frame_effect [OF Cons.prems, of f]
  have "free_set (fold release_area_frame (f # fs) m) =
      free_set m \<union> {g \<in> set (f # fs). usable_frame m g}"
    using Cons.IH [OF effect(1)] effect(3) same_layout_usable [OF effect(2)] by auto
  with Cons.IH [OF effect(1)] effect(2) show ?case
    by (auto intro: same_layout_trans)
qed

lemma reserve_frames_effect:
  assumes "pm_wf m"
  shows "pm_wf (fold reserve_area_frame fs m) \<and> same_layout m (fold reserve_area_frame fs m) \<and>
    free_set (fold reserve_area_frame fs m) = free_set m"
  using assms
proof (induction fs arbitrary: m)
  case Nil
  then show ?case by simp
next
  case (Cons f fs)
  have "pm_wf (reserve_area_frame f m)" "same_layout m (reserve_area_frame f m)"
    "free_set (reserve_area_frame f m) = free_set m"
    using Cons.prems by (simp_all add: reserve_area_frame_def)
  with Cons.IH show ?case by (auto intro: same_layout_trans)
qed

lemma parse_memory_map_effect:
  assumes "pm_wf m"
  shows "pm_wf (parse_memory_map areas m) \<and> same_layout m (parse_memory_map areas m) \<and>
    free_set (parse_memory_map areas m) =
      free_set m \<union> {f. usable_frame m f \<and> (\<exists>a\<in>set areas. available a \<and> f \<in> set (area_frames a))}"
  unfolding parse_memory_map_def
  using assms
proof (induction areas arbitrary: m)
  case Nil
  then show ?case by simp
next
  case (Cons a areas)
  have step: "pm_wf (parse_area a m)" "same_layout m (parse_area a m)"
    "free_set (parse_area a m) = free_set m \<union> (if available a then {f \<in> set (area_frames a). usable_frame m f} else {})"
    using release_frames_effect [OF Cons.prems] reserve_frames_effect [OF Cons.prems]
    by (simp_all add: parse_area_def)
  have "free_set (fold parse_area (a # areas) m) =
      free_set m \<union> {f. usable_frame m f \<and> (\<exists>b\<in>set (a # areas). available b \<and> f \<in> set (area_frames b))}"
    using Cons.IH [OF step(1)] step(3) same_layout_usable [OF step(2)] by auto
  with Cons.IH [OF step(1)] step(2) show ?case
    by (auto intro: same_layout_trans)
qed

lemma fresh_phys_mem_total: "total_frames (fresh_phys_mem n) = n"
  by (simp add: fresh_phys_mem_def)

lemma fresh_phys_mem_wf:
  assumes "n \<le> 2 ^ 52"
  shows "pm_wf (fresh_phys_mem n)" "free_set (fresh_phys_mem n) = {}"
proof -
  have shape: "pm_shape (fresh_phys_mem n)"
    using assms by (simp add: pm_shape_def fresh_phys_mem_def)
  have "\<not> is_frame_free (fresh_phys_mem n) f" for f
    using frame_byte_in_bitmap [OF shape, of f] full_byte [of f]
    unfolding is_frame_free_bit [OF shape] by (auto simp: fresh_phys_mem_def)
  then show free: "free_set (fresh_phys_mem n) = {}"
    by (auto simp: free_set_def)
  with shape show "pm_wf (fresh_phys_mem n)"
    by (simp add: pm_wf_def) (simp add: fresh_phys_mem_def)
qed

lemma phys_mem_new_Ok:
  assumes "phys_mem_new (Some areas) = Ok m"
  obtains n where "n = unat (max_end_addr areas) div 4096" "m = parse_memory_map areas (fresh_phys_mem n)"
  using assms
  by (auto simp: phys_mem_new_def Let_def fresh_phys_mem_def unat_div_distrib split: if_splits)

lemma frames_of_address_space: "unat (a :: usize) div 4096 \<le> 2 ^ 52"
  using div_le_mono [of "unat a" "2 ^ 64" 4096] unat_lt_64 [of a] by simp

lemma unat_frame_from_address: "frame_from_address a = unat a div 4096"
  by (simp add: frame_from_address_def unat_div_distrib unat_align_down)

section \<open>Allocation and release of runs\<close>

lemma mark_frames_used_Suc:
  "mark_frames_used s (Suc c) m = mark_frame_used (mark_frames_used s c m) (s + c)"
  by (simp add: mark_frames_used_def)

lemma mark_frames_used_wf: "pm_wf m \<Longrightarrow> pm_wf (mark_frames_used s c m)"
  by (induction c) (simp_all add: mark_frames_used_Suc mark_used_wf, simp add: mark_frames_used_def)

lemma mark_frames_used_layout: "same_layout m (mark_frames_used s c m)"
proof (induction c)
  case 0
  show ?case by (simp add: mark_frames_used_def)
next
  case (Suc c)
  then show ?case
    unfolding mark_frames_used_Suc using same_layout_mark(1) by (rule same_layout_trans)
qed

lemma mark_frames_used_free:
  assumes "pm_wf m"
  shows "free_set (mark_frames_used s c m) = free_set m - {s..<s + c}"
proof (induction c)
  case 0
  show ?case by (simp add: mark_frames_used_def)
next
  case (Suc c)
  have "pm_shape (mark_frames_used s c m)"
    using mark_frames_used_wf [OF assms] by (simp only: pm_wf_def)
  then have "free_set (mark_frames_used s (Suc c) m) = free_set m - {s..<s + c} - {s + c}"
    by (simp only: mark_frames_used_Suc free_set_mark_used Suc)
  moreover have "{s..<s + Suc c} = insert (s + c) {s..<s + c}" by auto
  ultimately show ?case by (simp only: Diff_insert [symmetric])
qed

lemma pm_wf_shape: "pm_wf m \<Longrightarrow> pm_shape m"
  by (simp add: pm_wf_def)

lemma deallocate_frame_wf: "pm_wf m \<Longrightarrow> pm_wf (deallocate_frame m f)"
  by (simp add: deallocate_frame_def mark_free_wf)

lemma deallocate_frame_layout: "same_layout m (deallocate_frame m f)"
  by (simp add: deallocate_frame_def)

lemma deallocate_frame_free:
  assumes "pm_wf m"
  shows "free_set (deallocate_frame m f) = free_set m \<union> ({f} \<inter> {..<total_frames m})"
  using pm_wf_shape [OF assms] by (auto simp: deallocate_frame_def free_set_mark_free)

lemma deallocate_frames_Suc:
  "deallocate_frames m start (Suc c) =
     deallocate_frame (deallocate_frames m start c) ((start + c) mod 2 ^ 64)"
  by (simp add: deallocate_frames_def)

lemma deallocate_frames_wf: "pm_wf m \<Longrightarrow> pm_wf (deallocate_frames m start c)"
  by (induction c) (simp_all only: deallocate_frames_Suc deallocate_frame_wf, simp add: deallocate_frames_def)

lemma deallocate_frames_layout: "same_layout m (deallocate_frames m start c)"
proof (induction c)
  case 0
  show ?case by (simp add: deallocate_frames_def)
next
  case (Suc c)
  then show ?case
    unfolding deallocate_frames_Suc using deallocate_frame_layout by (rule same_layout_trans)
qed

lemma deallocate_frames_free:
  assumes "pm_wf m" "start + count \<le> 2 ^ 64"
  shows "free_set (deallocate_frames m start count) =
      free_set m \<union> ({start..<start + count} \<inter> {..<total_frames m})"
  using assms(2)
proof (induction count)
  case 0
  show ?case by (simp add: deallocate_frames_def)
next
  case (Suc c)
  let ?m = "deallocate_frames m start c"
  have "(start + c) mod 2 ^ 64 = start + c"
    using Suc.prems by (intro mod_less) simp
  moreover have "total_frames ?m = total_frames m"
    using deallocate_frames_layout [of m start c] by (simp add: same_layout_def)
  moreover have "free_set ?m = free_set m \<union> ({start..<start + c} \<inter> {..<total_frames m})"
    using Suc by simp
  ultimately show ?case
    using deallocate_frame_free [OF deallocate_frames_wf [OF assms(1)], of start c "start + c"]
    unfolding deallocate_frames_Suc by auto
qed

lemma allocate_frame_cases:
  assumes "pm_wf m"
  obtains (none) "allocate_frame m = (None, m)" "free_set m = {}"
  | (some) f where "allocate_frame m = (Some f, mark_frame_used m f)" "is_frame_free m f"
      "\<forall>g<f. \<not> is_frame_free m g"
proof (cases "free_set m = {}")
  case True
  with assms none show ?thesis by (simp add: allocate_frame_eq)
next
  case False
  show ?thesis
    by (rule some [of "LEAST f. is_frame_free m f"])
       (use assms False Least_free in \<open>auto simp: allocate_frame_eq dest: not_less_Least\<close>)
qed

lemma run_free_subset: "run_free m s count \<longleftrightarrow> {s..<s + count} \<subseteq> free_set m"
proof
  assume run: "run_free m s count"
  show "{s..<s + count} \<subseteq> free_set m"
  proof
    fix f assume "f \<in> {s..<s + count}"
    then have "f = s + (f - s)" "f - s < count" by auto
    with run show "f \<in> free_set m" unfolding run_free_def by (metis mem_free_set)
  qed
qed (auto simp: run_free_def subset_iff)

lemma run_free_count:
  assumes "pm_wf m" "run_free m s count"
  shows "count \<le> unat (free_frames m)"
proof -
  have "card {s..<s + count} \<le> card (free_set m)"
    using assms(2) by (intro card_mono) (auto simp: run_free_subset)
  with assms(1) show ?thesis by (simp add: pm_wf_def)
qed

lemma allocate_frames_cases:
  assumes "pm_wf m" "0 < count"
  obtains (none) "allocate_frames m count = (None, m)" "\<nexists>s. run_free m s count"
  | (some) s m' where "allocate_frames m count = (Some s, m')" "run_free m s count"
      "\<forall>r < s. \<not> run_free m r count" "free_set m' = free_set m - {s..<s + count}" "pm_wf m'"
proof -
  consider (few) "unat (free_frames m) < count" | (one) "count = 1" "\<not> unat (free_frames m) < count"
    | (many) "count \<noteq> 1" "\<not> unat (free_frames m) < count" by blast
  then show ?thesis
  proof cases
    case few
    then have "\<nexists>s. run_free m s count"
      using run_free_count [OF assms(1)] by (meson leD)
    with few show ?thesis by (intro none) (simp_all add: allocate_frames_def)
  next
    case one
    then have single: "run_free m s count = is_frame_free m s" for s by (simp add: run_free_def)
    have eq: "allocate_frames m count = allocate_frame m"
      using one by (simp add: allocate_frames_def)
    from assms(1) show ?thesis
    proof (cases rule: allocate_frame_cases)
      case none': none
      with eq single show ?thesis by (intro none) auto
    next
      case (some f)
      then have "free_set (mark_frame_used m f) = free_set m - {f..<f + count}"
        using one pm_wf_shape [OF assms(1)] by (auto simp: free_set_mark_used)
      with some eq single mark_used_wf [OF assms(1)] show ?thesis
        by (intro that(2) [of f "mark_frame_used m f"]) auto
    qed
  next
    case many
    show ?thesis
    proof (cases "\<exists>s. run_free m s count")
      case True
      define s where "s = (LEAST s. run_free m s count)"
      have "run_free m s count" using True unfolding s_def by (rule LeastI_ex)
      moreover have "\<forall>r < s. \<not> run_free m r count"
        unfolding s_def by (blast dest: not_less_Least)
      moreover have "allocate_frames m count = (Some s, mark_frames_used s count m)"
        using many assms True by (simp add: allocate_frames_def find_run_Least s_def)
      ultimately show ?thesis
        using mark_frames_used_free [OF assms(1)] mark_frames_used_wf [OF assms(1)]
        by (intro some [of s "mark_frames_used s count m"])
    next
      case False
      with many assms show ?thesis by (intro none) (simp_all add: allocate_frames_def find_run_Least)
    qed
  qed
qed

lemma allocate_frames_layout: "same_layout m (snd (allocate_frames m count))"
  by (simp add: allocate_frames_def allocate_frame_def mark_frames_used_layout split: option.split)

lemma allocate_frames_wf:
  assumes "pm_wf m"
  shows "pm_wf (snd (allocate_frames m count))"
proof (cases "count = 0")
  case True
  with assms show ?thesis by (simp add: allocate_frames_def)
next
  case False
  then have "0 < count" by simp
  with assms show ?thesis by (rule allocate_frames_cases) (use assms in auto)
qed

section \<open>The allocator implements the slot-pool contract\<close>

interpretation frames: slot_pool free_set total_frames pm_wf allocate_frame deallocate_frame
proof
  fix s s' :: phys_mem and x r
  assume wf: "pm_wf s"
  show "free_set s \<subseteq> {..<total_frames s}" by (rule free_set_bounded)
  show "x \<in> free_set s \<and> free_set s' = free_set s - {x}" if "allocate_frame s = (Some x, s')"
    using wf pm_wf_shape [OF wf] that
    by (cases rule: allocate_frame_cases) (auto simp: free_set_mark_used)
  show "free_set s = {} \<and> s' = s" if "allocate_frame s = (None, s')"
    using wf that by (cases rule: allocate_frame_cases) auto
  show "pm_wf s' \<and> total_frames s' = total_frames s" if "allocate_frame s = (r, s')"
    using wf wf that by (cases rule: allocate_frame_cases) (auto simp: mark_used_wf frame_simps)
  assume "x < total_frames s"
  then show "free_set (deallocate_frame s x) = insert x (free_set s)"
    using deallocate_frame_free [OF wf, of x] by auto
  show "pm_wf (deallocate_frame s x) \<and> total_frames (deallocate_frame s x) = total_frames s"
    using deallocate_frame_wf [OF wf] deallocate_frame_layout [of s x] by (simp add: same_layout_def)
qed

section \<open>Reachable states\<close>

lemma phys_mem_new_wf:
  assumes "phys_mem_new (Some areas) = Ok m"
  shows "pm_wf m" "used_frames m + free_frames m = 0" "bitmap_start m = 0x200000"
    "free_set m = {f. usable_frame m f \<and> (\<exists>a\<in>set areas. available a \<and> f \<in> set (area_frames a))}"
proof -
  obtain n where n: "n = unat (max_end_addr areas) div 4096"
    and m: "m = parse_memory_map areas (fresh_phys_mem n)"
    using phys_mem_new_Ok [OF assms] .
  have fresh: "pm_wf (fresh_phys_mem n)" "free_set (fresh_phys_mem n) = {}"
    using frames_of_address_space n by (auto simp: fresh_phys_mem_wf)
  have layout: "same_layout (fresh_phys_mem n) m"
    using parse_memory_map_effect [OF fresh(1)] m by simp
  show "pm_wf m" using parse_memory_map_effect [OF fresh(1)] m by simp
  show "used_frames m + free_frames m = 0" "bitmap_start m = 0x200000"
    using layout by (simp_all add: same_layout_def) (simp_all add: fresh_phys_mem_def)
  show "free_set m = {f. usable_frame m f \<and> (\<exists>a\<in>set areas. available a \<and> f \<in> set (area_frames a))}"
    using parse_memory_map_effect [OF fresh(1), of areas] fresh(2) same_layout_usable [OF layout]
    unfolding m [symmetric] by simp
qed

lemma allocate_frame_layout: "same_layout m (snd (allocate_frame m))"
  by (simp add: allocate_frame_def split: option.split)

lemma pm_reachable_wf:
  "pm_reachable areas m \<Longrightarrow> pm_wf m \<and> used_frames m + free_frames m = 0"
proof (induction rule: pm_reachable.induct)
  case (boot m)
  then show ?case by (simp add: phys_mem_new_wf)
next
  case (allocate_one m)
  then have "pm_wf (snd (allocate_frame m))"
    using frames.alloc_inv [of m "fst (allocate_frame m)" "snd (allocate_frame m)"] by simp
  with allocate_one show ?case using allocate_frame_layout [of m] by (simp add: same_layout_def)
next
  case (allocate_many m count)
  then show ?case
    using allocate_frames_wf [of m count] allocate_frames_layout [of m count] by (simp add: same_layout_def)
next
  case (free_one m f)
  then show ?case
    using deallocate_frame_wf [of m f] deallocate_frame_layout [of m f] by (simp add: same_layout_def)
next
  case (free_many m f count)
  then show ?case
    using deallocate_frames_wf [of m f count] deallocate_frames_layout [of m f count]
    by (simp add: same_layout_def)
qed

lemma max_end_addr_fold:
  "e \<le> fold (\<lambda>a e. if available a then max e (end_address a) else e) areas e"
proof (induction areas arbitrary: e)
  case (Cons a areas)
  show ?case
    using Cons.IH [of "max e (end_address a)"] Cons.IH [of e] by auto
qed simp

lemma max_end_addr_upper:
  assumes "a \<in> set areas" "available a"
  shows "end_address a \<le> max_end_addr areas"
proof -
  obtain xs ys where areas: "areas = xs @ a # ys"
    using assms(1) split_list by metis
  show ?thesis
    unfolding areas max_end_addr_def using assms(2)
    by (simp add: order_trans [OF max.cobounded2 max_end_addr_fold])
qed

lemma phys_mem_new_total:
  assumes "phys_mem_new (Some areas) = Ok m"
  shows "total_frames m = unat (max_end_addr areas) div 4096"
    "length (bitmap m) = (total_frames m + 7) div 8"
proof -
  obtain n where n: "n = unat (max_end_addr areas) div 4096"
    and m: "m = parse_memory_map areas (fresh_phys_mem n)"
    using phys_mem_new_Ok [OF assms] .
  have "pm_wf (fresh_phys_mem n)"
    using frames_of_address_space n by (auto simp: fresh_phys_mem_wf)
  then have "same_layout (fresh_phys_mem n) m"
    using parse_memory_map_effect m by simp
  then show "total_frames m = unat (max_end_addr areas) div 4096"
    by (simp add: same_layout_def fresh_phys_mem_def n)
  show "length (bitmap m) = (total_frames m + 7) div 8"
    using phys_mem_new_wf(1) [OF assms] by (simp add: pm_wf_def pm_shape_def)
qed

lemma load_frame_free:
  assumes "phys_mem_new (Some areas) = Ok m" "a \<in> set areas" "available a"
    "start_address a \<le> 0x100000" "0x101000 \<le> end_address a"
  shows "is_frame_free m 256"
proof -
  note wf = phys_mem_new_wf [OF assms(1)]
  have "0x101000 \<le> unat (max_end_addr areas)"
    using order_trans [OF assms(5) max_end_addr_upper [OF assms(2,3)]] by (simp add: word_le_nat_alt)
  then have "256 < total_frames m"
    using div_le_mono [of "0x101000" "unat (max_end_addr areas)" 4096]
    by (simp add: phys_mem_new_total [OF assms(1)])
  then have "usable_frame m 256"
    using wf(3) by (simp add: usable_frame_def)
  moreover have "unat (end_address a - 1) = unat (end_address a) - 1"
    using assms(5) by (intro unat_dec) auto
  then have "256 \<in> set (area_frames a)"
    using assms(4,5) by (auto simp: area_frames_def unat_frame_from_address word_le_nat_alt)
  ultimately have "256 \<in> free_set m"
    unfolding wf(4) using assms(2,3) by blast
  then show ?thesis by simp
qed

section \<open>Concrete managers\<close>

lemma demo_mem_wf: "pm_wf demo_mem"
  unfolding demo_mem_def
  by (intro mark_free_wf fresh_phys_mem_wf) (simp_all add: frame_simps fresh_phys_mem_total)

lemma demo_map_boots: "\<exists>m. phys_mem_new (Some demo_map) = Ok m"
  by (simp add: phys_mem_new_def demo_map_def Let_def max_end_addr_def PAGE_SIZE_def)

lemma demo_mem_free: "free_set demo_mem = {3, 4}"
proof -
  have "pm_shape (fresh_phys_mem 16)" "free_set (fresh_phys_mem 16) = {}"
    by (simp_all add: fresh_phys_mem_wf pm_wf_shape)
  then show ?thesis
    by (auto simp: demo_mem_def free_set_mark_free frame_simps fresh_phys_mem_total)
qed

lemma Least_demo: "(LEAST f. f = 3 \<or> f = (4::nat)) = 3" "(LEAST f. f = (4::nat)) = 4"
  by (auto intro: Least_equality)

lemma demo_alloc: "allocate_frame demo_mem = (Some 3, mark_frame_used demo_mem 3)"
proof -
  have "is_frame_free demo_mem = (\<lambda>f. f = 3 \<or> f = 4)"
    using demo_mem_free by (auto simp: fun_eq_iff simp flip: mem_free_set)
  then show ?thesis
    using demo_mem_free by (simp add: allocate_frame_eq [OF demo_mem_wf] Least_demo)
qed

lemma demo_alloc_next:
  "allocate_frame (mark_frame_used demo_mem 3) = (Some 4, mark_frame_used (mark_frame_used demo_mem 3) 4)"
proof -
  have free: "free_set (mark_frame_used demo_mem 3) = {4}"
    using demo_mem_free pm_wf_shape [OF demo_mem_wf] by (auto simp: free_set_mark_used)
  then have "is_frame_free (mark_frame_used demo_mem 3) = (\<lambda>f. f = 4)"
    by (auto simp: fun_eq_iff simp flip: mem_free_set)
  then show ?thesis
    using free by (simp add: allocate_frame_eq [OF mark_used_wf [OF demo_mem_wf]] Least_demo)
qed

lemma demo_load_frame:
  assumes "phys_mem_new (Some demo_map) = Ok m"
  shows "is_frame_free m 256"
  by (rule load_frame_free [OF assms, of "demo_map ! 1"]) (simp_all add: demo_map_def)

section \<open>Properties\<close>

text \<open>
  C12: on a well-formed manager, allocating one frame returns the lowest-numbered free
  frame and takes exactly that frame out of the free set, keeping the manager well-formed;
  it fails only when no frame is free, and then changes nothing.
\<close>

theorem allocate_frame_first_free:
  assumes "pm_wf m"
  shows "case allocate_frame m of
      (None, m') \<Rightarrow> free_set m = {} \<and> m' = m
    | (Some f, m') \<Rightarrow> is_frame_free m f \<and> (\<forall>g<f. \<not> is_frame_free m g)
        \<and> free_set m' = free_set m - {f} \<and> pm_wf m'"
  using assms
proof (cases rule: allocate_frame_cases)
  case none
  then show ?thesis by simp
next
  case (some f)
  with assms show ?thesis
    by (simp add: mark_used_wf free_set_mark_used pm_wf_shape)
qed

theorem allocate_frame_first_free_witness:
  "free_set demo_mem = {3, 4} \<and> fst (allocate_frame demo_mem) = Some 3
     \<and> free_set (snd (allocate_frame demo_mem)) = {3, 4} - {3}"
  using allocate_frame_first_free [OF demo_mem_wf] demo_mem_free by (simp add: demo_alloc)

text \<open>
  C14: allocating \<open>count\<close> frames returns the first run of \<open>count\<close> contiguous free
  frames and takes exactly that run out of the free set; it fails only when there is no
  such run, and then changes nothing.
\<close>

theorem allocate_frames_first_fit:
  assumes "pm_wf m" "0 < count"
  shows "case allocate_frames m count of
      (None, m') \<Rightarrow> (\<nexists>s. run_free m s count) \<and> m' = m
    | (Some s, m') \<Rightarrow> run_free m s count \<and> (\<forall>r < s. \<not> run_free m r count)
        \<and> free_set m' = free_set m - {s..<s + count} \<and> pm_wf m'"
  using assms by (cases rule: allocate_frames_cases) simp_all

theorem allocate_frames_first_fit_witness:
  "\<exists>m'. allocate_frames demo_mem 2 = (Some 3, m') \<and> free_set m' = {}"
proof -
  have run: "run_free demo_mem s 2 \<longleftrightarrow> s = 3" for s
    unfolding run_free_subset demo_mem_free
    by (auto simp: numeral_2_eq_2 atLeastLessThanSuc)
  show ?thesis
    using allocate_frames_first_fit [OF demo_mem_wf, of 2]
    by (auto simp: run demo_mem_free split: prod.splits option.splits)
qed

text \<open>
  C15: freeing the run that an allocation returned gives back exactly the free set from
  before the allocation, and the manager stays well-formed.
\<close>

theorem deallocate_undoes_allocate:
  assumes "pm_wf m" "allocate_frames m count = (Some s, m')"
  shows "free_set (deallocate_frames m' s count) = free_set m \<and> pm_wf (deallocate_frames m' s count)"
proof -
  have pos: "0 < count" using assms(2) by (auto simp: allocate_frames_def split: if_splits)
  from assms(1) pos have run: "{s..<s + count} \<subseteq> free_set m"
    and free: "free_set m' = free_set m - {s..<s + count}" and wf: "pm_wf m'"
    by (rule allocate_frames_cases; use assms(2) in \<open>simp add: run_free_subset\<close>)+
  have total: "total_frames m' = total_frames m"
    using assms allocate_frames_layout [of m count] by (simp add: same_layout_def)
  have inside: "{s..<s + count} \<subseteq> {..<total_frames m'}"
    using run free_set_bounded [of m] total by simp
  moreover have "total_frames m \<le> 2 ^ 52"
    using assms(1) by (simp add: pm_wf_def pm_shape_def)
  moreover have "s + (count - 1) \<in> {s..<s + count}"
    using pos by simp
  ultimately have "s + (count - 1) < 2 ^ 52"
    using total by (metis lessThan_iff order_less_le_trans subsetD)
  then have "s + count \<le> 2 ^ 64" by simp
  with deallocate_frames_free [OF wf, of s count] deallocate_frames_wf [OF wf] free run inside
  show ?thesis by auto
qed

theorem deallocate_undoes_allocate_witness:
  "free_set (deallocate_frames (snd (allocate_frames demo_mem 1)) 3 1) = {3, 4}"
proof -
  have "allocate_frames demo_mem 1 = allocate_frame demo_mem"
    using demo_mem_wf by (simp add: allocate_frames_def pm_wf_def demo_mem_free)
  then show ?thesis
    using deallocate_undoes_allocate [OF demo_mem_wf, of 1 3] by (simp add: demo_alloc demo_mem_free)
qed

text \<open>
  C16: frames are in exclusive use. Whatever a client has allocated and not yet freed is
  never handed out again, and together with the free frames it is what was free at the start.
\<close>

theorem frames_exclusive:
  assumes "pm_wf m0" "client allocate_frame deallocate_frame m0 m H"
  shows "H \<inter> free_set m = {} \<and> H \<union> free_set m = free_set m0
    \<and> (\<forall>f m'. allocate_frame m = (Some f, m') \<longrightarrow> f \<notin> H)"
  using frames.client_exclusive [OF assms(2,1)] frames.client_partition [OF assms(2,1)] by blast

theorem frames_exclusive_witness:
  "client allocate_frame deallocate_frame demo_mem (mark_frame_used demo_mem 3) {3} \<and> (4::nat) \<notin> {3}"
proof -
  have "client allocate_frame deallocate_frame demo_mem (mark_frame_used demo_mem 3) {3}"
    by (rule client.take_slot [of allocate_frame _ _ demo_mem]) (rule client.start, rule demo_alloc)
  with frames_exclusive [OF demo_mem_wf this] demo_alloc_next show ?thesis by blast
qed

text \<open>
  C18: the free counter is exact. Of \<open>n\<close> successive allocations exactly as many succeed
  as the counter says, each with another frame.
\<close>

theorem free_counter_exact:
  assumes "pm_wf m" "alloc_many allocate_frame n m = (fs, m')"
  shows "length fs = min n (unat (free_frames m)) \<and> distinct fs \<and> set fs \<subseteq> free_set m
    \<and> free_set m' = free_set m - set fs"
  using frames.alloc_many_drains [OF assms] assms(1) by (simp add: pm_wf_def)

theorem free_counter_exact_witness:
  "fst (alloc_many allocate_frame 2 demo_mem) = [3, 4] \<and> unat (free_frames demo_mem) = 2"
proof -
  have many: "alloc_many allocate_frame 2 demo_mem = ([3, 4], mark_frame_used (mark_frame_used demo_mem 3) 4)"
    by (simp add: numeral_2_eq_2 demo_alloc demo_alloc_next)
  have "unat (free_frames demo_mem) = 2"
    using demo_mem_wf demo_mem_free by (simp add: pm_wf_def)
  with free_counter_exact [OF demo_mem_wf many] many show ?thesis by simp
qed

text \<open>
  C20: after initialisation the free frames are exactly those below the end of memory, at
  or above 1 MB, outside the bitmap, and touched by an available area, whole or in part.
\<close>

theorem phys_mem_new_free_frames:
  assumes "phys_mem_new (Some areas) = Ok m"
  shows "pm_wf m \<and> free_set m =
    {f. f < total_frames m \<and> 0x100000 \<le> f * 4096 \<and>
        \<not> (0x200000 \<le> f * 4096 \<and> f * 4096 < 0x200000 + length (bitmap m)) \<and>
        (\<exists>a\<in>set areas. available a \<and> unat (start_address a) div 4096 \<le> f
           \<and> f \<le> unat (end_address a - 1) div 4096)}"
proof -
  have "f \<in> set (area_frames a) \<longleftrightarrow>
      unat (start_address a) div 4096 \<le> f \<and> f \<le> unat (end_address a - 1) div 4096" for a f
    by (auto simp: area_frames_def unat_frame_from_address)
  with phys_mem_new_wf [OF assms] show ?thesis
    by (simp add: usable_frame_def)
qed

theorem phys_mem_new_free_frames_witness:
  "\<exists>m. phys_mem_new (Some demo_map) = Ok m \<and> free_set m = {256, 257, 258}"
proof -
  obtain m where m: "phys_mem_new (Some demo_map) = Ok m" using demo_map_boots by blast
  have total: "total_frames m = 259" "length (bitmap m) = 33"
    using phys_mem_new_total [OF m] by (simp_all add: demo_map_def max_end_addr_def)
  have "f \<in> free_set m \<longleftrightarrow> f = 256 \<or> f = 257 \<or> f = 258" for f
    unfolding conjunct2 [OF phys_mem_new_free_frames [OF m]] total demo_map_def
    by (simp del: mem_free_set) linarith
  then have "free_set m = {256, 257, 258}" by blast
  with m show ?thesis by blast
qed

text \<open>
  Where the memory map has an available area around 1 MB, the first frame handed out
  after initialisation is the one at address \<^verbatim>\<open>0x100000\<close>, at which the linker script
  loads the kernel.
\<close>

theorem first_frame_is_load_address:
  assumes "phys_mem_new (Some areas) = Ok m" "a \<in> set areas" "available a"
    "start_address a \<le> 0x100000" "0x101000 \<le> end_address a"
  shows "fst (allocate_frame m) = Some 256 \<and> frame_address 256 = 0x100000"
proof -
  note wf = phys_mem_new_wf [OF assms(1)]
  note free = load_frame_free [OF assms]
  have below: "\<not> is_frame_free m g" if "g < 256" for g
  proof
    assume "is_frame_free m g"
    then have "g \<in> free_set m" by simp
    then have "usable_frame m g" unfolding wf(4) by simp
    with that show False by (simp add: usable_frame_def)
  qed
  from wf(1) have "fst (allocate_frame m) = Some 256"
  proof (cases rule: allocate_frame_cases)
    case none
    with free show ?thesis by auto
  next
    case (some f)
    with free below have "f = 256" by (metis linorder_neqE_nat)
    with some show ?thesis by simp
  qed
  then show ?thesis
    by (simp add: frame_address_def PAGE_SIZE_def)
qed

theorem first_frame_is_load_address_witness:
  "\<exists>m. phys_mem_new (Some demo_map) = Ok m \<and> fst (allocate_frame m) = Some 256"
proof -
  obtain m where m: "phys_mem_new (Some demo_map) = Ok m" using demo_map_boots by blast
  have "fst (allocate_frame m) = Some 256 \<and> frame_address 256 = 0x100000"
    by (rule first_frame_is_load_address [OF m, of "demo_map ! 1"]) (simp_all add: demo_map_def)
  with m show ?thesis by blast
qed

text \<open>
  The used counter starts at zero while every bit of the bitmap is set, so releasing
  the available frames at initialisation wraps it around: in every reachable state with a
  free frame the statistics report \<open>2 ^ 64\<close> minus the number of free frames as used.
\<close>

theorem used_counter_wraps:
  assumes "pm_reachable areas m" "free_set m \<noteq> {}"
  shows "unat (used_pages (phys_stats m)) = 2 ^ 64 - card (free_set m)"
proof -
  from pm_reachable_wf [OF assms(1)] have wf: "pm_wf m" and "used_frames m = - free_frames m"
    by (auto simp: add_eq_0_iff2)
  moreover have "free_frames m \<noteq> 0"
    using wf assms(2) by (auto simp: pm_wf_def)
  ultimately show ?thesis
    by (simp add: phys_stats_def pm_wf_def unat_uminus)
qed

theorem used_counter_wraps_witness:
  "\<exists>m. pm_reachable demo_map m \<and> unat (used_pages (phys_stats m)) = 2 ^ 64 - card (free_set m)"
proof -
  obtain m where m: "phys_mem_new (Some demo_map) = Ok m" using demo_map_boots by blast
  then have reach: "pm_reachable demo_map m" by (rule pm_reachable.boot)
  have "free_set m \<noteq> {}" using demo_load_frame [OF m] by auto
  with used_counter_wraps [OF reach this] reach show ?thesis by blast
qed

end
