(* ===== verification/Swap_Space.thy ===== *)
theory Swap_Space
  imports Memory_Base Slot_Pool
begin

text \<open>
  Swap space, from \<^verbatim>\<open>memory/swap.rs\<close> and \<^verbatim>\<open>memory/swap_file.rs\<close>: the slot allocator of
  one device, the two kinds of devices, and the manager that spreads pages over them. The
  allocator implements the slot-pool contract; the manager refines a map from page frames
  to page contents.

  A page buffer is a list of 4096 bytes. Slot numbers, device indices and the lengths of
  vectors are natural numbers; offsets, sizes and counters are machine words. An operation
  that can index a vector out of range returns an option, with \<open>None\<close> for the panic.
\<close>

section \<open>Slots, devices and errors\<close>

type_synonym swap_slot = nat
type_synonym page_data = "u8 list"

definition slot_offset :: "swap_slot \<Rightarrow> usize" where
  "slot_offset slot = of_nat slot * PAGE_SIZE"

datatype swap_device_type = File | Partition

datatype swap_error = DeviceUnavailable | InvalidSlot | IoError | NoSpace | SlotInUse | SlotNotInUse

section \<open>Devices\<close>

record file_swap_device =
  fs_name :: string
  fs_size :: usize
  fs_storage :: "u8 list"
  fs_available :: bool

definition page_aligned_size :: "usize \<Rightarrow> usize" where
  "page_aligned_size n = (n + PAGE_SIZE - 1) AND NOT (PAGE_SIZE - 1)"

definition file_device_new :: "string \<Rightarrow> usize \<Rightarrow> (file_swap_device, swap_error) result" where
  "file_device_new name size_mb =
     (if size_mb = 0 then Err InvalidSlot
      else let size = size_mb * 1024 * 1024;
               aligned_size = page_aligned_size size
           in Ok \<lparr>fs_name = name, fs_size = aligned_size,
                  fs_storage = replicate (unat aligned_size) 0, fs_available = True\<rparr>)"

definition file_device_from_storage :: "string \<Rightarrow> u8 list \<Rightarrow> (file_swap_device, swap_error) result" where
  "file_device_from_storage name storage =
     (if storage = [] then Err InvalidSlot
      else let size = of_nat (length storage) in
        if size mod PAGE_SIZE \<noteq> 0 then Err InvalidSlot
        else Ok \<lparr>fs_name = name, fs_size = size, fs_storage = storage, fs_available = True\<rparr>)"

definition file_set_available :: "file_swap_device \<Rightarrow> bool \<Rightarrow> file_swap_device" where
  "file_set_available d b = d\<lparr>fs_available := b\<rparr>"

definition file_read_page ::
    "file_swap_device \<Rightarrow> swap_slot \<Rightarrow> page_data \<Rightarrow> ((unit, swap_error) result \<times> page_data) option" where
  "file_read_page d slot buffer =
     (if \<not> fs_available d then Some (Err DeviceUnavailable, buffer)
      else let offset = slot_offset slot; finish = offset + PAGE_SIZE in
        if finish > fs_size d then Some (Err InvalidSlot, buffer)
        else if finish < offset \<or> unat finish > length (fs_storage d) then None
        else Some (Ok (), take (unat PAGE_SIZE) (drop (unat offset) (fs_storage d))))"

definition file_write_page ::
    "file_swap_device \<Rightarrow> swap_slot \<Rightarrow> page_data \<Rightarrow> ((unit, swap_error) result \<times> file_swap_device) option" where
  "file_write_page d slot buffer =
     (if \<not> fs_available d then Some (Err DeviceUnavailable, d)
      else let offset = slot_offset slot; finish = offset + PAGE_SIZE in
        if finish > fs_size d then Some (Err InvalidSlot, d)
        else if finish < offset \<or> unat finish > length (fs_storage d) then None
        else Some (Ok (), d\<lparr>fs_storage :=
               take (unat offset) (fs_storage d) @ buffer @ drop (unat finish) (fs_storage d)\<rparr>))"

record partition_swap_device =
  ps_name :: string
  ps_size :: usize
  ps_partition_id :: u32
  ps_available :: bool

definition partition_device_new :: "string \<Rightarrow> u32 \<Rightarrow> usize \<Rightarrow> (partition_swap_device, swap_error) result" where
  "partition_device_new name partition_id size_mb =
     (if size_mb = 0 then Err InvalidSlot
      else let size = size_mb * 1024 * 1024
           in Ok \<lparr>ps_name = name, ps_size = page_aligned_size size,
                  ps_partition_id = partition_id, ps_available = True\<rparr>)"

definition partition_set_available :: "partition_swap_device \<Rightarrow> bool \<Rightarrow> partition_swap_device" where
  "partition_set_available d b = d\<lparr>ps_available := b\<rparr>"

definition partition_read_page :: "partition_swap_device \<Rightarrow> (unit, swap_error) result" where
  "partition_read_page d = (if \<not> ps_available d then Err DeviceUnavailable else Err IoError)"

definition partition_write_page :: "partition_swap_device \<Rightarrow> (unit, swap_error) result" where
  "partition_write_page d = (if \<not> ps_available d then Err DeviceUnavailable else Err IoError)"

text \<open>The trait object: one constructor per implementation of \<^verbatim>\<open>SwapDevice\<close>.\<close>

datatype swap_device = FileDevice file_swap_device | PartitionDevice partition_swap_device

fun device_type :: "swap_device \<Rightarrow> swap_device_type" where
  "device_type (FileDevice _) = File"
| "device_type (PartitionDevice _) = Partition"

fun device_size :: "swap_device \<Rightarrow> usize" where
  "device_size (FileDevice d) = fs_size d"
| "device_size (PartitionDevice d) = ps_size d"

definition slot_count :: "swap_device \<Rightarrow> nat" where
  "slot_count d = unat (device_size d div PAGE_SIZE)"

fun is_available :: "swap_device \<Rightarrow> bool" where
  "is_available (FileDevice d) = fs_available d"
| "is_available (PartitionDevice d) = ps_available d"

fun device_name :: "swap_device \<Rightarrow> string" where
  "device_name (FileDevice d) = fs_name d"
| "device_name (PartitionDevice d) = ps_name d"

fun read_page ::
    "swap_device \<Rightarrow> swap_slot \<Rightarrow> page_data \<Rightarrow> ((unit, swap_error) result \<times> page_data) option" where
  "read_page (FileDevice d) slot buffer = file_read_page d slot buffer"
| "read_page (PartitionDevice d) slot buffer = Some (partition_read_page d, buffer)"

fun write_page ::
    "swap_device \<Rightarrow> swap_slot \<Rightarrow> page_data \<Rightarrow> ((unit, swap_error) result \<times> swap_device) option" where
  "write_page (FileDevice d) slot buffer =
     map_option (map_prod id FileDevice) (file_write_page d slot buffer)"
| "write_page (PartitionDevice d) slot buffer = Some (partition_write_page d, PartitionDevice d)"

section \<open>The slot allocator of one device\<close>

record swap_stats =
  ss_total_slots :: usize
  ss_used_slots :: usize
  ss_free_slots :: usize

definition swap_total_bytes :: "swap_stats \<Rightarrow> usize" where
  "swap_total_bytes s = ss_total_slots s * PAGE_SIZE"

definition swap_used_bytes :: "swap_stats \<Rightarrow> usize" where
  "swap_used_bytes s = ss_used_slots s * PAGE_SIZE"

definition swap_free_bytes :: "swap_stats \<Rightarrow> usize" where
  "swap_free_bytes s = ss_free_slots s * PAGE_SIZE"

definition swap_total_mb :: "swap_stats \<Rightarrow> usize" where
  "swap_total_mb s = swap_total_bytes s div (1024 * 1024)"

definition swap_used_mb :: "swap_stats \<Rightarrow> usize" where
  "swap_used_mb s = swap_used_bytes s div (1024 * 1024)"

definition swap_free_mb :: "swap_stats \<Rightarrow> usize" where
  "swap_free_mb s = swap_free_bytes s div (1024 * 1024)"

record swap_allocator =
  sa_bitmap :: "bool list"
  sa_free_slots :: usize
  sa_total_slots :: nat
  next_free_hint :: nat

definition swap_allocator_new :: "nat \<Rightarrow> swap_allocator" where
  "swap_allocator_new n =
     \<lparr>sa_bitmap = replicate n False, sa_free_slots = of_nat n, sa_total_slots = n, next_free_hint = 0\<rparr>"

definition allocate_slot :: "swap_allocator \<Rightarrow> swap_slot option \<times> swap_allocator" where
  "allocate_slot a =
     (if sa_free_slots a = 0 then (None, a)
      else case find (\<lambda>i. \<not> sa_bitmap a ! ((next_free_hint a + i) mod sa_total_slots a))
                  [0..<sa_total_slots a] of
             Some i \<Rightarrow>
               (let slot_idx = (next_free_hint a + i) mod sa_total_slots a in
                (Some slot_idx,
                 a\<lparr>sa_bitmap := (sa_bitmap a)[slot_idx := True],
                   sa_free_slots := sa_free_slots a - 1,
                   next_free_hint := (slot_idx + 1) mod sa_total_slots a\<rparr>))
           | None \<Rightarrow> (None, a))"

definition deallocate_slot :: "swap_allocator \<Rightarrow> swap_slot \<Rightarrow> (unit, swap_error) result \<times> swap_allocator" where
  "deallocate_slot a slot =
     (if slot \<ge> sa_total_slots a then (Err InvalidSlot, a)
      else if \<not> sa_bitmap a ! slot then (Err SlotNotInUse, a)
      else (Ok (),
        a\<lparr>sa_bitmap := (sa_bitmap a)[slot := False],
          sa_free_slots := sa_free_slots a + 1,
          next_free_hint := (if slot < next_free_hint a then slot else next_free_hint a)\<rparr>))"

definition is_slot_allocated :: "swap_allocator \<Rightarrow> swap_slot \<Rightarrow> bool" where
  "is_slot_allocated a slot \<longleftrightarrow> slot < sa_total_slots a \<and> sa_bitmap a ! slot"

definition swap_allocator_stats :: "swap_allocator \<Rightarrow> swap_stats" where
  "swap_allocator_stats a =
     \<lparr>ss_total_slots = of_nat (sa_total_slots a),
      ss_used_slots = of_nat (sa_total_slots a) - sa_free_slots a,
      ss_free_slots = sa_free_slots a\<rparr>"

section \<open>The manager\<close>

record swap_entry =
  device_index :: nat
  entry_slot :: swap_slot

record swap_manager =
  devices :: "swap_device list"
  allocators :: "swap_allocator list"
  page_to_swap :: "nat \<rightharpoonup> swap_entry"
  swap_to_page :: "nat \<times> swap_slot \<rightharpoonup> nat"
  total_stats :: swap_stats

definition swap_manager_new :: swap_manager where
  "swap_manager_new =
     \<lparr>devices = [], allocators = [], page_to_swap = Map.empty, swap_to_page = Map.empty,
      total_stats = \<lparr>ss_total_slots = 0, ss_used_slots = 0, ss_free_slots = 0\<rparr>\<rparr>"

definition add_device :: "swap_manager \<Rightarrow> swap_device \<Rightarrow> (nat, swap_error) result \<times> swap_manager" where
  "add_device m d =
     (if \<not> is_available d then (Err DeviceUnavailable, m)
      else let n = slot_count d; st = total_stats m in
        (Ok (length (devices m)),
         m\<lparr>devices := devices m @ [d],
           allocators := allocators m @ [swap_allocator_new n],
           total_stats := st\<lparr>ss_total_slots := ss_total_slots st + of_nat n,
                             ss_free_slots := ss_free_slots st + of_nat n\<rparr>\<rparr>))"

text \<open>
  The loop that renumbers the device indices of the reverse mapping. It runs after the
  entries of the removed device are dropped, so no two entries get the same key.
\<close>

definition renumber_devices :: "nat \<Rightarrow> (nat \<times> swap_slot \<rightharpoonup> nat) \<Rightarrow> (nat \<times> swap_slot \<rightharpoonup> nat)" where
  "renumber_devices k s2p = (\<lambda>(d, slot). if d < k then s2p (d, slot) else s2p (d + 1, slot))"

definition remove_device :: "swap_manager \<Rightarrow> nat \<Rightarrow> (unit, swap_error) result \<times> swap_manager" where
  "remove_device m k =
     (if k \<ge> length (devices m) then (Err InvalidSlot, m)
      else let st = swap_allocator_stats (allocators m ! k); tot = total_stats m in
        if ss_used_slots st > 0 then (Err SlotInUse, m)
        else (Ok (),
          m\<lparr>swap_to_page := renumber_devices k (swap_to_page m |` {key. fst key \<noteq> k}),
            total_stats := tot\<lparr>ss_total_slots := ss_total_slots tot - ss_total_slots st,
                               ss_free_slots := ss_free_slots tot - ss_free_slots st\<rparr>,
            devices := vec_remove k (devices m),
            allocators := vec_remove k (allocators m)\<rparr>))"

fun swap_out_devices ::
    "nat \<Rightarrow> page_data \<Rightarrow> nat list \<Rightarrow> swap_manager \<Rightarrow> ((swap_slot, swap_error) result \<times> swap_manager) option" where
  "swap_out_devices frame data [] m = Some (Err NoSpace, m)"
| "swap_out_devices frame data (i # rest) m =
     (case allocate_slot (allocators m ! i) of
        (None, a) \<Rightarrow> swap_out_devices frame data rest (m\<lparr>allocators := (allocators m)[i := a]\<rparr>)
      | (Some slot, a) \<Rightarrow>
          (if i \<ge> length (devices m) then None
           else case write_page (devices m ! i) slot data of
             None \<Rightarrow> None
           | Some (Ok _, d) \<Rightarrow>
               (let st = total_stats m in
                Some (Ok slot,
                  m\<lparr>allocators := (allocators m)[i := a],
                    devices := (devices m)[i := d],
                    page_to_swap := (page_to_swap m)(frame \<mapsto> \<lparr>device_index = i, entry_slot = slot\<rparr>),
                    swap_to_page := (swap_to_page m)((i, slot) \<mapsto> frame),
                    total_stats := st\<lparr>ss_used_slots := ss_used_slots st + 1,
                                      ss_free_slots := ss_free_slots st - 1\<rparr>\<rparr>))
           | Some (Err e, d) \<Rightarrow>
               swap_out_devices frame data rest
                 (m\<lparr>allocators := (allocators m)[i := snd (deallocate_slot a slot)],
                    devices := (devices m)[i := d]\<rparr>)))"

definition swap_out_page ::
    "swap_manager \<Rightarrow> nat \<Rightarrow> page_data \<Rightarrow> ((swap_slot, swap_error) result \<times> swap_manager) option" where
  "swap_out_page m frame data =
     (if page_to_swap m frame \<noteq> None then Some (Err SlotInUse, m)
      else swap_out_devices frame data [0..<length (allocators m)] m)"

definition swap_in_page ::
    "swap_manager \<Rightarrow> nat \<Rightarrow> page_data \<Rightarrow> ((unit, swap_error) result \<times> page_data \<times> swap_manager) option" where
  "swap_in_page m frame buffer =
     (case page_to_swap m frame of
        None \<Rightarrow> Some (Err SlotNotInUse, buffer, m)
      | Some entry \<Rightarrow>
          (let i = device_index entry; slot = entry_slot entry in
           if i \<ge> length (devices m) then None
           else case read_page (devices m ! i) slot buffer of
             None \<Rightarrow> None
           | Some (Err e, buffer') \<Rightarrow> Some (Err e, buffer', m)
           | Some (Ok _, buffer') \<Rightarrow>
               if i \<ge> length (allocators m) then None
               else case deallocate_slot (allocators m ! i) slot of
                 (Err e, a) \<Rightarrow> Some (Err e, buffer', m)
               | (Ok _, a) \<Rightarrow>
                   (let st = total_stats m in
                    Some (Ok (), buffer',
                      m\<lparr>allocators := (allocators m)[i := a],
                        page_to_swap := (page_to_swap m)(frame := None),
                        swap_to_page := (swap_to_page m)((i, slot) := None),
                        total_stats := st\<lparr>ss_used_slots := ss_used_slots st - 1,
                                          ss_free_slots := ss_free_slots st + 1\<rparr>\<rparr>))))"

definition is_page_swapped :: "swap_manager \<Rightarrow> nat \<Rightarrow> bool" where
  "is_page_swapped m frame \<longleftrightarrow> page_to_swap m frame \<noteq> None"

definition device_count :: "swap_manager \<Rightarrow> nat" where
  "device_count m = length (devices m)"

definition device_stats :: "swap_manager \<Rightarrow> nat \<Rightarrow> swap_stats option" where
  "device_stats m i =
     (if i < length (allocators m) then Some (swap_allocator_stats (allocators m ! i)) else None)"

section \<open>The global manager\<close>

definition init_swap_manager :: "(unit, swap_error) result \<times> swap_manager option" where
  "init_swap_manager = (Ok (), Some swap_manager_new)"

definition add_swap_device ::
    "swap_manager option \<Rightarrow> swap_device \<Rightarrow> (nat, swap_error) result \<times> swap_manager option" where
  "add_swap_device g d =
     (case g of None \<Rightarrow> (Err DeviceUnavailable, None) | Some m \<Rightarrow> map_prod id Some (add_device m d))"

definition remove_swap_device ::
    "swap_manager option \<Rightarrow> nat \<Rightarrow> (unit, swap_error) result \<times> swap_manager option" where
  "remove_swap_device g k =
     (case g of None \<Rightarrow> (Err DeviceUnavailable, None) | Some m \<Rightarrow> map_prod id Some (remove_device m k))"

definition global_swap_out_page ::
    "swap_manager option \<Rightarrow> nat \<Rightarrow> page_data \<Rightarrow> ((swap_slot, swap_error) result \<times> swap_manager option) option" where
  "global_swap_out_page g frame data =
     (case g of None \<Rightarrow> Some (Err DeviceUnavailable, None)
      | Some m \<Rightarrow> map_option (map_prod id Some) (swap_out_page m frame data))"

definition global_swap_in_page ::
    "swap_manager option \<Rightarrow> nat \<Rightarrow> page_data \<Rightarrow> ((unit, swap_error) result \<times> page_data \<times> swap_manager option) option" where
  "global_swap_in_page g frame buffer =
     (case g of None \<Rightarrow> Some (Err DeviceUnavailable, buffer, None)
      | Some m \<Rightarrow> map_option (map_prod id (map_prod id Some)) (swap_in_page m frame buffer))"

definition global_is_page_swapped :: "swap_manager option \<Rightarrow> nat \<Rightarrow> bool" where
  "global_is_page_swapped g frame = (case g of None \<Rightarrow> False | Some m \<Rightarrow> is_page_swapped m frame)"

definition global_swap_stats :: "swap_manager option \<Rightarrow> swap_stats option" where
  "global_swap_stats g = map_option total_stats g"

section \<open>Invariants and the abstract view\<close>

text \<open>The free slots of an allocator, and the allocators whose counter matches them.\<close>

definition free_slot_set :: "swap_allocator \<Rightarrow> swap_slot set" where
  "free_slot_set a = {s. s < sa_total_slots a \<and> \<not> sa_bitmap a ! s}"

definition sa_wf :: "swap_allocator \<Rightarrow> bool" where
  "sa_wf a \<longleftrightarrow> length (sa_bitmap a) = sa_total_slots a \<and> sa_total_slots a < 2 ^ 63
     \<and> unat (sa_free_slots a) = card (free_slot_set a)"

text \<open>A device as the constructors make it, in use.\<close>

fun device_wf :: "swap_device \<Rightarrow> bool" where
  "device_wf (FileDevice d) \<longleftrightarrow> fs_available d \<and> unat (fs_size d) = length (fs_storage d)"
| "device_wf (PartitionDevice d) \<longleftrightarrow> ps_available d"

text \<open>The contents of one slot, for the devices that hold data.\<close>

fun slot_contents :: "swap_device \<Rightarrow> swap_slot \<Rightarrow> page_data option" where
  "slot_contents (FileDevice d) s = Some (take 4096 (drop (s * 4096) (fs_storage d)))"
| "slot_contents (PartitionDevice d) s = None"

text \<open>
  The manager's invariant: an allocator for each device, mappings that are inverse to each
  other and cover exactly the allocated slots, and totals that are the sums over the devices.
\<close>

definition devices_ok :: "swap_manager \<Rightarrow> bool" where
  "devices_ok m \<longleftrightarrow> length (devices m) = length (allocators m)
     \<and> (\<forall>i<length (devices m). device_wf (devices m ! i) \<and> sa_wf (allocators m ! i)
          \<and> sa_total_slots (allocators m ! i) = slot_count (devices m ! i))"

definition mappings_ok :: "swap_manager \<Rightarrow> bool" where
  "mappings_ok m \<longleftrightarrow>
     (\<forall>p i s. page_to_swap m p = Some \<lparr>device_index = i, entry_slot = s\<rparr>
        \<longleftrightarrow> swap_to_page m (i, s) = Some p)
     \<and> (\<forall>i s. swap_to_page m (i, s) \<noteq> None \<longleftrightarrow>
          i < length (allocators m) \<and> is_slot_allocated (allocators m ! i) s)
     \<and> (\<forall>i s. swap_to_page m (i, s) \<noteq> None \<longrightarrow> device_type (devices m ! i) = File)"

definition totals_ok :: "swap_manager \<Rightarrow> bool" where
  "totals_ok m \<longleftrightarrow>
     ss_total_slots (total_stats m) = sum_list (map (\<lambda>a. of_nat (sa_total_slots a)) (allocators m))
     \<and> ss_free_slots (total_stats m) = sum_list (map sa_free_slots (allocators m))
     \<and> ss_used_slots (total_stats m) = ss_total_slots (total_stats m) - ss_free_slots (total_stats m)"

definition sm_wf :: "swap_manager \<Rightarrow> bool" where
  "sm_wf m \<longleftrightarrow> devices_ok m \<and> mappings_ok m \<and> totals_ok m"

text \<open>The pages in swap, as a map from frames to contents.\<close>

definition swapped :: "swap_manager \<Rightarrow> nat \<rightharpoonup> page_data" where
  "swapped m = (\<lambda>p. case page_to_swap m p of None \<Rightarrow> None
     | Some e \<Rightarrow> slot_contents (devices m ! device_index e) (entry_slot e))"

text \<open>The distance from the hint to the first free slot, going around.\<close>

definition hint_distance :: "swap_allocator \<Rightarrow> nat" where
  "hint_distance a = (LEAST i. \<not> sa_bitmap a ! ((next_free_hint a + i) mod sa_total_slots a))"

definition take_slot_at :: "swap_allocator \<Rightarrow> swap_slot \<Rightarrow> swap_allocator" where
  "take_slot_at a s = a\<lparr>sa_bitmap := (sa_bitmap a)[s := True],
     sa_free_slots := sa_free_slots a - 1, next_free_hint := (s + 1) mod sa_total_slots a\<rparr>"

text \<open>The state after a page is written to slot \<open>s\<close> of device \<open>i\<close>, and after it is read back.\<close>

definition put_page :: "swap_manager \<Rightarrow> nat \<Rightarrow> swap_slot \<Rightarrow> swap_device \<Rightarrow> nat \<Rightarrow> swap_manager" where
  "put_page m i s d p =
     m\<lparr>allocators := (allocators m)[i := take_slot_at (allocators m ! i) s],
       devices := (devices m)[i := d],
       page_to_swap := (page_to_swap m)(p \<mapsto> \<lparr>device_index = i, entry_slot = s\<rparr>),
       swap_to_page := (swap_to_page m)((i, s) \<mapsto> p),
       total_stats := (total_stats m)\<lparr>ss_used_slots := ss_used_slots (total_stats m) + 1,
                                       ss_free_slots := ss_free_slots (total_stats m) - 1\<rparr>\<rparr>"

definition drop_page :: "swap_manager \<Rightarrow> nat \<Rightarrow> swap_slot \<Rightarrow> nat \<Rightarrow> swap_manager" where
  "drop_page m i s p =
     m\<lparr>allocators := (allocators m)[i := snd (deallocate_slot (allocators m ! i) s)],
       page_to_swap := (page_to_swap m)(p := None),
       swap_to_page := (swap_to_page m)((i, s) := None),
       total_stats := (total_stats m)\<lparr>ss_used_slots := ss_used_slots (total_stats m) - 1,
                                       ss_free_slots := ss_free_slots (total_stats m) + 1\<rparr>\<rparr>"

text \<open>A device that takes another page: only file devices complete a write.\<close>

definition has_room :: "swap_manager \<Rightarrow> nat \<Rightarrow> bool" where
  "has_room m i \<longleftrightarrow> device_type (devices m ! i) = File \<and> free_slot_set (allocators m ! i) \<noteq> {}"

text \<open>What the loop over the devices leaves behind.\<close>

definition swap_out_post ::
    "nat \<Rightarrow> page_data \<Rightarrow> nat list \<Rightarrow> swap_manager \<Rightarrow> (swap_slot, swap_error) result \<Rightarrow> swap_manager \<Rightarrow> bool" where
  "swap_out_post p data is m r m' \<longleftrightarrow> sm_wf m' \<and> map device_type (devices m') = map device_type (devices m)
    \<and> (case r of
         Ok s \<Rightarrow> swapped m' = (swapped m)(p \<mapsto> data) \<and> (\<exists>i\<in>set is. has_room m i)
       | Err e \<Rightarrow> e = NoSpace \<and> swapped m' = swapped m \<and> (\<forall>i\<in>set is. \<not> has_room m i))"

inductive swap_others :: "nat \<Rightarrow> swap_manager \<Rightarrow> swap_manager \<Rightarrow> bool" for p where
  idle: "swap_others p m m"
| device_added: "swap_others p m n \<Longrightarrow> device_wf d \<Longrightarrow> add_device n d = (r, n') \<Longrightarrow> swap_others p m n'"
| other_out: "swap_others p m n \<Longrightarrow> q \<noteq> p \<Longrightarrow> length data = 4096 \<Longrightarrow>
     swap_out_page n q data = Some (r, n') \<Longrightarrow> swap_others p m n'"
| other_in: "swap_others p m n \<Longrightarrow> q \<noteq> p \<Longrightarrow>
     swap_in_page n q buffer = Some (r, buffer', n') \<Longrightarrow> swap_others p m n'"

definition demo_partition :: swap_device where
  "demo_partition = PartitionDevice \<lparr>ps_name = ''sda2'', ps_size = 8192, ps_partition_id = 2, ps_available = True\<rparr>"

definition demo_file :: swap_device where
  "demo_file = FileDevice \<lparr>fs_name = ''swapfile'', fs_size = 8192,
     fs_storage = replicate 8192 0, fs_available = True\<rparr>"

definition demo_swap :: swap_manager where
  "demo_swap = snd (add_device (snd (add_device swap_manager_new demo_partition)) demo_file)"

section \<open>The allocator\<close>

lemma mem_free_slot_set [simp]:
  "s \<in> free_slot_set a \<longleftrightarrow> s < sa_total_slots a \<and> \<not> is_slot_allocated a s"
  by (auto simp: free_slot_set_def is_slot_allocated_def)

lemma finite_free_slot_set [simp]: "finite (free_slot_set a)"
  by (rule finite_subset [of _ "{..<sa_total_slots a}"]) auto

lemma swap_allocator_new_wf:
  assumes "n < 2 ^ 63"
  shows "sa_wf (swap_allocator_new n)"
proof -
  have "free_slot_set (swap_allocator_new n) = {..<n}"
    by (auto simp: free_slot_set_def swap_allocator_new_def)
  moreover have "n mod 2 ^ 64 = n" using assms by simp
  ultimately show ?thesis
    using assms by (simp add: sa_wf_def swap_allocator_new_def unat_of_nat)
qed

lemma allocate_slot_eq:
  assumes wf: "sa_wf a"
  shows "allocate_slot a = (if free_slot_set a = {} then (None, a)
    else let s = (next_free_hint a + hint_distance a) mod sa_total_slots a
         in (Some s, take_slot_at a s))"
    and "free_slot_set a \<noteq> {} \<Longrightarrow>
      (next_free_hint a + hint_distance a) mod sa_total_slots a \<in> free_slot_set a"
proof -
  let ?P = "\<lambda>i. \<not> sa_bitmap a ! ((next_free_hint a + i) mod sa_total_slots a)"
  have empty: "free_slot_set a = {} \<longleftrightarrow> sa_free_slots a = 0"
    using wf unfolding sa_wf_def by (metis card_0_eq finite_free_slot_set unat_eq_zero)
  have ex: "\<exists>i < sa_total_slots a. ?P i" if "free_slot_set a \<noteq> {}"
  proof -
    from that obtain s where "s < sa_total_slots a" "\<not> sa_bitmap a ! s"
      by (auto simp: free_slot_set_def)
    then show ?thesis using cyclic_scan [of s "sa_total_slots a" "next_free_hint a"] by metis
  qed
  then show "allocate_slot a = (if free_slot_set a = {} then (None, a)
    else let s = (next_free_hint a + hint_distance a) mod sa_total_slots a
         in (Some s, take_slot_at a s))"
    by (auto simp: allocate_slot_def empty find_upt_Least Let_def take_slot_at_def hint_distance_def)
  assume ne: "free_slot_set a \<noteq> {}"
  then obtain i where i: "?P i" and "0 < sa_total_slots a" using ex by force
  then have "?P (hint_distance a)" using LeastI [of ?P, OF i] by (simp add: hint_distance_def)
  with \<open>0 < sa_total_slots a\<close> show
    "(next_free_hint a + hint_distance a) mod sa_total_slots a \<in> free_slot_set a"
    by (simp add: free_slot_set_def)
qed

lemma is_slot_allocated_take [simp]:
  assumes "sa_wf a" "s < sa_total_slots a"
  shows "is_slot_allocated (take_slot_at a s) t \<longleftrightarrow> t = s \<or> is_slot_allocated a t"
  using assms by (auto simp: is_slot_allocated_def take_slot_at_def sa_wf_def nth_list_update)

lemma take_slot_total [simp]: "sa_total_slots (take_slot_at a s) = sa_total_slots a"
  by (simp add: take_slot_at_def)

lemma free_take_slot:
  assumes "sa_wf a" "s < sa_total_slots a"
  shows "free_slot_set (take_slot_at a s) = free_slot_set a - {s}"
  using assms by auto

lemma take_slot_wf:
  assumes wf: "sa_wf a" and s: "s \<in> free_slot_set a"
  shows "sa_wf (take_slot_at a s)"
proof -
  have "card (free_slot_set a) \<noteq> 0" using s by auto
  then have "sa_free_slots a \<noteq> 0" using wf by (auto simp: sa_wf_def)
  then show ?thesis
    using wf s free_take_slot [of a s] by (simp add: sa_wf_def take_slot_at_def)
qed

lemma allocate_slot_Some:
  assumes "sa_wf a" "allocate_slot a = (Some s, a')"
  shows "s \<in> free_slot_set a" "a' = take_slot_at a s"
  using assms(2) allocate_slot_eq(2) [OF assms(1)]
  unfolding allocate_slot_eq(1) [OF assms(1)] Let_def
  by (auto split: if_splits simp del: mem_free_slot_set)

lemma allocate_slot_None:
  assumes "sa_wf a" "allocate_slot a = (None, a')"
  shows "free_slot_set a = {}" "a' = a"
  using assms(2) unfolding allocate_slot_eq(1) [OF assms(1)] Let_def
  by (auto split: if_splits simp del: mem_free_slot_set)

lemma deallocate_slot_total [simp]: "sa_total_slots (snd (deallocate_slot a s)) = sa_total_slots a"
  by (simp add: deallocate_slot_def)

lemma deallocate_slot_result:
  "fst (deallocate_slot a s) = (if s \<ge> sa_total_slots a then Err InvalidSlot
     else if is_slot_allocated a s then Ok () else Err SlotNotInUse)"
  by (auto simp: deallocate_slot_def is_slot_allocated_def)

lemma is_slot_allocated_deallocate:
  assumes "sa_wf a"
  shows "is_slot_allocated (snd (deallocate_slot a s)) t \<longleftrightarrow> t \<noteq> s \<and> is_slot_allocated a t"
  using assms by (auto simp: is_slot_allocated_def deallocate_slot_def sa_wf_def nth_list_update)

lemma free_deallocate_slot:
  assumes "sa_wf a" "s < sa_total_slots a"
  shows "free_slot_set (snd (deallocate_slot a s)) = insert s (free_slot_set a)"
  using assms by (auto simp: is_slot_allocated_deallocate)

lemma card_free_slot_le: "card (free_slot_set a) \<le> sa_total_slots a"
  using card_mono [of "{..<sa_total_slots a}" "free_slot_set a"] by (auto simp: free_slot_set_def)

lemma deallocate_slot_free_counter:
  "is_slot_allocated a s \<Longrightarrow> sa_free_slots (snd (deallocate_slot a s)) = sa_free_slots a + 1"
  by (simp add: deallocate_slot_def is_slot_allocated_def)

lemma deallocate_slot_idle: "\<not> is_slot_allocated a s \<Longrightarrow> snd (deallocate_slot a s) = a"
  by (simp add: deallocate_slot_def is_slot_allocated_def)

lemma deallocate_slot_wf:
  assumes wf: "sa_wf a"
  shows "sa_wf (snd (deallocate_slot a s))"
proof (cases "is_slot_allocated a s")
  case True
  then have s: "s < sa_total_slots a" "s \<notin> free_slot_set a" by (auto simp: is_slot_allocated_def)
  let ?a = "snd (deallocate_slot a s)"
  have card: "card (free_slot_set ?a) = Suc (card (free_slot_set a))"
    using s free_deallocate_slot [OF wf s(1)] by simp
  then have "Suc (unat (sa_free_slots a)) < 2 ^ 64"
    using card_free_slot_le [of ?a] wf by (simp add: sa_wf_def)
  then have "unat (sa_free_slots a + 1) = Suc (unat (sa_free_slots a))"
    by (intro unat_inc) simp
  moreover have "length (sa_bitmap ?a) = length (sa_bitmap a)" by (simp add: deallocate_slot_def)
  ultimately show ?thesis
    using wf card deallocate_slot_free_counter [OF True] by (simp add: sa_wf_def)
next
  case False
  with wf show ?thesis by (simp add: deallocate_slot_idle)
qed

interpretation slots: slot_pool free_slot_set sa_total_slots sa_wf allocate_slot
  "\<lambda>a s. snd (deallocate_slot a s)"
proof
  fix s x s' r
  assume wf: "sa_wf s"
  show "free_slot_set s \<subseteq> {..<sa_total_slots s}" by auto
  { assume x: "x < sa_total_slots s"
    show "free_slot_set (snd (deallocate_slot s x)) = insert x (free_slot_set s)"
      by (rule free_deallocate_slot [OF wf x])
    show "sa_wf (snd (deallocate_slot s x)) \<and>
        sa_total_slots (snd (deallocate_slot s x)) = sa_total_slots s"
      using deallocate_slot_wf [OF wf] by simp }
  { assume "allocate_slot s = (None, s')"
    then show "free_slot_set s = {} \<and> s' = s" using allocate_slot_None [OF wf] by blast }
  { assume "allocate_slot s = (Some x, s')"
    note * = allocate_slot_Some [OF wf this]
    then have "x < sa_total_slots s" by simp
    with * show "x \<in> free_slot_set s \<and> free_slot_set s' = free_slot_set s - {x}"
      using free_take_slot [OF wf] by blast }
  { assume alloc: "allocate_slot s = (r, s')"
    show "sa_wf s' \<and> sa_total_slots s' = sa_total_slots s"
    proof (cases r)
      case None
      with alloc wf show ?thesis using allocate_slot_None [OF wf] by blast
    next
      case (Some y)
      with alloc wf show ?thesis using allocate_slot_Some [OF wf] take_slot_wf [OF wf] by auto
    qed }
qed

section \<open>Devices\<close>

lemma slot_extent:
  fixes sz :: usize
  assumes "s < unat sz div 4096"
  shows "unat (slot_offset s) = s * 4096"
    "unat (slot_offset s + PAGE_SIZE) = s * 4096 + 4096"
    "s * 4096 + 4096 \<le> unat sz"
proof -
  show le: "s * 4096 + 4096 \<le> unat sz"
    using assms by (metis add.commute less_eq_div_iff_mult_less_eq mult_Suc Suc_leI zero_less_numeral)
  have "unat sz < 2 ^ 64" by simp
  with le have lt: "s * 4096 + 4096 < 2 ^ 64" by linarith
  have "slot_offset s = of_nat (s * 4096)" by (simp add: slot_offset_def PAGE_SIZE_def)
  then show off: "unat (slot_offset s) = s * 4096"
    using lt by (simp add: unat_of_nat del: of_nat_mult)
  show "unat (slot_offset s + PAGE_SIZE) = s * 4096 + 4096"
    using lt off by (simp add: unat_word_ariths PAGE_SIZE_def)
qed

lemma slot_in_range:
  fixes sz :: usize
  assumes "s < unat sz div 4096"
  shows "\<not> slot_offset s + PAGE_SIZE > sz" "\<not> slot_offset s + PAGE_SIZE < slot_offset s"
  unfolding word_less_nat_alt slot_extent [OF assms] using slot_extent(3) [OF assms] by simp_all

lemma slot_count_file [simp]: "slot_count (FileDevice d) = unat (fs_size d) div 4096"
  by (simp add: slot_count_def unat_div PAGE_SIZE_def)

lemma write_page_partition:
  "device_wf (PartitionDevice d) \<Longrightarrow> write_page (PartitionDevice d) s data = Some (Err IoError, PartitionDevice d)"
  by (simp add: partition_write_page_def)

lemma write_page_file:
  assumes wf: "device_wf (FileDevice d)" and s: "s < slot_count (FileDevice d)"
    and len: "length data = 4096"
  obtains d' where "write_page (FileDevice d) s data = Some (Ok (), FileDevice d')"
    "device_wf (FileDevice d')" "slot_count (FileDevice d') = slot_count (FileDevice d)"
    "\<And>t. slot_contents (FileDevice d') t =
       (if t = s then Some data else slot_contents (FileDevice d) t)"
proof -
  let ?st = "fs_storage d"
  define new where "new = take (s * 4096) ?st @ data @ drop (s * 4096 + 4096) ?st"
  let ?d = "d\<lparr>fs_storage := new\<rparr>"
  note ext = slot_extent [OF s [unfolded slot_count_file]]
  note range = slot_in_range [OF s [unfolded slot_count_file]]
  have le: "s * 4096 + 4096 \<le> length ?st" using ext(3) wf by simp
  have ok: "write_page (FileDevice d) s data = Some (Ok (), FileDevice ?d)"
    using wf le by (simp add: file_write_page_def Let_def ext range new_def)
  have "take 4096 (drop (t * 4096) new) =
      (if t = s then data else take 4096 (drop (t * 4096) ?st))" for t
  proof (cases t s rule: linorder_cases)
    case less
    then have "t * 4096 + 4096 \<le> s * 4096" using mult_le_mono1 [of "Suc t" s 4096] by simp
    moreover from le have "s * 4096 \<le> length ?st" by linarith
    ultimately have "take 4096 (drop (t * 4096) new) = take 4096 (drop (t * 4096) ?st)"
      unfolding new_def by (rule splice_before)
    with less show ?thesis by simp
  next
    case equal
    with le len show ?thesis by (simp add: new_def)
  next
    case greater
    then have "s * 4096 + length data \<le> t * 4096" using len mult_le_mono1 [of "Suc s" t 4096] by simp
    moreover from le have "s * 4096 \<le> length ?st" by linarith
    ultimately have "drop (t * 4096) new = drop (t * 4096) ?st"
      unfolding new_def len [symmetric] by (rule splice_after)
    with greater show ?thesis by simp
  qed
  moreover have "length new = length ?st" using le len by (simp add: new_def)
  ultimately show ?thesis using ok wf
    by (intro that [of ?d]) simp_all
qed

lemma read_page_file:
  assumes "device_wf (FileDevice d)" "s < slot_count (FileDevice d)"
  shows "read_page (FileDevice d) s buf = Some (Ok (), the (slot_contents (FileDevice d) s))"
proof -
  note ext = slot_extent [OF assms(2) [unfolded slot_count_file]]
  note range = slot_in_range [OF assms(2) [unfolded slot_count_file]]
  show ?thesis
    using assms(1) ext(3) by (simp add: file_read_page_def Let_def ext(1,2) range)
qed

lemma slot_count_lt: "slot_count d < 2 ^ 63"
proof -
  have "unat (device_size d) < 2 ^ 63 * 4096" by (rule less_trans [OF unat_lt_64]) simp
  then have "unat (device_size d) div 4096 < 2 ^ 63" by (rule less_mult_imp_div_less)
  then show ?thesis by (simp add: slot_count_def unat_div PAGE_SIZE_def)
qed

section \<open>The manager\<close>

lemma swap_entry_eq: "e = \<lparr>device_index = device_index e, entry_slot = entry_slot e\<rparr>"
  by simp

lemma sm_wfD:
  assumes "sm_wf m"
  shows "length (devices m) = length (allocators m)"
    "i < length (devices m) \<Longrightarrow> device_wf (devices m ! i)"
    "i < length (devices m) \<Longrightarrow> sa_wf (allocators m ! i)"
    "i < length (devices m) \<Longrightarrow> sa_total_slots (allocators m ! i) = slot_count (devices m ! i)"
    "page_to_swap m p = Some \<lparr>device_index = i, entry_slot = s\<rparr> \<longleftrightarrow> swap_to_page m (i, s) = Some p"
    "swap_to_page m (i, s) \<noteq> None \<longleftrightarrow>
       i < length (allocators m) \<and> is_slot_allocated (allocators m ! i) s"
    "swap_to_page m (i, s) \<noteq> None \<Longrightarrow> device_type (devices m ! i) = File"
  using assms unfolding sm_wf_def devices_ok_def mappings_ok_def by blast+

lemma swapped_entry:
  assumes "sm_wf m" "page_to_swap m p = Some e"
  shows "device_index e < length (devices m)" "device_type (devices m ! device_index e) = File"
    "is_slot_allocated (allocators m ! device_index e) (entry_slot e)"
    "entry_slot e < slot_count (devices m ! device_index e)"
    "swap_to_page m (device_index e, entry_slot e) = Some p"
proof -
  show s2p: "swap_to_page m (device_index e, entry_slot e) = Some p"
    using assms sm_wfD(5) [OF assms(1), of p "device_index e" "entry_slot e"] by simp
  show lt: "device_index e < length (devices m)"
    and al: "is_slot_allocated (allocators m ! device_index e) (entry_slot e)"
    using s2p sm_wfD(1,6) [OF assms(1)] by auto
  show "device_type (devices m ! device_index e) = File"
    using s2p sm_wfD(7) [OF assms(1)] by blast
  show "entry_slot e < slot_count (devices m ! device_index e)"
    using al sm_wfD(4) [OF assms(1) lt] by (simp add: is_slot_allocated_def)
qed

lemma file_device: "device_type d = File \<Longrightarrow> \<exists>f. d = FileDevice f"
  by (cases d) auto

lemma partition_device: "device_type d \<noteq> File \<Longrightarrow> \<exists>f. d = PartitionDevice f"
  by (cases d) auto

lemma swap_manager_new_wf: "sm_wf swap_manager_new" "swapped swap_manager_new = Map.empty"
  by (auto simp: sm_wf_def devices_ok_def mappings_ok_def totals_ok_def swap_manager_new_def swapped_def)

lemma add_device_wf:
  assumes wf: "sm_wf m" and d: "device_wf d" and ok: "add_device m d = (r, m')"
  shows "sm_wf m'" "swapped m' = swapped m" "length (devices m) \<le> length (devices m')"
proof -
  have avail: "is_available d" using d by (cases d) auto
  let ?st = "total_stats m"
  define a where "a = swap_allocator_new (slot_count d)"
  have m': "m' = m\<lparr>devices := devices m @ [d], allocators := allocators m @ [a],
      total_stats := ?st\<lparr>ss_total_slots := ss_total_slots ?st + of_nat (slot_count d),
                        ss_free_slots := ss_free_slots ?st + of_nat (slot_count d)\<rparr>\<rparr>"
    using ok avail by (simp add: add_device_def Let_def a_def)
  have a: "sa_wf a" "sa_total_slots a = slot_count d" "sa_free_slots a = of_nat (slot_count d)"
    "\<And>s. \<not> is_slot_allocated a s"
    using swap_allocator_new_wf [OF slot_count_lt]
    by (auto simp: a_def swap_allocator_new_def is_slot_allocated_def)
  have "devices_ok m'"
    using wf d a by (auto simp: m' sm_wf_def devices_ok_def nth_append)
  moreover have "mappings_ok m'"
    using sm_wfD(1,5-7) [OF wf] a(4)
    by (fastforce simp: m' mappings_ok_def nth_append less_Suc_eq)
  moreover have "totals_ok m'"
    using wf a(2,3) by (simp add: m' sm_wf_def totals_ok_def)
  ultimately show "sm_wf m'" by (simp add: sm_wf_def)
  show "swapped m' = swapped m"
    using swapped_entry(1) [OF wf] by (auto simp: m' swapped_def nth_append split: option.splits)
  show "length (devices m) \<le> length (devices m')" by (simp add: m')
qed

text \<open>Exchanging an allocator for one with the same free slots.\<close>

lemma replace_allocator_wf:
  assumes wf: "sm_wf m" and i: "i < length (devices m)" and a: "sa_wf a"
    "sa_total_slots a = sa_total_slots (allocators m ! i)"
    "free_slot_set a = free_slot_set (allocators m ! i)"
  shows "sm_wf (m\<lparr>allocators := (allocators m)[i := a]\<rparr>)"
proof -
  have "is_slot_allocated a s \<longleftrightarrow> is_slot_allocated (allocators m ! i) s" for s
    using a(2,3) by (metis is_slot_allocated_def mem_free_slot_set)
  moreover have "sa_free_slots a = sa_free_slots (allocators m ! i)"
    using a sm_wfD(3) [OF wf i] by (simp add: sa_wf_def word_unat_eq_iff)
  ultimately show ?thesis
    using wf i a(1,2)
    by (auto simp: sm_wf_def devices_ok_def mappings_ok_def totals_ok_def nth_list_update map_update_same)
qed

lemma swapped_allocators [simp]: "swapped (m\<lparr>allocators := as\<rparr>) = swapped m"
  by (simp add: swapped_def cong: option.case_cong)

lemma put_page_wf:
  assumes wf: "sm_wf m" and i: "i < length (devices m)"
    and s: "s \<in> free_slot_set (allocators m ! i)" and p: "page_to_swap m p = None"
    and d: "device_wf d" "slot_count d = slot_count (devices m ! i)" "device_type d = File"
  shows "sm_wf (put_page m i s d p)"
proof -
  let ?m = "put_page m i s d p"
  have len: "i < length (allocators m)" using i sm_wfD(1) [OF wf] by simp
  have a: "sa_wf (allocators m ! i)" and lt: "s < sa_total_slots (allocators m ! i)"
    using sm_wfD(3) [OF wf i] s by auto
  have unused: "swap_to_page m (i, s) = None"
    using s sm_wfD(6) [OF wf, of i s] by auto
  have "devices_ok ?m"
    using wf i len d take_slot_wf [OF a s]
    by (auto simp: put_page_def sm_wf_def devices_ok_def nth_list_update)
  moreover have "mappings_ok ?m"
    unfolding mappings_ok_def
  proof (intro conjI allI impI)
    fix q j t
    show "page_to_swap ?m q = Some \<lparr>device_index = j, entry_slot = t\<rparr> \<longleftrightarrow> swap_to_page ?m (j, t) = Some q"
      using sm_wfD(5) [OF wf, of q j t] sm_wfD(5) [OF wf, of p j t] p unused by (auto simp: put_page_def)
    show used: "swap_to_page ?m (j, t) \<noteq> None \<longleftrightarrow>
        j < length (allocators ?m) \<and> is_slot_allocated (allocators ?m ! j) t"
      using sm_wfD(6) [OF wf, of j t] len is_slot_allocated_take [OF a lt]
      by (auto simp: put_page_def nth_list_update)
    assume "swap_to_page ?m (j, t) \<noteq> None"
    then show "device_type (devices ?m ! j) = File"
      using sm_wfD(7) [OF wf, of j t] i d by (auto simp: put_page_def nth_list_update split: if_splits)
  qed
  moreover have "totals_ok ?m"
    using wf len
    by (simp add: put_page_def sm_wf_def totals_ok_def sum_list_map_update map_update_same)
      (simp add: take_slot_at_def)
  ultimately show ?thesis by (simp add: sm_wf_def)
qed

lemma put_page_swapped:
  assumes wf: "sm_wf m" and i: "i < length (devices m)"
    and s: "s \<in> free_slot_set (allocators m ! i)" and old: "device_type (devices m ! i) = File"
    and contents: "\<And>t. slot_contents d t = (if t = s then Some data else slot_contents (devices m ! i) t)"
  shows "swapped (put_page m i s d p) = (swapped m)(p \<mapsto> data)"
proof
  fix q
  have "\<not> (device_index e = i \<and> entry_slot e = s)" if "page_to_swap m q = Some e" for e
    using swapped_entry(3) [OF wf that] s by auto
  then show "swapped (put_page m i s d p) q = ((swapped m)(p \<mapsto> data)) q"
    using i contents by (auto simp: put_page_def swapped_def nth_list_update split: option.splits)
qed

lemma drop_page_wf:
  assumes wf: "sm_wf m" and p: "page_to_swap m p = Some \<lparr>device_index = i, entry_slot = s\<rparr>"
  shows "sm_wf (drop_page m i s p)" "swapped (drop_page m i s p) = (swapped m)(p := None)"
proof -
  let ?m = "drop_page m i s p"
  note entry = swapped_entry [OF wf p, simplified]
  have len: "i < length (allocators m)" using entry(1) sm_wfD(1) [OF wf] by simp
  note a = sm_wfD(3) [OF wf entry(1)]
  have "devices_ok ?m"
    using wf len deallocate_slot_wf [OF a]
    by (auto simp: drop_page_def sm_wf_def devices_ok_def nth_list_update)
  moreover have "mappings_ok ?m"
    unfolding mappings_ok_def
  proof (intro conjI allI impI)
    fix q j t
    show "page_to_swap ?m q = Some \<lparr>device_index = j, entry_slot = t\<rparr> \<longleftrightarrow> swap_to_page ?m (j, t) = Some q"
      using sm_wfD(5) [OF wf, of q j t] sm_wfD(5) [OF wf, of p j t] p by (auto simp: drop_page_def)
    show used: "swap_to_page ?m (j, t) \<noteq> None \<longleftrightarrow>
        j < length (allocators ?m) \<and> is_slot_allocated (allocators ?m ! j) t"
      using sm_wfD(6) [OF wf, of j t] len is_slot_allocated_deallocate [OF a]
      by (auto simp: drop_page_def nth_list_update)
    assume "swap_to_page ?m (j, t) \<noteq> None"
    then show "device_type (devices ?m ! j) = File"
      using sm_wfD(7) [OF wf, of j t] by (auto simp: drop_page_def split: if_splits)
  qed
  moreover have "totals_ok ?m"
    using wf len entry(3)
    by (simp add: drop_page_def sm_wf_def totals_ok_def sum_list_map_update map_update_same
          deallocate_slot_free_counter)
  ultimately show "sm_wf ?m" by (simp add: sm_wf_def)
  show "swapped ?m = (swapped m)(p := None)"
    by (rule ext) (auto simp: drop_page_def swapped_def split: option.splits)
qed

lemma swap_out_devices_correct:
  assumes "sm_wf m" "page_to_swap m p = None" "length data = 4096"
    "set is \<subseteq> {..<length (devices m)}"
  shows "\<exists>r m'. swap_out_devices p data is m = Some (r, m') \<and> swap_out_post p data is m r m'"
  using assms
proof (induction "is" arbitrary: m)
  case Nil
  then show ?case by (simp add: swap_out_post_def)
next
  case (Cons i rest)
  note wf = Cons.prems(1)
  have i: "i < length (devices m)" using Cons.prems(4) by simp
  note a = sm_wfD(3) [OF wf i] and dwf = sm_wfD(2) [OF wf i]
  show ?case
  proof (cases "fst (allocate_slot (allocators m ! i))")
    case None
    then have alloc: "allocate_slot (allocators m ! i) = (None, allocators m ! i)"
      and empty: "free_slot_set (allocators m ! i) = {}"
      using allocate_slot_None [OF a] by (metis prod.collapse)+
    have step: "swap_out_devices p data (i # rest) m = swap_out_devices p data rest m"
      by (simp add: alloc)
    have "set rest \<subseteq> {..<length (devices m)}" using Cons.prems(4) by simp
    from Cons.IH [OF wf Cons.prems(2,3) this] obtain r m' where
      IH: "swap_out_devices p data rest m = Some (r, m')" "swap_out_post p data rest m r m'" by blast
    have "swap_out_post p data (i # rest) m r m'" using IH(2) empty by (cases r) (simp_all add: swap_out_post_def has_room_def)
    with step IH(1) show ?thesis by metis
  next
    case (Some s)
    define b where "b = take_slot_at (allocators m ! i) s"
    have alloc: "allocate_slot (allocators m ! i) = (Some s, b)"
      and s: "s \<in> free_slot_set (allocators m ! i)"
      using Some allocate_slot_Some [OF a] unfolding b_def by (metis prod.collapse)+
    then have slot: "s < slot_count (devices m ! i)" using sm_wfD(4) [OF wf i] by simp
    show ?thesis
    proof (cases "device_type (devices m ! i) = File")
      case True
      then obtain f where f: "devices m ! i = FileDevice f" using file_device by blast
      obtain f' where w: "write_page (FileDevice f) s data = Some (Ok (), FileDevice f')"
        "device_wf (FileDevice f')" "slot_count (FileDevice f') = slot_count (FileDevice f)"
        "\<And>t. slot_contents (FileDevice f') t = (if t = s then Some data else slot_contents (FileDevice f) t)"
        using write_page_file [OF dwf [unfolded f] slot [unfolded f] Cons.prems(3)] by blast
      have "swap_out_devices p data (i # rest) m = Some (Ok s, put_page m i s (FileDevice f') p)"
        using i w(1) f by (simp add: alloc put_page_def b_def Let_def)
      moreover have "sm_wf (put_page m i s (FileDevice f') p)"
        using put_page_wf [OF wf i s Cons.prems(2) w(2)] w(3) f by simp
      moreover have "swapped (put_page m i s (FileDevice f') p) = (swapped m)(p \<mapsto> data)"
        by (rule put_page_swapped [OF wf i s True]) (use w(4) f in simp)
      moreover have "map device_type (devices (put_page m i s (FileDevice f') p)) = map device_type (devices m)"
        by (simp add: put_page_def map_update_same f)
      moreover have "has_room m i" using True s by (auto simp: has_room_def)
      ultimately show ?thesis by (simp add: swap_out_post_def)
    next
      case False
      then obtain f where f: "devices m ! i = PartitionDevice f" using partition_device by blast
      define c where "c = snd (deallocate_slot b s)"
      define n where "n = m\<lparr>allocators := (allocators m)[i := c]\<rparr>"
      have "(devices m)[i := PartitionDevice f] = devices m" using f by (metis list_update_id)
      then have step: "swap_out_devices p data (i # rest) m = swap_out_devices p data rest n"
        using i write_page_partition [OF dwf [unfolded f]] f by (simp add: alloc n_def c_def)
      have c: "free_slot_set c = free_slot_set (allocators m ! i)" "sa_wf c"
        "sa_total_slots c = sa_total_slots (allocators m ! i)"
        using slots.release_alloc_restores [OF a alloc] slots.alloc_inv [OF a alloc]
          deallocate_slot_wf [of b s] by (simp_all add: c_def)
      then have nwf: "sm_wf n" using replace_allocator_wf [OF wf i] by (simp add: n_def)
      have free: "free_slot_set (allocators n ! j) = free_slot_set (allocators m ! j)" for j
        using c(1) i sm_wfD(1) [OF wf] by (simp add: n_def nth_list_update)
      have "devices n = devices m" "page_to_swap n = page_to_swap m" "swapped n = swapped m"
        by (simp_all add: n_def)
      note n = this
      have "page_to_swap n p = None" "set rest \<subseteq> {..<length (devices n)}"
        using n Cons.prems(2,4) by simp_all
      from Cons.IH [OF nwf this(1) Cons.prems(3) this(2)] obtain r m' where
        IH: "swap_out_devices p data rest n = Some (r, m')" "swap_out_post p data rest n r m'" by blast
      have "swap_out_post p data (i # rest) m r m'" using IH(2) False by (cases r) (simp_all add: swap_out_post_def has_room_def n free)
      with step IH(1) show ?thesis by metis
    qed
  qed
qed

lemma swapped_dom:
  assumes "sm_wf m"
  shows "swapped m p = None \<longleftrightarrow> page_to_swap m p = None"
proof (cases "page_to_swap m p")
  case (Some e)
  then obtain f where "devices m ! device_index e = FileDevice f"
    using swapped_entry(2) [OF assms Some] file_device by blast
  with Some show ?thesis by (simp add: swapped_def)
qed (simp add: swapped_def)

lemma swap_out_page_correct:
  assumes wf: "sm_wf m" and len: "length data = 4096"
  shows "swapped m p \<noteq> None \<Longrightarrow> swap_out_page m p data = Some (Err SlotInUse, m)"
    "swapped m p = None \<Longrightarrow> \<exists>i<length (devices m). has_room m i \<Longrightarrow>
       \<exists>s m'. swap_out_page m p data = Some (Ok s, m') \<and> sm_wf m' \<and> swapped m' = (swapped m)(p \<mapsto> data)"
    "swapped m p = None \<Longrightarrow> \<nexists>i. i < length (devices m) \<and> has_room m i \<Longrightarrow>
       \<exists>m'. swap_out_page m p data = Some (Err NoSpace, m') \<and> sm_wf m' \<and> swapped m' = swapped m"
proof -
  show "swapped m p \<noteq> None \<Longrightarrow> swap_out_page m p data = Some (Err SlotInUse, m)"
    using swapped_dom [OF wf] by (simp add: swap_out_page_def)
  assume "swapped m p = None"
  then have p: "page_to_swap m p = None" using swapped_dom [OF wf] by simp
  have "set [0..<length (allocators m)] \<subseteq> {..<length (devices m)}"
    using sm_wfD(1) [OF wf] by auto
  from swap_out_devices_correct [OF wf p len this] obtain r m' where
    out: "swap_out_page m p data = Some (r, m')"
    and post: "swap_out_post p data [0..<length (devices m)] m r m'"
    using sm_wfD(1) [OF wf] p by (auto simp: swap_out_page_def)
  { assume "\<exists>i<length (devices m). has_room m i"
    with out post show "\<exists>s m'. swap_out_page m p data = Some (Ok s, m') \<and> sm_wf m'
        \<and> swapped m' = (swapped m)(p \<mapsto> data)"
      by (cases r) (auto simp: swap_out_post_def) }
  { assume "\<nexists>i. i < length (devices m) \<and> has_room m i"
    with out post show "\<exists>m'. swap_out_page m p data = Some (Err NoSpace, m') \<and> sm_wf m'
        \<and> swapped m' = swapped m"
      by (cases r) (auto simp: swap_out_post_def) }
qed

lemma swap_out_page_types:
  assumes "sm_wf m" "length data = 4096" "swap_out_page m p data = Some (r, m')"
  shows "map device_type (devices m') = map device_type (devices m)"
proof (cases "page_to_swap m p")
  case None
  have "set [0..<length (allocators m)] \<subseteq> {..<length (devices m)}"
    using sm_wfD(1) [OF assms(1)] by auto
  from swap_out_devices_correct [OF assms(1) None assms(2) this] assms(3) None show ?thesis
    by (auto simp: swap_out_page_def swap_out_post_def)
next
  case (Some e)
  with assms(3) show ?thesis by (simp add: swap_out_page_def)
qed

lemma swap_in_page_correct:
  assumes wf: "sm_wf m"
  shows "swapped m p = None \<Longrightarrow> swap_in_page m p buf = Some (Err SlotNotInUse, buf, m)"
    "swapped m p = Some data \<Longrightarrow> \<exists>m'. swap_in_page m p buf = Some (Ok (), data, m') \<and> sm_wf m'
       \<and> swapped m' = (swapped m)(p := None)"
proof -
  show "swapped m p = None \<Longrightarrow> swap_in_page m p buf = Some (Err SlotNotInUse, buf, m)"
    using swapped_dom [OF wf] by (simp add: swap_in_page_def)
  assume data: "swapped m p = Some data"
  then obtain i s where e: "page_to_swap m p = Some \<lparr>device_index = i, entry_slot = s\<rparr>"
    using swapped_dom [OF wf] by (metis not_Some_eq swap_entry_eq)
  note entry = swapped_entry [OF wf e, simplified]
  obtain f where f: "devices m ! i = FileDevice f" using file_device [OF entry(2)] by blast
  have "read_page (devices m ! i) s buf = Some (Ok (), data)"
    using read_page_file [of f s buf] sm_wfD(2) [OF wf entry(1)] entry(4) data e
    by (simp add: f swapped_def)
  moreover obtain a where "deallocate_slot (allocators m ! i) s = (Ok (), a)"
    using entry(3) by (simp add: deallocate_slot_def is_slot_allocated_def)
  ultimately have "swap_in_page m p buf = Some (Ok (), data, drop_page m i s p)"
    using e entry(1) sm_wfD(1) [OF wf]
    by (simp add: swap_in_page_def drop_page_def Let_def)
  with drop_page_wf [OF wf e] show "\<exists>m'. swap_in_page m p buf = Some (Ok (), data, m') \<and> sm_wf m'
      \<and> swapped m' = (swapped m)(p := None)" by blast
qed

lemma unused_device:
  assumes wf: "sm_wf m" and k: "k < length (devices m)"
  shows "ss_used_slots (swap_allocator_stats (allocators m ! k)) = 0 \<longleftrightarrow>
    (\<forall>s. swap_to_page m (k, s) = None)"
proof -
  let ?a = "allocators m ! k"
  have a: "unat (sa_free_slots ?a) = card (free_slot_set ?a)" "sa_total_slots ?a < 2 ^ 64"
    using sm_wfD(3) [OF wf k] by (auto simp: sa_wf_def)
  then have total: "unat (of_nat (sa_total_slots ?a) :: usize) = sa_total_slots ?a"
    by (simp add: unat_of_nat)
  have "ss_used_slots (swap_allocator_stats ?a) = 0 \<longleftrightarrow> sa_free_slots ?a = of_nat (sa_total_slots ?a)"
    by (auto simp: swap_allocator_stats_def)
  also have "\<dots> \<longleftrightarrow> card (free_slot_set ?a) = card {..<sa_total_slots ?a}"
    unfolding word_unat_eq_iff total a(1) by simp
  also have "\<dots> \<longleftrightarrow> free_slot_set ?a = {..<sa_total_slots ?a}"
    using card_subset_eq [OF finite_lessThan slots.free_bounded [OF sm_wfD(3) [OF wf k]]] by metis
  also have "\<dots> \<longleftrightarrow> (\<forall>s. \<not> is_slot_allocated ?a s)"
    by (auto simp: set_eq_iff is_slot_allocated_def)
  also have "\<dots> \<longleftrightarrow> (\<forall>s. swap_to_page m (k, s) = None)"
    using sm_wfD(1,6) [OF wf] k by metis
  finally show ?thesis .
qed

lemma remove_device_result:
  assumes "sm_wf m" "k < length (devices m)"
  shows "fst (remove_device m k) = Ok () \<longleftrightarrow> (\<forall>s. swap_to_page m (k, s) = None)"
  using assms unused_device [OF assms] by (simp add: remove_device_def Let_def word_gt_0)

text \<open>The state a successful removal leaves.\<close>

lemma remove_device_Ok:
  assumes "remove_device m k = (Ok (), m')"
  shows "k < length (devices m)" "devices m' = vec_remove k (devices m)"
    "allocators m' = vec_remove k (allocators m)" "page_to_swap m' = page_to_swap m"
    "swap_to_page m' = renumber_devices k (swap_to_page m |` {key. fst key \<noteq> k})"
    "ss_used_slots (total_stats m') = ss_used_slots (total_stats m)"
    "ss_total_slots (total_stats m') = ss_total_slots (total_stats m) - of_nat (sa_total_slots (allocators m ! k))"
    "ss_free_slots (total_stats m') = ss_free_slots (total_stats m) - sa_free_slots (allocators m ! k)"
  using assms by (auto simp: remove_device_def Let_def swap_allocator_stats_def split: if_splits)

lemma remove_last_used_wf:
  assumes wf: "sm_wf m" and ok: "remove_device m k = (Ok (), m')"
    and below: "\<And>p e. page_to_swap m p = Some e \<Longrightarrow> device_index e < k"
  shows "sm_wf m'" "swapped m' = swapped m"
proof -
  note rm = remove_device_Ok [OF ok]
  have k: "k < length (allocators m)" using rm(1) sm_wfD(1) [OF wf] by simp
  have only: "i < k" if "swap_to_page m (i, s) \<noteq> None" for i s
    using that below sm_wfD(5) [OF wf, of _ i s] by fastforce
  then have gone: "swap_to_page m (i, s) = None" if "k \<le> i" for i s
    using that by (meson not_less)
  have s2p: "swap_to_page m' = swap_to_page m"
    by (rule ext) (auto simp: rm(5) renumber_devices_def restrict_map_def gone)
  have unused: "ss_used_slots (swap_allocator_stats (allocators m ! k)) = 0"
    using only unused_device [OF wf rm(1)] by blast
  have "devices_ok m'"
    using wf k by (auto simp: sm_wf_def devices_ok_def rm(2,3) nth_vec_remove)
  moreover have "mappings_ok m'"
    unfolding mappings_ok_def s2p rm(4)
  proof (intro conjI allI impI)
    fix p i s
    show "page_to_swap m p = Some \<lparr>device_index = i, entry_slot = s\<rparr> \<longleftrightarrow> swap_to_page m (i, s) = Some p"
      by (rule sm_wfD(5) [OF wf])
    show "swap_to_page m (i, s) \<noteq> None \<longleftrightarrow> i < length (allocators m') \<and> is_slot_allocated (allocators m' ! i) s"
    proof (cases "i < k")
      case True
      with k show ?thesis using sm_wfD(6) [OF wf, of i s] by (auto simp: rm(3) nth_vec_remove)
    next
      case False
      then have "\<not> is_slot_allocated (allocators m ! Suc i) s" if "Suc i < length (allocators m)"
        using only [of "Suc i" s] sm_wfD(6) [OF wf, of "Suc i" s] that by auto
      with False k show ?thesis using only [of i s] by (auto simp: rm(3) nth_vec_remove)
    qed
    assume "swap_to_page m (i, s) \<noteq> None"
    then show "device_type (devices m' ! i) = File"
      using only [of i s] sm_wfD(7) [OF wf] rm(1) by (simp add: rm(2) nth_vec_remove)
  qed
  moreover have "totals_ok m'"
    using wf unused
    by (simp add: sm_wf_def totals_ok_def rm(3,6-8) sum_list_vec_remove [OF k] swap_allocator_stats_def)
  ultimately show "sm_wf m'" by (simp add: sm_wf_def)
  have same: "devices m' ! device_index e = devices m ! device_index e" if "page_to_swap m p = Some e" for p e
    using below [OF that] rm(1) by (simp add: rm(2) nth_vec_remove)
  show "swapped m' = swapped m"
    by (rule ext) (auto simp: swapped_def rm(4) same split: option.splits)
qed

lemma swap_out_page_others:
  assumes "sm_wf n" "length data = 4096" "swap_out_page n q data = Some (r, n')"
  shows "sm_wf n' \<and> (\<forall>p. p \<noteq> q \<longrightarrow> swapped n' p = swapped n p)"
proof -
  note out = swap_out_page_correct [OF assms(1,2), of q]
  consider "swapped n q \<noteq> None" | "swapped n q = None" "\<exists>i<length (devices n). has_room n i"
    | "swapped n q = None" "\<nexists>i. i < length (devices n) \<and> has_room n i" by blast
  then show ?thesis
  proof cases
    case 1
    with out(1) assms show ?thesis by simp
  next
    case 2
    from out(2) [OF this] assms(3) show ?thesis by auto
  next
    case 3
    from out(3) [OF this] assms(3) show ?thesis by auto
  qed
qed

lemma swap_out_page_Ok:
  assumes "sm_wf n" "length data = 4096" "swap_out_page n q data = Some (Ok s, n')"
  shows "sm_wf n'" "swapped n' = (swapped n)(q \<mapsto> data)"
proof -
  note out = swap_out_page_correct [OF assms(1,2), of q]
  have none: "swapped n q = None"
    using out(1) assms(3) by fastforce
  moreover have "\<exists>i<length (devices n). has_room n i"
    using out(3) [OF none] assms(3) by fastforce
  ultimately show "sm_wf n'" "swapped n' = (swapped n)(q \<mapsto> data)"
    using out(2) assms(3) by auto
qed

lemma swap_in_page_others:
  assumes "sm_wf n" "swap_in_page n q buffer = Some (r, buffer', n')"
  shows "sm_wf n' \<and> (\<forall>p. p \<noteq> q \<longrightarrow> swapped n' p = swapped n p)"
proof (cases "swapped n q")
  case None
  with swap_in_page_correct(1) [OF assms(1) None, of buffer] assms show ?thesis by simp
next
  case (Some data)
  from swap_in_page_correct(2) [OF assms(1) Some, of buffer] assms(2) show ?thesis by auto
qed

lemma swap_others_keep:
  assumes "swap_others p m n" "sm_wf m"
  shows "sm_wf n \<and> swapped n p = swapped m p"
  using assms
proof induction
  case (device_added m n d r n')
  then show ?case using add_device_wf [of n d r n'] by simp
next
  case (other_out m n q data r n')
  then show ?case
    using swap_out_page_others [of n data q r n'] by simp
next
  case (other_in m n q buffer r buffer' n')
  then show ?case
    using swap_in_page_others [of n q buffer r buffer' n'] by simp
qed simp

lemma demo_swap_wf: "sm_wf demo_swap" "swapped demo_swap = Map.empty"
  and demo_swap_devices: "devices demo_swap = [demo_partition, demo_file]"
proof -
  have p: "device_wf demo_partition" "device_wf demo_file"
    by (simp_all add: demo_partition_def demo_file_def)
  obtain r1 m1 where m1: "add_device swap_manager_new demo_partition = (r1, m1)" by fastforce
  obtain r2 m2 where m2: "add_device m1 demo_file = (r2, m2)" by fastforce
  note w1 = add_device_wf [OF swap_manager_new_wf(1) p(1) m1]
  note w2 = add_device_wf [OF w1(1) p(2) m2]
  show "sm_wf demo_swap" "swapped demo_swap = Map.empty"
    using w1 w2 swap_manager_new_wf(2) by (simp_all add: demo_swap_def m1 m2)
  show "devices demo_swap = [demo_partition, demo_file]"
    by (simp add: demo_swap_def add_device_def Let_def swap_manager_new_def demo_partition_def demo_file_def)
qed

lemma demo_swap_room: "has_room demo_swap 1"
proof -
  have "free_slot_set (allocators demo_swap ! 1) = {0, 1}"
    by (auto simp: demo_swap_def add_device_def Let_def swap_manager_new_def demo_partition_def
        demo_file_def swap_allocator_new_def slot_count_def PAGE_SIZE_def is_slot_allocated_def)
  then show ?thesis by (simp add: has_room_def demo_swap_devices demo_file_def)
qed

lemma demo_swap_out:
  assumes "length data = 4096"
  shows "\<exists>s m. swap_out_page demo_swap 7 data = Some (Ok s, m) \<and> sm_wf m \<and> swapped m = [7 \<mapsto> data]"
  using swap_out_page_correct(2) [OF demo_swap_wf(1) assms, of 7] demo_swap_room demo_swap_wf(2)
  by (auto simp: demo_swap_devices)

text \<open>
  C31: the allocator of a device is next-fit. On a well-formed allocator an allocation fails
  exactly when no slot is free, and otherwise takes the free slot nearest to the hint, going
  around at the end of the device; only that slot stops being free.
\<close>

theorem allocate_slot_next_fit:
  assumes "sa_wf a"
  shows "case allocate_slot a of
      (None, a') \<Rightarrow> free_slot_set a = {} \<and> a' = a
    | (Some s, a') \<Rightarrow> sa_wf a' \<and> free_slot_set a' = free_slot_set a - {s} \<and>
        (\<exists>d < sa_total_slots a. s = (next_free_hint a + d) mod sa_total_slots a \<and> s \<in> free_slot_set a \<and>
          (\<forall>e<d. (next_free_hint a + e) mod sa_total_slots a \<notin> free_slot_set a))"
proof (cases "free_slot_set a = {}")
  case True
  then show ?thesis using allocate_slot_eq(1) [OF assms] by simp
next
  case False
  define s where "s = (next_free_hint a + hint_distance a) mod sa_total_slots a"
  have alloc: "allocate_slot a = (Some s, take_slot_at a s)" and s: "s \<in> free_slot_set a"
    using allocate_slot_eq [OF assms] False by (simp_all add: s_def Let_def del: mem_free_slot_set)
  have before: "(next_free_hint a + e) mod sa_total_slots a \<notin> free_slot_set a" if "e < hint_distance a" for e
    using not_less_Least [OF that [unfolded hint_distance_def]] by (simp add: free_slot_set_def)
  obtain d where "d < sa_total_slots a" "(next_free_hint a + d) mod sa_total_slots a = s"
    using cyclic_scan [of s "sa_total_slots a" "next_free_hint a"] s by auto
  moreover from this have "hint_distance a \<le> d" using before s by (metis not_less)
  ultimately have "hint_distance a < sa_total_slots a" by simp
  moreover have "free_slot_set (take_slot_at a s) = free_slot_set a - {s}"
    using free_take_slot [OF assms, of s] s by simp
  ultimately show ?thesis
    using before s take_slot_wf [OF assms s] unfolding alloc prod.case option.case s_def by blast
qed

theorem allocate_slot_next_fit_witness:
  "\<exists>a. allocate_slot (swap_allocator_new 3) = (Some 0, a) \<and> free_slot_set a = {1, 2}"
proof -
  define a where "a = swap_allocator_new 3"
  have wf: "sa_wf a" unfolding a_def by (rule swap_allocator_new_wf) simp
  have free: "free_slot_set a = {0, 1, 2}"
    by (auto simp: a_def free_slot_set_def swap_allocator_new_def)
  have hint: "next_free_hint a = 0" "sa_total_slots a = 3"
    by (simp_all add: a_def swap_allocator_new_def)
  obtain s b where b: "allocate_slot a = (Some s, b)"
    using allocate_slot_next_fit [OF wf] free by (auto split: prod.splits option.splits)
  obtain d where d: "s = d mod 3" "\<forall>e<d. e mod 3 \<notin> free_slot_set a" "free_slot_set b = free_slot_set a - {s}"
    using allocate_slot_next_fit [OF wf] unfolding b prod.case option.case hint by auto
  then have "d = 0" using free by (metis insertI1 mod_0 neq0_conv)
  with d free b show ?thesis by (auto simp: a_def)
qed

text \<open>
  C28: swapping out refines the update of a map. On a well-formed manager it never panics; it
  reports a page that is already out, stores the page where some file device has a free slot,
  and reports no space otherwise, in which case every stored page is kept.
\<close>

theorem swap_out_refines:
  assumes "sm_wf m" "length data = 4096"
  shows "\<exists>r m'. swap_out_page m p data = Some (r, m') \<and> sm_wf m' \<and>
    (if swapped m p \<noteq> None then r = Err SlotInUse \<and> swapped m' = swapped m
     else if \<exists>i<length (devices m). has_room m i then is_ok r \<and> swapped m' = (swapped m)(p \<mapsto> data)
     else r = Err NoSpace \<and> swapped m' = swapped m)"
proof -
  note out = swap_out_page_correct [OF assms, of p]
  show ?thesis
  proof (cases "swapped m p = None")
    case True
    then show ?thesis using out(2,3) by (cases "\<exists>i<length (devices m). has_room m i") force+
  next
    case False
    with out(1) assms(1) show ?thesis by simp
  qed
qed

theorem swap_out_refines_witness:
  "\<exists>s m'. swap_out_page demo_swap 7 (replicate 4096 0x42) = Some (Ok s, m') \<and>
     swapped m' = [7 \<mapsto> replicate 4096 0x42]"
proof -
  have len: "length (replicate 4096 (0x42 :: u8)) = 4096" by (rule length_replicate)
  have room: "\<exists>i<length (devices demo_swap). has_room demo_swap i"
    using demo_swap_room by (auto simp: demo_swap_devices)
  obtain r m' where out: "swap_out_page demo_swap 7 (replicate 4096 0x42) = Some (r, m')"
    "is_ok r \<and> swapped m' = [7 \<mapsto> replicate 4096 0x42]"
    using swap_out_refines [OF demo_swap_wf(1) len, of 7] room unfolding demo_swap_wf(2) by auto
  moreover from this obtain s where "r = Ok s" by (cases r) auto
  ultimately show ?thesis by blast
qed

text \<open>
  C25: a page survives in swap. After a page is swapped out, and whatever devices are added and
  whatever other pages are swapped out and in since, swapping it in returns the bytes that
  were swapped out and ends its stay.
\<close>

theorem page_survives_in_swap:
  assumes "sm_wf m" "length data = 4096" "swap_out_page m p data = Some (Ok s, m1)"
    "swap_others p m1 m2"
  shows "\<exists>m3. swap_in_page m2 p buffer = Some (Ok (), data, m3) \<and> \<not> is_page_swapped m3 p \<and> sm_wf m3"
proof -
  have "sm_wf m1" "swapped m1 p = Some data"
    using swap_out_page_Ok [OF assms(1-3)] by simp_all
  with swap_others_keep [OF assms(4)] have "sm_wf m2" "swapped m2 p = Some data" by simp_all
  from swap_in_page_correct(2) [OF this, of buffer] obtain m3 where
    m3: "swap_in_page m2 p buffer = Some (Ok (), data, m3)" "sm_wf m3" "swapped m3 p = None" by auto
  then show ?thesis using swapped_dom [OF m3(2)] by (simp add: is_page_swapped_def)
qed

theorem page_survives_in_swap_witness:
  "\<exists>s m1 m3. swap_out_page demo_swap 7 (replicate 4096 0x42) = Some (Ok s, m1) \<and>
     swap_in_page (snd (add_device m1 demo_file)) 7 [] = Some (Ok (), replicate 4096 0x42, m3)"
proof -
  have len: "length (replicate 4096 (0x42 :: u8)) = 4096" by (rule length_replicate)
  obtain s m1 where out: "swap_out_page demo_swap 7 (replicate 4096 0x42) = Some (Ok s, m1)"
    using demo_swap_out [OF len] by blast
  have "swap_others 7 m1 (snd (add_device m1 demo_file))"
    by (rule swap_others.device_added [OF swap_others.idle, of demo_file _ "fst (add_device m1 demo_file)"])
      (simp_all add: demo_file_def)
  from page_survives_in_swap [OF demo_swap_wf(1) len out this, of "[]"] out show ?thesis by blast
qed

text \<open>
  A device can be removed exactly when no page is on it, and where no page is on a device of
  a higher index either, the stored pages and the invariant are kept.
\<close>

theorem remove_device_safe:
  assumes "sm_wf m" "k < length (devices m)"
    and "\<forall>p e. page_to_swap m p = Some e \<longrightarrow> device_index e < k"
  shows "\<exists>m'. remove_device m k = (Ok (), m') \<and> sm_wf m' \<and> swapped m' = swapped m"
proof -
  have "swap_to_page m (k, s) = None" for s
    using sm_wfD(5) [OF assms(1), of _ k s] assms(3)
    by (metis less_irrefl not_Some_eq swap_entry.select_convs(1))
  then have "fst (remove_device m k) = Ok ()" using remove_device_result [OF assms(1,2)] by blast
  then obtain m' where "remove_device m k = (Ok (), m')" by (metis prod.collapse)
  with remove_last_used_wf [OF assms(1) this] assms(3) show ?thesis by blast
qed

theorem remove_device_safe_witness:
  "\<exists>m'. remove_device demo_swap 1 = (Ok (), m') \<and> swapped m' = Map.empty"
proof -
  have "page_to_swap demo_swap p = None" for p
    using demo_swap_wf swapped_dom by fastforce
  then show ?thesis
    using remove_device_safe [OF demo_swap_wf(1), of 1] demo_swap_wf(2) by (auto simp: demo_swap_devices)
qed

text \<open>
  Removing a device of a lower index misdirects the pages of the devices after it. The
  devices move down by one and the reverse mapping follows, but the entry of a page keeps the
  old index: it names the next device, or none, in which case swapping the page in panics.
\<close>

theorem remove_device_misdirects:
  assumes "sm_wf m" "page_to_swap m p = Some \<lparr>device_index = i, entry_slot = s\<rparr>"
    "remove_device m k = (Ok (), m')" "k < i"
  shows "devices m' ! (i - 1) = devices m ! i \<and> swap_to_page m' (i - 1, s) = Some p
    \<and> page_to_swap m' p = Some \<lparr>device_index = i, entry_slot = s\<rparr> \<and> \<not> sm_wf m'
    \<and> (if i + 1 < length (devices m) then devices m' ! i = devices m ! (i + 1)
       else swap_in_page m' p buffer = None)"
proof -
  note rm = remove_device_Ok [OF assms(3)] and entry = swapped_entry [OF assms(1,2), simplified]
  have "devices m' ! (i - 1) = devices m ! i"
    using rm(1) entry(1) assms(4) by (auto simp: rm(2) nth_vec_remove)
  moreover have moved: "swap_to_page m' (i - 1, s) = Some p"
    using entry(5) assms(4) by (auto simp: rm(5) renumber_devices_def restrict_map_def)
  moreover have stale: "page_to_swap m' p = Some \<lparr>device_index = i, entry_slot = s\<rparr>"
    using assms(2) rm(4) by simp
  moreover have "\<not> sm_wf m'"
  proof
    assume "sm_wf m'"
    from sm_wfD(5) [OF this, of p "i - 1" s] moved stale assms(4) show False by simp
  qed
  moreover have "if i + 1 < length (devices m) then devices m' ! i = devices m ! (i + 1)
      else swap_in_page m' p buffer = None"
  proof (cases "i + 1 < length (devices m)")
    case True
    with rm(1) assms(4) show ?thesis by (simp add: rm(2) nth_vec_remove)
  next
    case False
    then have "length (devices m') \<le> i" using rm(1) by (simp add: rm(2))
    with False stale show ?thesis by (simp add: swap_in_page_def Let_def)
  qed
  ultimately show ?thesis by blast
qed

theorem remove_device_misdirects_witness:
  "\<exists>s m m'. swap_out_page demo_swap 7 (replicate 4096 0x42) = Some (Ok s, m) \<and>
     remove_device m 0 = (Ok (), m') \<and> swap_in_page m' 7 [] = None"
proof -
  have len: "length (replicate 4096 (0x42 :: u8)) = 4096" by (rule length_replicate)
  obtain s m where out: "swap_out_page demo_swap 7 (replicate 4096 0x42) = Some (Ok s, m)"
    and wf: "sm_wf m" and in_swap: "swapped m = [7 \<mapsto> replicate 4096 0x42]"
    using demo_swap_out [OF len] by blast
  have "map device_type (devices m) = [Partition, File]"
    using swap_out_page_types [OF demo_swap_wf(1) len out]
    by (simp add: demo_swap_devices demo_partition_def demo_file_def)
  then have devs: "length (devices m) = 2" "device_type (devices m ! 0) = Partition"
    by (auto simp: map_eq_Cons_conv)
  obtain i t where e: "page_to_swap m 7 = Some \<lparr>device_index = i, entry_slot = t\<rparr>"
    using swapped_dom [OF wf, of 7] in_swap by (metis fun_upd_same not_Some_eq option.distinct(1) swap_entry_eq)
  note entry = swapped_entry [OF wf e, simplified]
  have i: "i = 1" using entry(1,2) devs by (cases i) auto
  have "swap_to_page m (0, u) = None" for u
    using sm_wfD(7) [OF wf, of 0 u] devs(2) by (metis swap_device_type.distinct(1))
  then have "fst (remove_device m 0) = Ok ()" using remove_device_result [OF wf, of 0] devs(1) by simp
  then obtain m' where rm: "remove_device m 0 = (Ok (), m')" by (metis prod.collapse)
  from remove_device_misdirects [OF wf e rm, of "[]"] i devs(1) out rm show ?thesis by auto
qed

end
