(* ===== verification/Page_Replacement.thy ===== *)
theory Page_Replacement
  imports Phys_Mem Swap_Space "HOL-Library.AList" "HOL-Library.Product_Lexorder"
begin

text \<open>
  Page replacement, from \<^verbatim>\<open>memory/swap_algorithm.rs\<close>: three trackers that choose the page to give
  up, and the page swapper that feeds them and moves pages to and from swap. The map from frames
  to access information is an association list. Indexing out of range is an outcome; the swap
  functions of the swap space report their panics as \<^term>\<open>None\<close>.
\<close>

section \<open>Access information\<close>

datatype page_replacement_algorithm = LRU | FIFO | Clock | LFU

record page_access_info =
  pai_virtual_address :: usize
  pai_page_frame :: page_frame
  last_access :: u64
  access_count :: u64
  pai_referenced :: bool
  pai_dirty :: bool

definition page_access_info_new :: "usize \<Rightarrow> page_frame \<Rightarrow> page_access_info" where
  "page_access_info_new va f =
     \<lparr>pai_virtual_address = va, pai_page_frame = f, last_access = 0, access_count = 0, pai_referenced = False,
      pai_dirty = False\<rparr>"

definition update_access :: "u64 \<Rightarrow> bool \<Rightarrow> page_access_info \<Rightarrow> page_access_info" where
  "update_access now is_write i =
     i\<lparr>last_access := now, access_count := access_count i + 1, pai_referenced := True,
       pai_dirty := (if is_write then True else pai_dirty i)\<rparr>"

definition clear_reference :: "page_access_info \<Rightarrow> page_access_info" where
  "clear_reference i = i\<lparr>pai_referenced := False\<rparr>"

section \<open>Least recently used\<close>

record lru_replacer =
  lru_pages :: "page_frame list"
  page_positions :: "page_frame \<rightharpoonup> nat"
  lru_max_pages :: nat

definition lru_new :: "nat \<Rightarrow> lru_replacer" where
  "lru_new n = \<lparr>lru_pages = [], page_positions = Map.empty, lru_max_pages = n\<rparr>"

text \<open>The positions after the page at position \<open>k\<close> has left the queue.\<close>

definition close_gap :: "nat \<Rightarrow> (page_frame \<rightharpoonup> nat) \<Rightarrow> (page_frame \<rightharpoonup> nat)" where
  "close_gap k m = (\<lambda>f. map_option (\<lambda>p. if p > k then p - 1 else p) (m f))"

fun renumber_pages :: "page_frame list \<Rightarrow> nat \<Rightarrow> (page_frame \<rightharpoonup> nat) \<Rightarrow> (page_frame \<rightharpoonup> nat)" where
  "renumber_pages [] i m = m"
| "renumber_pages (f # fs) i m = renumber_pages fs (Suc i) (m(f \<mapsto> i))"

fun lru_trim :: "nat \<Rightarrow> page_frame list \<times> (page_frame \<rightharpoonup> nat) \<Rightarrow> page_frame list \<times> (page_frame \<rightharpoonup> nat)" where
  "lru_trim n (ps, m) = (if length ps > n then lru_trim n (butlast ps, m(last ps := None)) else (ps, m))"

declare lru_trim.simps [simp del]

definition lru_access :: "lru_replacer \<Rightarrow> page_frame \<Rightarrow> lru_replacer" where
  "lru_access r f =
     (let (ps, m) = (case page_positions r f of
            Some k \<Rightarrow> (vec_remove k (lru_pages r), close_gap k (page_positions r))
          | None \<Rightarrow> (lru_pages r, page_positions r));
          (ps', m') = lru_trim (lru_max_pages r) (f # ps, renumber_pages (f # ps) 0 m)
      in r\<lparr>lru_pages := ps', page_positions := m'\<rparr>)"

definition lru_victim :: "lru_replacer \<Rightarrow> page_frame option" where
  "lru_victim r = (if lru_pages r = [] then None else Some (last (lru_pages r)))"

definition lru_remove :: "lru_replacer \<Rightarrow> page_frame \<Rightarrow> lru_replacer" where
  "lru_remove r f =
     (case page_positions r f of
        Some k \<Rightarrow> r\<lparr>lru_pages := vec_remove k (lru_pages r),
                    page_positions := close_gap k ((page_positions r)(f := None))\<rparr>
      | None \<Rightarrow> r)"

definition lru_page_count :: "lru_replacer \<Rightarrow> nat" where
  "lru_page_count r = length (lru_pages r)"

section \<open>First in, first out\<close>

record fifo_replacer =
  fifo_pages :: "page_frame list"
  fifo_max_pages :: nat

definition fifo_new :: "nat \<Rightarrow> fifo_replacer" where
  "fifo_new n = \<lparr>fifo_pages = [], fifo_max_pages = n\<rparr>"

fun fifo_trim :: "nat \<Rightarrow> page_frame list \<Rightarrow> page_frame list" where
  "fifo_trim n [] = []"
| "fifo_trim n (p # ps) = (if length (p # ps) > n then fifo_trim n ps else p # ps)"

definition fifo_add :: "fifo_replacer \<Rightarrow> page_frame \<Rightarrow> fifo_replacer" where
  "fifo_add r f =
     (if f \<in> set (fifo_pages r) then r
      else r\<lparr>fifo_pages := fifo_trim (fifo_max_pages r) (fifo_pages r @ [f])\<rparr>)"

definition fifo_victim :: "fifo_replacer \<Rightarrow> page_frame option" where
  "fifo_victim r = (case fifo_pages r of [] \<Rightarrow> None | f # _ \<Rightarrow> Some f)"

definition fifo_remove :: "fifo_replacer \<Rightarrow> page_frame \<Rightarrow> fifo_replacer" where
  "fifo_remove r f =
     (case position (\<lambda>p. p = f) (fifo_pages r) of
        Some k \<Rightarrow> r\<lparr>fifo_pages := vec_remove k (fifo_pages r)\<rparr>
      | None \<Rightarrow> r)"

definition fifo_page_count :: "fifo_replacer \<Rightarrow> nat" where
  "fifo_page_count r = length (fifo_pages r)"

section \<open>Clock\<close>

record clock_replacer =
  clock_pages :: "(page_frame \<times> bool) list"
  clock_hand :: nat
  clock_max_pages :: nat

definition clock_new :: "nat \<Rightarrow> clock_replacer" where
  "clock_new n = \<lparr>clock_pages = [], clock_hand = 0, clock_max_pages = n\<rparr>"

definition hand_at :: "(page_frame \<times> bool) list \<Rightarrow> nat \<Rightarrow> nat" where
  "hand_at ps h = (if h \<ge> length ps then 0 else h)"

definition clear_bit :: "(page_frame \<times> bool) list \<Rightarrow> nat \<Rightarrow> (page_frame \<times> bool) list" where
  "clear_bit ps i = ps[i := (fst (ps ! i), False)]"

text \<open>Both loops end, since each round but the last clears a bit.\<close>

function clock_replace ::
    "page_frame \<Rightarrow> (page_frame \<times> bool) list \<Rightarrow> nat \<Rightarrow> ((page_frame \<times> bool) list \<times> nat) outcome" where
  "clock_replace f ps h =
     (let i = hand_at ps h in
      if i \<ge> length ps then Panics
      else if snd (ps ! i) then clock_replace f (clear_bit ps i) (i + 1)
      else Returns (ps[i := (f, True)], i + 1))"
  by pat_completeness auto
termination
  by (relation "measure (\<lambda>(f, ps, h). length (filter snd ps))")
    (auto simp: clear_bit_def length_filter_update not_le)

function clock_scan ::
    "nat \<Rightarrow> (page_frame \<times> bool) list \<Rightarrow> nat \<Rightarrow> (page_frame option \<times> (page_frame \<times> bool) list \<times> nat) outcome" where
  "clock_scan start ps h =
     (let i = hand_at ps h in
      if i \<ge> length ps then Panics
      else if snd (ps ! i) then
        (if i + 1 = start
         then and_then (array_get (clear_bit ps i) (i + 1)) (\<lambda>(f, _). Returns (Some f, clear_bit ps i, i + 1))
         else clock_scan start (clear_bit ps i) (i + 1))
      else Returns (Some (fst (ps ! i)), ps, i + 1))"
  by pat_completeness auto
termination
  by (relation "measure (\<lambda>(start, ps, h). length (filter snd ps))")
    (auto simp: clear_bit_def length_filter_update not_le)

declare clock_replace.simps [simp del] clock_scan.simps [simp del]

definition clock_access :: "clock_replacer \<Rightarrow> page_frame \<Rightarrow> clock_replacer outcome" where
  "clock_access c f =
     (if f \<in> fst ` set (clock_pages c)
      then Returns (c\<lparr>clock_pages := modify_first (\<lambda>(g, _). g = f) (\<lambda>(g, _). (g, True)) (clock_pages c)\<rparr>)
      else if length (clock_pages c) < clock_max_pages c
      then Returns (c\<lparr>clock_pages := clock_pages c @ [(f, True)]\<rparr>)
      else and_then (clock_replace f (clock_pages c) (clock_hand c))
        (\<lambda>(ps, h). Returns (c\<lparr>clock_pages := ps, clock_hand := h\<rparr>)))"

definition clock_victim :: "clock_replacer \<Rightarrow> (page_frame option \<times> clock_replacer) outcome" where
  "clock_victim c =
     (if clock_pages c = [] then Returns (None, c)
      else and_then (clock_scan (clock_hand c) (clock_pages c) (clock_hand c))
        (\<lambda>(v, ps, h). Returns (v, c\<lparr>clock_pages := ps, clock_hand := h\<rparr>)))"

definition clock_remove :: "clock_replacer \<Rightarrow> page_frame \<Rightarrow> clock_replacer" where
  "clock_remove c f =
     (case position (\<lambda>(g, _). g = f) (clock_pages c) of
        None \<Rightarrow> c
      | Some k \<Rightarrow>
          (let ps = vec_remove k (clock_pages c) in
           c\<lparr>clock_pages := ps,
             clock_hand := (if clock_hand c > k then clock_hand c - 1
               else if clock_hand c \<ge> length ps \<and> ps \<noteq> [] then 0 else clock_hand c)\<rparr>))"

definition clock_page_count :: "clock_replacer \<Rightarrow> nat" where
  "clock_page_count c = length (clock_pages c)"

section \<open>The page swapper\<close>

record swapper_stats =
  pages_swapped_out :: u64
  pages_swapped_in :: u64
  page_faults :: u64
  algorithm_switches :: u64

definition swapper_stats_new :: swapper_stats where
  "swapper_stats_new = \<lparr>pages_swapped_out = 0, pages_swapped_in = 0, page_faults = 0, algorithm_switches = 0\<rparr>"

record page_swapper =
  ps_algorithm :: page_replacement_algorithm
  lru_of :: lru_replacer
  fifo_of :: fifo_replacer
  clock_of :: clock_replacer
  page_info :: "(page_frame \<times> page_access_info) list"
  current_timestamp :: u64
  memory_pressure_threshold :: nat
  swapper_statistics :: swapper_stats

definition page_swapper_new :: "page_replacement_algorithm \<Rightarrow> nat \<Rightarrow> page_swapper" where
  "page_swapper_new alg n =
     \<lparr>ps_algorithm = alg, lru_of = lru_new n, fifo_of = fifo_new n, clock_of = clock_new n, page_info = [],
      current_timestamp = 0, memory_pressure_threshold = n, swapper_statistics = swapper_stats_new\<rparr>"

definition swapper_set_algorithm :: "page_swapper \<Rightarrow> page_replacement_algorithm \<Rightarrow> page_swapper" where
  "swapper_set_algorithm s alg =
     (if ps_algorithm s \<noteq> alg
      then s\<lparr>ps_algorithm := alg, swapper_statistics := (swapper_statistics s)
               \<lparr>algorithm_switches := algorithm_switches (swapper_statistics s) + 1\<rparr>\<rparr>
      else s)"

definition swapper_access :: "page_swapper \<Rightarrow> usize \<Rightarrow> page_frame \<Rightarrow> bool \<Rightarrow> page_swapper outcome" where
  "swapper_access s va f is_write =
     (let now = current_timestamp s + 1;
          i = (case map_of (page_info s) f of Some i \<Rightarrow> i | None \<Rightarrow> page_access_info_new va f);
          s1 = s\<lparr>current_timestamp := now, page_info := AList.update f (update_access now is_write i) (page_info s)\<rparr> in
      case ps_algorithm s1 of
        LRU \<Rightarrow> Returns (s1\<lparr>lru_of := lru_access (lru_of s1) f\<rparr>)
      | FIFO \<Rightarrow> Returns (s1\<lparr>fifo_of := fifo_add (fifo_of s1) f\<rparr>)
      | Clock \<Rightarrow> and_then (clock_access (clock_of s1) f) (\<lambda>c. Returns (s1\<lparr>clock_of := c\<rparr>))
      | LFU \<Rightarrow> Returns s1)"

definition swapper_page_fault ::
    "page_swapper \<Rightarrow> swap_manager option \<Rightarrow> usize \<Rightarrow> page_frame
      \<Rightarrow> ((unit, swap_error) result \<times> page_swapper \<times> swap_manager option) outcome" where
  "swapper_page_fault s g va f =
     (let st = swapper_statistics s; s1 = s\<lparr>swapper_statistics := st\<lparr>page_faults := page_faults st + 1\<rparr>\<rparr> in
      if global_is_page_swapped g f then
        and_then (or_panic (global_swap_in_page g f (replicate 4096 0))) (\<lambda>(r, buffer, g').
          case r of
            Err e \<Rightarrow> Returns (Err e, s1, g')
          | Ok _ \<Rightarrow>
              (let st1 = swapper_statistics s1;
                   s2 = s1\<lparr>swapper_statistics := st1\<lparr>pages_swapped_in := pages_swapped_in st1 + 1\<rparr>\<rparr> in
               and_then (swapper_access s2 va f False) (\<lambda>s3. Returns (Ok (), s3, g'))))
      else Returns (Ok (), s1, g))"

text \<open>The page of least access count; the sources go through the frames in increasing order.\<close>

definition lfu_victim :: "(page_frame \<times> page_access_info) list \<Rightarrow> page_frame option" where
  "lfu_victim m =
     (if m = [] then None else Some (snd (min_list (map (\<lambda>(f, i). (access_count i, f)) m))))"

definition select_victim_page :: "page_swapper \<Rightarrow> (page_frame option \<times> page_swapper) outcome" where
  "select_victim_page s =
     (case ps_algorithm s of
        LRU \<Rightarrow> Returns (lru_victim (lru_of s), s)
      | FIFO \<Rightarrow> Returns (fifo_victim (fifo_of s), s)
      | Clock \<Rightarrow> and_then (clock_victim (clock_of s)) (\<lambda>(v, c). Returns (v, s\<lparr>clock_of := c\<rparr>))
      | LFU \<Rightarrow> Returns (lfu_victim (page_info s), s))"

definition remove_page_from_tracking :: "page_swapper \<Rightarrow> page_frame \<Rightarrow> page_swapper" where
  "remove_page_from_tracking s f =
     s\<lparr>lru_of := lru_remove (lru_of s) f, fifo_of := fifo_remove (fifo_of s) f, clock_of := clock_remove (clock_of s) f\<rparr>"

definition get_current_page_count :: "page_swapper \<Rightarrow> nat" where
  "get_current_page_count s =
     (case ps_algorithm s of
        LRU \<Rightarrow> lru_page_count (lru_of s)
      | FIFO \<Rightarrow> fifo_page_count (fifo_of s)
      | Clock \<Rightarrow> clock_page_count (clock_of s)
      | LFU \<Rightarrow> length (page_info s))"

text \<open>The loop of \<^verbatim>\<open>swap_out_pages\<close>: \<open>n\<close> rounds are left and \<open>k\<close> pages are out.\<close>

fun swap_out_loop ::
    "nat \<Rightarrow> nat \<Rightarrow> page_swapper \<Rightarrow> swap_manager option \<Rightarrow> (nat \<times> page_swapper \<times> swap_manager option) outcome" where
  "swap_out_loop 0 k s g = Returns (k, s, g)"
| "swap_out_loop (Suc n) k s g =
     and_then (select_victim_page s) (\<lambda>(victim, s1).
       case victim of
         None \<Rightarrow> Returns (k, s1, g)
       | Some v \<Rightarrow>
           (case map_of (page_info s1) v of
              None \<Rightarrow> swap_out_loop n k s1 g
            | Some _ \<Rightarrow>
                and_then (or_panic (global_swap_out_page g v (replicate 4096 0))) (\<lambda>(r, g').
                  case r of
                    Err _ \<Rightarrow> Returns (k, s1, g')
                  | Ok _ \<Rightarrow>
                      (let s2 = remove_page_from_tracking s1 v; st = swapper_statistics s2 in
                       swap_out_loop n (k + 1)
                         (s2\<lparr>page_info := AList.delete v (page_info s2),
                             swapper_statistics := st\<lparr>pages_swapped_out := pages_swapped_out st + 1\<rparr>\<rparr>) g'))))"

definition swapper_swap_out ::
    "page_swapper \<Rightarrow> swap_manager option \<Rightarrow> nat \<Rightarrow> ((nat, swap_error) result \<times> page_swapper \<times> swap_manager option) outcome" where
  "swapper_swap_out s g n = and_then (swap_out_loop n 0 s g) (\<lambda>(k, s', g'). Returns (Ok k, s', g'))"

definition swapper_check_pressure ::
    "page_swapper \<Rightarrow> swap_manager option \<Rightarrow> ((nat, swap_error) result \<times> page_swapper \<times> swap_manager option) outcome" where
  "swapper_check_pressure s g =
     (if get_current_page_count s > memory_pressure_threshold s
      then swapper_swap_out s g (get_current_page_count s - memory_pressure_threshold s)
      else Returns (Ok 0, s, g))"

definition swapper_set_threshold :: "page_swapper \<Rightarrow> nat \<Rightarrow> page_swapper" where
  "swapper_set_threshold s n = s\<lparr>memory_pressure_threshold := n\<rparr>"

section \<open>The global swapper\<close>

type_synonym swapper_state = "page_swapper option \<times> swap_manager option"

definition init_page_swapper ::
    "swapper_state \<Rightarrow> page_replacement_algorithm \<Rightarrow> nat \<Rightarrow> (unit, swap_error) result \<times> swapper_state" where
  "init_page_swapper st alg n = (Ok (), (Some (page_swapper_new alg n), snd st))"

definition record_page_access :: "swapper_state \<Rightarrow> usize \<Rightarrow> page_frame \<Rightarrow> bool \<Rightarrow> swapper_state outcome" where
  "record_page_access st va f is_write =
     (case fst st of
        None \<Rightarrow> Returns st
      | Some s \<Rightarrow> and_then (swapper_access s va f is_write) (\<lambda>s'. Returns (Some s', snd st)))"

definition handle_page_fault ::
    "swapper_state \<Rightarrow> usize \<Rightarrow> page_frame \<Rightarrow> ((unit, swap_error) result \<times> swapper_state) outcome" where
  "handle_page_fault st va f =
     (case fst st of
        None \<Rightarrow> Returns (Err DeviceUnavailable, st)
      | Some s \<Rightarrow> and_then (swapper_page_fault s (snd st) va f) (\<lambda>(r, s', g). Returns (r, (Some s', g))))"

definition check_memory_pressure :: "swapper_state \<Rightarrow> ((nat, swap_error) result \<times> swapper_state) outcome" where
  "check_memory_pressure st =
     (case fst st of
        None \<Rightarrow> Returns (Err DeviceUnavailable, st)
      | Some s \<Rightarrow> and_then (swapper_check_pressure s (snd st)) (\<lambda>(r, s', g). Returns (r, (Some s', g))))"

definition swap_out_pages :: "swapper_state \<Rightarrow> nat \<Rightarrow> ((nat, swap_error) result \<times> swapper_state) outcome" where
  "swap_out_pages st n =
     (case fst st of
        None \<Rightarrow> Returns (Err DeviceUnavailable, st)
      | Some s \<Rightarrow> and_then (swapper_swap_out s (snd st) n) (\<lambda>(r, s', g). Returns (r, (Some s', g))))"

definition set_page_replacement_algorithm ::
    "swapper_state \<Rightarrow> page_replacement_algorithm \<Rightarrow> (unit, swap_error) result \<times> swapper_state" where
  "set_page_replacement_algorithm st alg =
     (case fst st of
        None \<Rightarrow> (Err DeviceUnavailable, st)
      | Some s \<Rightarrow> (Ok (), (Some (swapper_set_algorithm s alg), snd st)))"

definition set_memory_pressure_threshold :: "swapper_state \<Rightarrow> nat \<Rightarrow> (unit, swap_error) result \<times> swapper_state" where
  "set_memory_pressure_threshold st n =
     (case fst st of
        None \<Rightarrow> (Err DeviceUnavailable, st)
      | Some s \<Rightarrow> (Ok (), (Some (swapper_set_threshold s n), snd st)))"

definition get_swapper_stats :: "swapper_state \<Rightarrow> swapper_stats option" where
  "get_swapper_stats st = map_option swapper_statistics (fst st)"

definition index_map :: "'a list \<Rightarrow> 'a \<rightharpoonup> nat" where
  "index_map xs = (\<lambda>x. position (\<lambda>y. y = x) xs)"

definition lru_ok :: "lru_replacer \<Rightarrow> bool" where
  "lru_ok r \<longleftrightarrow> distinct (lru_pages r) \<and> length (lru_pages r) \<le> lru_max_pages r
     \<and> page_positions r = index_map (lru_pages r)"

fun clock_accesses :: "page_frame list \<Rightarrow> clock_replacer \<Rightarrow> clock_replacer outcome" where
  "clock_accesses [] c = Returns c"
| "clock_accesses (f # fs) c = and_then (clock_access c f) (clock_accesses fs)"

definition marked :: "bool \<Rightarrow> page_frame list \<Rightarrow> (page_frame \<times> bool) list" where
  "marked b fs = map (\<lambda>f. (f, b)) fs"

text \<open>The size limits of the trackers, and the threshold with which a swapper starts.\<close>

definition swapper_bounded :: "nat \<Rightarrow> page_swapper \<Rightarrow> bool" where
  "swapper_bounded n s \<longleftrightarrow> lru_ok (lru_of s) \<and> lru_max_pages (lru_of s) = n
     \<and> fifo_max_pages (fifo_of s) = n \<and> length (fifo_pages (fifo_of s)) \<le> n
     \<and> clock_max_pages (clock_of s) = n \<and> length (clock_pages (clock_of s)) \<le> n
     \<and> memory_pressure_threshold s = n"

text \<open>What happens to the global swapper, other than setting the threshold.\<close>

inductive swapper_step :: "swapper_state \<Rightarrow> swapper_state \<Rightarrow> bool" where
  accessed: "record_page_access st va f w = Returns st' \<Longrightarrow> swapper_step st st'"
| faulted: "handle_page_fault st va f = Returns (r, st') \<Longrightarrow> swapper_step st st'"
| relieved: "check_memory_pressure st = Returns (r', st') \<Longrightarrow> swapper_step st st'"
| swapped_out: "swap_out_pages st k = Returns (r', st') \<Longrightarrow> swapper_step st st'"
| switched: "set_page_replacement_algorithm st alg = (r, st') \<Longrightarrow> swapper_step st st'"

definition demo_swapper :: page_swapper where
  "demo_swapper = (page_swapper_new LRU 4)\<lparr>lru_of := \<lparr>lru_pages = [7, 5], page_positions = index_map [7, 5], lru_max_pages = 4\<rparr>,
     page_info := [(7, page_access_info_new 0 7), (5, page_access_info_new 4096 5)]\<rparr>"

section \<open>Positions\<close>

lemma index_map_Some:
  "distinct xs \<Longrightarrow> index_map xs x = Some k \<longleftrightarrow> k < length xs \<and> xs ! k = x"
  by (auto simp: index_map_def position_Some_iff nth_eq_iff_index_eq)

lemma index_map_None: "index_map xs x = None \<longleftrightarrow> x \<notin> set xs"
  by (auto simp: index_map_def)

lemma index_map_eqI:
  assumes "distinct xs" "\<And>x k. m x = Some k \<longleftrightarrow> k < length xs \<and> xs ! k = x"
  shows "m = index_map xs"
proof
  fix x
  show "m x = index_map xs x"
    using assms by (metis index_map_Some not_Some_eq)
qed

lemma renumber_pages_eq:
  "distinct fs \<Longrightarrow> renumber_pages fs i m g = (case index_map fs g of Some k \<Rightarrow> Some (i + k) | None \<Rightarrow> m g)"
proof (induction fs arbitrary: i m)
  case (Cons f fs)
  show ?case
  proof (cases "f = g")
    case True
    with Cons.prems have "index_map fs g = None" by (simp add: index_map_None)
    moreover have "index_map (f # fs) g = Some 0" using True by (simp add: index_map_def)
    ultimately show ?thesis using True Cons by simp
  next
    case False
    with Cons show ?thesis by (cases "index_map fs g") (simp_all add: index_map_def del: position_None_iff)
  qed
qed (simp add: index_map_def)

lemma index_map_butlast:
  "distinct xs \<Longrightarrow> xs \<noteq> [] \<Longrightarrow> (index_map xs)(last xs := None) = index_map (butlast xs)"
proof (rule index_map_eqI)
  assume xs: "distinct xs" "xs \<noteq> []"
  then show "distinct (butlast xs)" by (simp add: distinct_butlast)
  fix x k
  have "last xs = xs ! (length xs - 1)" using xs(2) by (rule last_conv_nth)
  then show "((index_map xs)(last xs := None)) x = Some k \<longleftrightarrow> k < length (butlast xs) \<and> butlast xs ! k = x"
    using xs by (auto simp: index_map_Some nth_butlast nth_eq_iff_index_eq)
qed

lemma lru_trim_eq:
  assumes "distinct ps"
  shows "lru_trim n (ps, index_map ps) = (take n ps, index_map (take n ps))"
  using assms
proof (induction ps rule: rev_induct)
  case Nil
  then show ?case by (simp add: lru_trim.simps)
next
  case (snoc p ps)
  have "(index_map (ps @ [p]))(p := None) = index_map ps"
    using index_map_butlast [of "ps @ [p]"] snoc.prems by simp
  with snoc show ?case by (simp add: lru_trim.simps [of n "ps @ [p]"])
qed

lemma vec_remove_index:
  assumes "distinct xs" "k < length xs"
  shows "vec_remove k xs = removeAll (xs ! k) xs"
proof -
  have xs: "xs = take k xs @ xs ! k # drop (Suc k) xs" using assms(2) by (rule id_take_nth_drop)
  then have "distinct (take k xs @ xs ! k # drop (Suc k) xs)" using assms(1) by simp
  then have "removeAll (xs ! k) (take k xs @ xs ! k # drop (Suc k) xs) = take k xs @ drop (Suc k) xs" by simp
  with xs show ?thesis by (simp add: vec_remove_def)
qed

lemma close_gap_index:
  assumes "distinct xs" "k < length xs"
  shows "close_gap k ((index_map xs)(xs ! k := None)) = index_map (vec_remove k xs)"
proof (rule index_map_eqI)
  show "distinct (vec_remove k xs)" using assms by (simp add: vec_remove_index distinct_removeAll)
  fix x j
  show "close_gap k ((index_map xs)(xs ! k := None)) x = Some j \<longleftrightarrow>
      j < length (vec_remove k xs) \<and> vec_remove k xs ! j = x" (is "?L \<longleftrightarrow> ?R")
  proof
    assume L: ?L
    then have x: "x \<noteq> xs ! k" by (auto simp: close_gap_def)
    from L obtain p where "index_map xs x = Some p" "j = (if p > k then p - 1 else p)"
      unfolding close_gap_def fun_upd_other [OF x] map_option_eq_Some by blast
    moreover from this x have "p < length xs" "xs ! p = x" "p \<noteq> k" using assms(1) by (auto simp: index_map_Some)
    ultimately show ?R using assms(2) by (auto simp: nth_vec_remove)
  next
    assume ?R
    then have j: "j < length xs - 1" "x = (if j < k then xs ! j else xs ! Suc j)"
      using assms(2) by (auto simp: nth_vec_remove)
    define p where "p = (if j < k then j else Suc j)"
    have "p < length xs" "xs ! p = x" "p \<noteq> k" "j = (if p > k then p - 1 else p)" using j by (auto simp: p_def)
    then have "index_map xs x = Some p" "x \<noteq> xs ! k"
      using assms by (auto simp: index_map_Some nth_eq_iff_index_eq)
    then show ?L using \<open>j = _\<close> by (simp add: close_gap_def)
  qed
qed

section \<open>Least recently used pages\<close>

lemma lru_access_eq:
  fixes f :: page_frame
  assumes "lru_ok r"
  defines "ps \<equiv> take (lru_max_pages r) (f # removeAll f (lru_pages r))"
  shows "lru_access r f = r\<lparr>lru_pages := ps, page_positions := index_map ps\<rparr>"
proof -
  let ?xs = "lru_pages r"
  have d: "distinct ?xs" and pos: "page_positions r = index_map ?xs" using assms(1) by (auto simp: lru_ok_def)
  have fresh: "distinct (f # removeAll f ?xs)" using d by (simp add: distinct_removeAll)
  have renumber: "renumber_pages (f # removeAll f ?xs) 0 m = index_map (f # removeAll f ?xs)"
    if "\<forall>g. g \<notin> set (f # removeAll f ?xs) \<longrightarrow> m g = None" for m
  proof
    fix g
    show "renumber_pages (f # removeAll f ?xs) 0 m g = index_map (f # removeAll f ?xs) g"
    proof (cases "index_map (f # removeAll f ?xs) g")
      case None
      then have "m g = None" using that by (simp only: index_map_None) blast
      with None show ?thesis by (simp only: renumber_pages_eq [OF fresh] option.case)
    next
      case (Some k)
      then show ?thesis by (simp only: renumber_pages_eq [OF fresh] option.case add_0)
    qed
  qed
  show ?thesis
  proof (cases "index_map ?xs f")
    case None
    then have "f \<notin> set ?xs" by (simp add: index_map_None)
    then have "removeAll f ?xs = ?xs" by simp
    moreover have "renumber_pages (f # removeAll f ?xs) 0 (index_map ?xs) = index_map (f # removeAll f ?xs)"
      using None by (intro renumber) (auto simp: index_map_None)
    ultimately show ?thesis
      using lru_trim_eq [OF fresh] None by (simp add: lru_access_def pos ps_def)
  next
    case (Some k)
    then have k: "k < length ?xs" "?xs ! k = f" using d by (auto simp: index_map_Some)
    then have "vec_remove k ?xs = removeAll f ?xs" using vec_remove_index [OF d k(1)] by simp
    moreover have "renumber_pages (f # removeAll f ?xs) 0 (close_gap k (index_map ?xs)) = index_map (f # removeAll f ?xs)"
      by (rule renumber) (auto simp: close_gap_def index_map_None)
    ultimately show ?thesis
      using lru_trim_eq [OF fresh] Some by (simp add: lru_access_def pos ps_def)
  qed
qed

lemma lru_access_ok: "lru_ok r \<Longrightarrow> lru_ok (lru_access r f)"
  using lru_access_eq [of r f] by (auto simp: lru_ok_def distinct_removeAll intro: distinct_take)

lemma lru_remove_eq:
  assumes "lru_ok r"
  shows "lru_remove r f = r\<lparr>lru_pages := removeAll f (lru_pages r), page_positions := index_map (removeAll f (lru_pages r))\<rparr>"
proof -
  have d: "distinct (lru_pages r)" and pos: "page_positions r = index_map (lru_pages r)" using assms by (auto simp: lru_ok_def)
  show ?thesis
  proof (cases "index_map (lru_pages r) f")
    case None
    then have "removeAll f (lru_pages r) = lru_pages r" by (simp add: index_map_None)
    with None pos show ?thesis by (simp add: lru_remove_def)
  next
    case (Some k)
    then have k: "k < length (lru_pages r)" "lru_pages r ! k = f" using d by (auto simp: index_map_Some)
    with Some pos show ?thesis
      using close_gap_index [OF d k(1)] vec_remove_index [OF d k(1)] by (simp add: lru_remove_def)
  qed
qed

lemma lru_remove_ok: "lru_ok r \<Longrightarrow> lru_ok (lru_remove r f)"
  by (auto simp: lru_remove_eq lru_ok_def distinct_removeAll intro: order_trans [OF length_removeAll_less_eq])

lemma lru_new_ok: "lru_ok (lru_new n)"
  by (simp add: lru_ok_def lru_new_def index_map_def fun_eq_iff)

lemma removeAll_take:
  "distinct xs \<Longrightarrow> take n (f # removeAll f (take n xs)) = take n (f # removeAll f xs)"
proof (induction xs arbitrary: n)
  case (Cons x xs)
  show ?case
  proof (cases n)
    case (Suc m)
    have IH: "take m (f # removeAll f (take m xs)) = take m (f # removeAll f xs)" using Cons by simp
    show ?thesis
    proof (cases "x = f")
      case True
      with Cons.prems have "f \<notin> set xs" by simp
      then have "removeAll f xs = xs" "f \<notin> set (take m xs)" by (auto dest: in_set_takeD)
      then have "removeAll f xs = xs" "removeAll f (take m xs) = take m xs" by simp_all
      with True Suc show ?thesis by simp
    next
      case False
      with IH Suc show ?thesis by (cases m) simp_all
    qed
  qed simp
qed simp

lemma remdups_snoc: "remdups (xs @ [x]) = removeAll x (remdups xs) @ [x]"
  by (induction xs) auto

lemma lru_accesses:
  "lru_ok (fold (\<lambda>f r. lru_access r f) fs (lru_new n)) \<and> lru_max_pages (fold (\<lambda>f r. lru_access r f) fs (lru_new n)) = n
    \<and> lru_pages (fold (\<lambda>f r. lru_access r f) fs (lru_new n)) = take n (rev (remdups fs))"
proof (induction fs rule: rev_induct)
  case Nil
  show ?case using lru_new_ok by (simp add: lru_new_def)
next
  case (snoc f fs)
  define r where "r = fold (\<lambda>f r. lru_access r f) fs (lru_new n)"
  have IH: "lru_ok r" "lru_max_pages r = n" "lru_pages r = take n (rev (remdups fs))" using snoc by (simp_all add: r_def)
  have "lru_pages (lru_access r f) = take n (f # removeAll f (take n (rev (remdups fs))))"
    by (simp add: lru_access_eq [OF IH(1)] IH(2,3))
  also have "\<dots> = take n (f # removeAll f (rev (remdups fs)))"
    by (rule removeAll_take) simp
  also have "f # removeAll f (rev (remdups fs)) = rev (remdups (fs @ [f]))"
    by (simp add: remdups_snoc removeAll_filter_not_eq rev_filter)
  finally show ?case
    using lru_access_ok [OF IH(1), of f] IH(2) by (simp add: lru_access_eq [OF IH(1)] flip: r_def)
qed

section \<open>The clock\<close>

lemma marked_simps [simp]:
  "length (marked b fs) = length fs" "fst ` set (marked b fs) = set fs" "marked b [] = []"
  "marked b (f # fs) = (f, b) # marked b fs" "marked b (fs @ gs) = marked b fs @ marked b gs"
  by (auto simp: marked_def image_image)

lemma clock_accesses_append:
  "clock_accesses (fs @ gs) c = and_then (clock_accesses fs c) (clock_accesses gs)"
proof (induction fs arbitrary: c)
  case (Cons f fs)
  then show ?case by (cases "clock_access c f") simp_all
qed simp

lemma clock_fill:
  "distinct fs \<Longrightarrow> length fs \<le> n \<Longrightarrow>
    clock_accesses fs (clock_new n) = Returns \<lparr>clock_pages = marked True fs, clock_hand = 0, clock_max_pages = n\<rparr>"
proof (induction fs rule: rev_induct)
  case Nil
  then show ?case by (simp add: clock_new_def)
next
  case (snoc f fs)
  then show ?case by (simp add: clock_accesses_append clock_access_def image_Un)
qed

lemma clear_bit_marked: "clear_bit (marked False xs @ (y, b) # ps) (length xs) = marked False (xs @ [y]) @ ps"
  by (simp add: clear_bit_def nth_append list_update_append)

lemma clock_replace_all:
  "xs @ ys \<noteq> [] \<Longrightarrow> clock_replace f (marked False xs @ marked True ys) (length xs) =
    Returns ((marked False (xs @ ys))[0 := (f, True)], 1)"
proof (induction ys arbitrary: xs)
  case Nil
  then obtain x xs' where xs: "xs = x # xs'" by (cases xs) auto
  then show ?case by (simp add: clock_replace.simps hand_at_def)
next
  case (Cons y ys)
  have "clock_replace f (marked False xs @ marked True (y # ys)) (length xs) =
      clock_replace f (marked False (xs @ [y]) @ marked True ys) (length (xs @ [y]))"
    by (subst clock_replace.simps) (simp add: hand_at_def nth_append clear_bit_marked)
  also have "\<dots> = Returns ((marked False ((xs @ [y]) @ ys))[0 := (f, True)], 1)"
    by (rule Cons.IH) simp
  finally show ?case by simp
qed

lemma clock_refill:
  assumes "distinct (as @ bs)" "length as = n" "length bs \<le> n" "bs \<noteq> []"
  shows "clock_accesses (as @ bs) (clock_new n) =
    Returns \<lparr>clock_pages = marked True bs @ marked False (drop (length bs) as), clock_hand = length bs, clock_max_pages = n\<rparr>"
  using assms
proof (induction bs rule: rev_induct)
  case Nil
  then show ?case by simp
next
  case (snoc b bs)
  have b: "b \<notin> set as" "b \<notin> set bs" "distinct (as @ bs)" using snoc.prems(1) by auto
  show ?case
  proof (cases "bs = []")
    case True
    have fill: "clock_accesses as (clock_new n) = Returns \<lparr>clock_pages = marked True as, clock_hand = 0, clock_max_pages = n\<rparr>"
      using clock_fill [of as n] snoc.prems by simp
    from snoc.prems True obtain a as' where as: "as = a # as'" by (cases as) auto
    have "clock_replace b (marked True as) 0 = Returns ((marked False as)[0 := (b, True)], 1)"
      using clock_replace_all [of "[]" as b] as by simp
    then have "clock_access \<lparr>clock_pages = marked True as, clock_hand = 0, clock_max_pages = n\<rparr> b =
        Returns \<lparr>clock_pages = marked True [b] @ marked False (drop 1 as), clock_hand = 1, clock_max_pages = n\<rparr>"
      using b snoc.prems(2) as by (auto simp: clock_access_def)
    then show ?thesis
      unfolding True append_Nil clock_accesses_append fill by simp
  next
    case False
    let ?k = "length bs"
    have k: "?k < n" using snoc.prems(3) by simp
    have IH: "clock_accesses (as @ bs) (clock_new n) =
        Returns \<lparr>clock_pages = marked True bs @ marked False (drop ?k as), clock_hand = ?k, clock_max_pages = n\<rparr>"
      using snoc.IH b(3) snoc.prems(2) k False by simp
    have d: "drop ?k as = as ! ?k # drop (Suc ?k) as" using k snoc.prems(2) by (simp add: Cons_nth_drop_Suc)
    have fresh: "b \<notin> fst ` set (marked True bs @ marked False (drop ?k as))"
      using b by (auto simp: image_Un dest: in_set_dropD)
    have "clock_replace b (marked True bs @ marked False (drop ?k as)) ?k =
        Returns (marked True bs @ (b, True) # marked False (drop (Suc ?k) as), Suc ?k)"
      by (subst clock_replace.simps) (simp add: hand_at_def d nth_append list_update_append Let_def)
    then have "clock_access \<lparr>clock_pages = marked True bs @ marked False (drop ?k as), clock_hand = ?k, clock_max_pages = n\<rparr> b =
        Returns \<lparr>clock_pages = marked True (bs @ [b]) @ marked False (drop (Suc ?k) as), clock_hand = Suc ?k, clock_max_pages = n\<rparr>"
      using fresh k snoc.prems(2) by (simp add: clock_access_def)
    then show ?thesis using IH by (simp add: clock_accesses_append [of "as @ bs" "[b]", simplified])
  qed
qed

lemma clock_scan_end:
  "ys \<noteq> [] \<Longrightarrow> hand_at (marked False xs @ marked True ys) h = length xs \<Longrightarrow>
    clock_scan (length (xs @ ys)) (marked False xs @ marked True ys) h = Panics"
proof (induction ys arbitrary: xs h)
  case (Cons y ys)
  let ?ps = "marked False xs @ marked True (y # ys)"
  have clear: "clear_bit ?ps (length xs) = marked False (xs @ [y]) @ marked True ys" by (simp add: clear_bit_marked)
  show ?case
  proof (cases "ys = []")
    case True
    then show ?thesis using Cons.prems clear
      by (subst clock_scan.simps) (simp add: nth_append array_get_def Let_def)
  next
    case False
    then have "clock_scan (length (xs @ y # ys)) ?ps h =
        clock_scan (length ((xs @ [y]) @ ys)) (marked False (xs @ [y]) @ marked True ys) (length (xs @ [y]))"
      using Cons.prems clear by (subst clock_scan.simps) (simp add: nth_append Let_def)
    also have "\<dots> = Panics"
      using False by (intro Cons.IH) (simp_all add: hand_at_def)
    finally show ?thesis .
  qed
qed simp

section \<open>Bounds of the trackers\<close>

lemma length_clear_bit [simp]: "length (clear_bit ps i) = length ps"
  by (simp add: clear_bit_def)

lemma clock_replace_length: "clock_replace f ps h = Returns (ps', h') \<Longrightarrow> length ps' = length ps"
proof (induction f ps h rule: clock_replace.induct)
  case (1 f ps h)
  then show ?case by (subst (asm) (2) clock_replace.simps) (auto simp: Let_def split: if_splits)
qed

lemma clock_scan_length: "clock_scan start ps h = Returns (v, ps', h') \<Longrightarrow> length ps' = length ps"
proof (induction start ps h rule: clock_scan.induct)
  case (1 start ps h)
  then show ?case
    by (subst (asm) (2) clock_scan.simps) (auto simp: Let_def and_then_Returns split: if_splits prod.splits)
qed

lemma length_modify_first [simp]: "length (modify_first P f xs) = length xs"
  by (induction xs) auto

lemma length_fifo_trim: "length (fifo_trim n ps) \<le> n"
  by (induction n ps rule: fifo_trim.induct) auto

lemma clock_access_bounded:
  assumes "clock_access c f = Returns c'" "length (clock_pages c) \<le> clock_max_pages c"
  shows "clock_max_pages c' = clock_max_pages c" "length (clock_pages c') \<le> clock_max_pages c"
  using assms clock_replace_length [of f "clock_pages c" "clock_hand c"]
  by (auto simp: clock_access_def and_then_Returns split: if_splits)

lemma swapper_access_bounded:
  assumes "swapper_access s va f w = Returns s'" "swapper_bounded n s"
  shows "swapper_bounded n s'"
  using assms lru_access_ok [of "lru_of s" f] lru_access_eq [of "lru_of s" f] clock_access_bounded [of "clock_of s" f]
    length_fifo_trim [of n]
  by (auto simp: swapper_access_def Let_def swapper_bounded_def fifo_add_def and_then_Returns
      split: page_replacement_algorithm.splits)

lemma set_algorithm_bounded: "swapper_bounded n s \<Longrightarrow> swapper_bounded n (swapper_set_algorithm s alg)"
  by (simp add: swapper_set_algorithm_def swapper_bounded_def)

lemma page_fault_bounded:
  assumes "swapper_page_fault s g va f = Returns (r, s', g')" "swapper_bounded n s"
  shows "swapper_bounded n s'"
proof -
  have keep: "swapper_bounded n (s\<lparr>swapper_statistics := st\<rparr>)" for st
    using assms(2) by (simp add: swapper_bounded_def)
  show ?thesis
  proof (cases "global_is_page_swapped g f")
    case True
    with assms(1) obtain r0 b0 g0 where io: "or_panic (global_swap_in_page g f (replicate 4096 0)) = Returns (r0, b0, g0)"
      by (auto simp: swapper_page_fault_def Let_def and_then_Returns)
    show ?thesis
      using assms(1) True io keep swapper_access_bounded [OF _ keep]
      by (cases r0) (auto simp: swapper_page_fault_def Let_def and_then_Returns)
  next
    case False
    with assms(1) keep show ?thesis by (auto simp: swapper_page_fault_def Let_def)
  qed
qed

lemma select_victim_bounded:
  assumes "select_victim_page s = Returns (v, s')" "swapper_bounded n s"
  shows "swapper_bounded n s'"
  using assms clock_scan_length [of "clock_hand (clock_of s)" "clock_pages (clock_of s)" "clock_hand (clock_of s)"]
  by (auto simp: select_victim_page_def clock_victim_def and_then_Returns swapper_bounded_def
      split: page_replacement_algorithm.splits if_splits)

lemma remove_tracking_bounded:
  assumes "swapper_bounded n s"
  shows "swapper_bounded n (remove_page_from_tracking s f)"
proof -
  have "lru_ok (lru_remove (lru_of s) f)" "lru_max_pages (lru_remove (lru_of s) f) = n"
    using assms lru_remove_ok lru_remove_eq by (auto simp: swapper_bounded_def)
  then show ?thesis
    using assms by (auto simp: remove_page_from_tracking_def swapper_bounded_def fifo_remove_def clock_remove_def
        Let_def position_Some_iff split: option.splits)
qed

lemma swap_out_loop_bounded:
  "swap_out_loop k c s g = Returns (c', s', g') \<Longrightarrow> swapper_bounded n s \<Longrightarrow> swapper_bounded n s'"
proof (induction k arbitrary: c s g)
  case (Suc k)
  obtain v s1 where sel: "select_victim_page s = Returns (v, s1)"
    using Suc.prems(1) by (auto simp: and_then_Returns)
  have s1: "swapper_bounded n s1" using select_victim_bounded [OF sel Suc.prems(2)] .
  have keep: "swapper_bounded n ((remove_page_from_tracking s1 f)\<lparr>page_info := i, swapper_statistics := st\<rparr>)" for f i st
    using remove_tracking_bounded [OF s1, of f] by (simp add: swapper_bounded_def)
  show ?case
  proof (cases v)
    case None
    with Suc.prems(1) sel s1 show ?thesis by simp
  next
    case (Some f)
    note v = Some
    show ?thesis
    proof (cases "map_of (page_info s1) f")
      case None
      with Suc.prems(1) sel s1 v show ?thesis by (intro Suc.IH [of c s1 g]) simp_all
    next
      case (Some i)
      then obtain r0 g0 where io: "or_panic (global_swap_out_page g f (replicate 4096 0)) = Returns (r0, g0)"
        using Suc.prems(1) sel v by (auto simp: and_then_Returns)
      show ?thesis
      proof (cases r0)
        case (Err e)
        with Suc.prems(1) sel s1 v Some io show ?thesis by simp
      next
        case (Ok x)
        show ?thesis
          using Suc.prems(1) sel v Some io Ok by (intro Suc.IH [OF _ keep]) (simp add: Let_def)
      qed
    qed
  qed
qed simp

lemma swapper_new_bounded: "swapper_bounded n (page_swapper_new alg n)"
  using lru_new_ok [of n]
  by (simp add: swapper_bounded_def page_swapper_new_def lru_new_def fifo_new_def clock_new_def)

lemma swap_out_bounded:
  "swapper_swap_out s g k = Returns (r, s', g') \<Longrightarrow> swapper_bounded n s \<Longrightarrow> swapper_bounded n s'"
  by (auto simp: swapper_swap_out_def and_then_Returns dest: swap_out_loop_bounded)

lemma swapper_step_bounded:
  assumes "swapper_step st st'" "fst st = Some s" "swapper_bounded n s"
  shows "\<exists>s'. fst st' = Some s' \<and> swapper_bounded n s'"
  using assms
proof cases
  case (accessed va f w)
  with assms(2,3) show ?thesis by (auto simp: record_page_access_def and_then_Returns dest: swapper_access_bounded)
next
  case (faulted va f r)
  with assms(2,3) show ?thesis by (auto simp: handle_page_fault_def and_then_Returns dest: page_fault_bounded)
next
  case (relieved r)
  with assms(2,3) show ?thesis
    by (auto simp: check_memory_pressure_def swapper_check_pressure_def and_then_Returns dest: swap_out_bounded split: if_splits)
next
  case (swapped_out k r)
  with assms(2,3) show ?thesis by (auto simp: swap_out_pages_def and_then_Returns dest: swap_out_bounded)
next
  case (switched alg r)
  with assms(2,3) show ?thesis by (auto simp: set_page_replacement_algorithm_def set_algorithm_bounded)
qed

lemma swapper_steps_bounded:
  "swapper_step\<^sup>*\<^sup>* st st' \<Longrightarrow> fst st = Some s \<Longrightarrow> swapper_bounded n s \<Longrightarrow> \<exists>s'. fst st' = Some s' \<and> swapper_bounded n s'"
proof (induction rule: rtranclp_induct)
  case (step y z)
  then show ?case using swapper_step_bounded by blast
qed blast

lemma removeAll_last: "distinct xs \<Longrightarrow> xs \<noteq> [] \<Longrightarrow> removeAll (last xs) xs = butlast xs"
proof (induction xs rule: rev_induct)
  case (snoc x xs)
  then show ?case by simp
qed simp

lemma evict_loop:
  assumes "ps_algorithm s = LRU" "lru_ok (lru_of s)" "set (lru_pages (lru_of s)) \<subseteq> fst ` set (page_info s)" "sm_wf m"
  shows "\<exists>k s' m'. swap_out_loop n c s (Some m) = Returns (c + k, s', Some m') \<and> k \<le> n \<and> sm_wf m'
    \<and> k \<le> length (lru_pages (lru_of s))
    \<and> lru_pages (lru_of s') = take (length (lru_pages (lru_of s)) - k) (lru_pages (lru_of s))
    \<and> swapped m' = (\<lambda>f. if f \<in> set (drop (length (lru_pages (lru_of s)) - k) (lru_pages (lru_of s)))
        then Some (replicate 4096 0) else swapped m f)
    \<and> (k = min n (length (lru_pages (lru_of s))) \<or> (\<exists>m1 e. sm_wf m1 \<and> swapped m1 = swapped m'
        \<and> swap_out_page m1 (last (lru_pages (lru_of s'))) (replicate 4096 0) = Some (Err e, m')))"
  using assms
proof (induction n arbitrary: c s m)
  case 0
  show ?case by (rule exI [of _ 0]) (use 0 in auto)
next
  case (Suc n)
  let ?ps = "lru_pages (lru_of s)"
  have sel: "select_victim_page s = Returns (lru_victim (lru_of s), s)" using Suc.prems(1) by (simp add: select_victim_page_def)
  have d: "distinct ?ps" using Suc.prems(2) by (simp add: lru_ok_def)
  show ?case
  proof (cases "?ps = []")
    case True
    show ?thesis by (rule exI [of _ 0]) (use sel True Suc.prems(4) in \<open>auto simp: lru_victim_def\<close>)
  next
    case False
    let ?v = "last ?ps"
    have v: "lru_victim (lru_of s) = Some ?v" using False by (simp add: lru_victim_def)
    have "?v \<in> fst ` set (page_info s)" using Suc.prems(3) False by (meson last_in_set subsetD)
    then obtain i where i: "map_of (page_info s) ?v = Some i" by (metis map_of_eq_None_iff not_Some_eq)
    have len: "length (replicate 4096 (0 :: u8)) = 4096" by simp
    consider (full) m1 e where "swap_out_page m ?v (replicate 4096 0) = Some (Err e, m1)" "sm_wf m1" "swapped m1 = swapped m"
      | (out) sl m1 where "swap_out_page m ?v (replicate 4096 0) = Some (Ok sl, m1)" "sm_wf m1"
          "swapped m1 = (swapped m)(?v \<mapsto> replicate 4096 0)"
      using swap_out_page_correct [OF Suc.prems(4) len, of ?v] Suc.prems(4) by blast
    then show ?thesis
    proof cases
      case full
      then have "swap_out_loop (Suc n) c s (Some m) = Returns (c + 0, s, Some m1)"
        using sel v i by (simp add: global_swap_out_page_def)
      moreover have "\<exists>m2 e. sm_wf m2 \<and> swapped m2 = swapped m1 \<and> swap_out_page m2 ?v (replicate 4096 0) = Some (Err e, m1)"
        using full Suc.prems(4) by (intro exI [of _ m]) auto
      ultimately show ?thesis using full(2,3) by (intro exI [of _ 0] exI [of _ s] exI [of _ m1]) auto
    next
      case out
      define s2 where "s2 = (remove_page_from_tracking s ?v)\<lparr>page_info := AList.delete ?v (page_info s),
        swapper_statistics := (swapper_statistics s)\<lparr>pages_swapped_out := pages_swapped_out (swapper_statistics s) + 1\<rparr>\<rparr>"
      have step: "swap_out_loop (Suc n) c s (Some m) = swap_out_loop n (c + 1) s2 (Some m1)"
        using sel v i out(1) by (simp add: global_swap_out_page_def s2_def Let_def remove_page_from_tracking_def)
      have lru2: "lru_of s2 = lru_remove (lru_of s) ?v" "ps_algorithm s2 = LRU"
        using Suc.prems(1) by (simp_all add: s2_def remove_page_from_tracking_def)
      have ps2: "lru_pages (lru_of s2) = butlast ?ps"
        using lru_remove_eq [OF Suc.prems(2), of ?v] removeAll_last [OF d False] by (simp add: lru2)
      have ok2: "lru_ok (lru_of s2)" using lru_remove_ok [OF Suc.prems(2)] by (simp add: lru2)
      have sub: "set (butlast ?ps) \<subseteq> fst ` set (page_info s2)"
      proof
        fix f assume f: "f \<in> set (butlast ?ps)"
        then have "f \<in> set (removeAll ?v ?ps)" using removeAll_last [OF d False] by simp
        then have "f \<noteq> ?v" by simp
        moreover have "f \<in> fst ` set (page_info s)" using f Suc.prems(3) by (meson in_set_butlastD subsetD)
        ultimately show "f \<in> fst ` set (page_info s2)" by (simp add: s2_def delete_keys flip: set_map)
      qed
      obtain k s' m' where IH: "swap_out_loop n (c + 1) s2 (Some m1) = Returns (c + 1 + k, s', Some m')" "k \<le> n" "sm_wf m'"
        "k \<le> length (butlast ?ps)" "lru_pages (lru_of s') = take (length (butlast ?ps) - k) (butlast ?ps)"
        "swapped m' = (\<lambda>f. if f \<in> set (drop (length (butlast ?ps) - k) (butlast ?ps)) then Some (replicate 4096 0) else swapped m1 f)"
        "k = min n (length (butlast ?ps)) \<or> (\<exists>m2 e. sm_wf m2 \<and> swapped m2 = swapped m'
          \<and> swap_out_page m2 (last (lru_pages (lru_of s'))) (replicate 4096 0) = Some (Err e, m'))"
        using Suc.IH [OF lru2(2) ok2 _ out(2), of "c + 1", unfolded ps2, OF sub] by blast
      have cut: "length ?ps - Suc k = length (butlast ?ps) - k" "Suc k \<le> length ?ps" 
      proof -
        have "0 < length ?ps" using False by simp
        with IH(4) show "length ?ps - Suc k = length (butlast ?ps) - k" "Suc k \<le> length ?ps"
          unfolding length_butlast by linarith+
      qed
      have app: "?ps = butlast ?ps @ [?v]" using False by simp
      have "drop (length ?ps - Suc k) ?ps = drop (length (butlast ?ps) - k) (butlast ?ps) @ [?v]"
        unfolding cut by (subst app) simp
      then have "set (drop (length ?ps - Suc k) ?ps) = insert ?v (set (drop (length (butlast ?ps) - k) (butlast ?ps)))" by simp
      moreover have "take (length ?ps - Suc k) ?ps = take (length (butlast ?ps) - k) (butlast ?ps)"
        unfolding cut by (subst app) simp
      moreover have "k = min n (length (butlast ?ps)) \<Longrightarrow> Suc k = min (Suc n) (length ?ps)"
        using False by (cases ?ps rule: rev_cases) auto
      ultimately show ?thesis
        using IH cut(2) step out(3) by (intro exI [of _ "Suc k"] exI [of _ s'] exI [of _ m']) (auto simp: fun_eq_iff)
    qed
  qed
qed

section \<open>Properties\<close>

text \<open>
  C26: the tracker of least recently used pages keeps what its name says. Whatever pages are accessed,
  in whatever order, the pages tracked afterwards are the most recently accessed ones, without
  repetition, the latest first, as many as fit; the page it proposes to give up is the one of them
  whose last access is the longest ago. The table of positions that the tracker maintains beside
  the queue names, for each page, its place in the queue.
\<close>

theorem lru_tracks_recent:
  "let r = fold (\<lambda>f r. lru_access r f) fs (lru_new n) in
     lru_pages r = take n (rev (remdups fs))
   \<and> lru_victim r = (if n = 0 \<or> fs = [] then None else Some (last (take n (rev (remdups fs)))))
   \<and> page_positions r = index_map (lru_pages r)"
  using lru_accesses [of fs n] by (auto simp: lru_victim_def lru_ok_def)

text \<open>
  C38: the clock runs off its pages. After twice as many different pages have been accessed as the
  clock can track, every page is marked as referenced and the hand stands behind the last page;
  looking for a page to give up then clears all marks, comes back to where it started, and reads
  the page behind the last one: the kernel panics.
\<close>

theorem clock_victim_panics:
  assumes "distinct fs" "length fs = 2 * n" "0 < n"
  shows "\<exists>c. clock_accesses fs (clock_new n) = Returns c \<and> clock_victim c = Panics"
proof -
  let ?as = "take n fs" and ?bs = "drop n fs"
  have "clock_accesses (?as @ ?bs) (clock_new n) =
      Returns \<lparr>clock_pages = marked True ?bs @ marked False (drop (length ?bs) ?as), clock_hand = length ?bs, clock_max_pages = n\<rparr>"
    using assms by (intro clock_refill) auto
  then have "clock_accesses fs (clock_new n) = Returns \<lparr>clock_pages = marked True ?bs, clock_hand = n, clock_max_pages = n\<rparr>"
    using assms(2) by simp
  moreover have "clock_scan (length ([] @ ?bs)) (marked False [] @ marked True ?bs) n = Panics"
    using assms by (intro clock_scan_end) (auto simp: hand_at_def)
  moreover have "marked True ?bs \<noteq> []" using assms by (cases ?bs) auto
  ultimately show ?thesis using assms(2) by (simp add: clock_victim_def)
qed

theorem clock_victim_panics_witness:
  "\<exists>c. clock_accesses [1, 2, 3, 4] (clock_new 2) = Returns c \<and> clock_victim c = Panics"
  using clock_victim_panics [of "[1, 2, 3, 4]" 2] by simp

text \<open>
  Memory pressure is never noticed. A swapper starts with its threshold equal to the number of
  pages its trackers can hold, and none of the three trackers ever holds more: however pages
  are accessed, fault or are swapped, and however the algorithms are switched, a check for memory
  pressure finds none and swaps nothing out, unless pages are chosen by frequency.
\<close>

theorem pressure_never_noticed:
  assumes "swapper_step\<^sup>*\<^sup>* (snd (init_page_swapper st0 alg n)) (Some s, g)" "ps_algorithm s \<noteq> LFU"
  shows "check_memory_pressure (Some s, g) = Returns (Ok 0, (Some s, g))"
proof -
  from swapper_steps_bounded [OF assms(1) _ swapper_new_bounded] have b: "swapper_bounded n s"
    by (auto simp: init_page_swapper_def)
  then have "\<not> get_current_page_count s > memory_pressure_threshold s"
    using assms(2) by (cases "ps_algorithm s")
      (auto simp: swapper_bounded_def get_current_page_count_def lru_page_count_def fifo_page_count_def clock_page_count_def lru_ok_def)
  then show ?thesis by (simp add: check_memory_pressure_def swapper_check_pressure_def)
qed

theorem pressure_never_noticed_witness:
  "check_memory_pressure (Some (page_swapper_new LRU 2), None) = Returns (Ok 0, (Some (page_swapper_new LRU 2), None))"
  by (rule pressure_never_noticed [of "(None, None)" LRU 2])
    (simp_all add: init_page_swapper_def page_swapper_new_def)

text \<open>
  C27: swapping out gives up the least recently used pages first. With a well-formed swap space the
  call returns, and the pages that left the tracker are those at its old end, as many as the
  call reports, at most as many as were asked for; they are in swap afterwards, what was there
  before is unchanged, and the other pages stay tracked. Fewer than were asked for, with pages
  left, are swapped out only where the swap space refuses the next one. What is written for them
  is a page of zeros.
\<close>

theorem swap_out_least_recent:
  assumes "ps_algorithm s = LRU" "lru_ok (lru_of s)" "set (lru_pages (lru_of s)) \<subseteq> fst ` set (page_info s)" "sm_wf m"
  shows "\<exists>k s' m'. swap_out_pages (Some s, Some m) n = Returns (Ok k, (Some s', Some m')) \<and> k \<le> n \<and> sm_wf m'
    \<and> lru_pages (lru_of s') = take (length (lru_pages (lru_of s)) - k) (lru_pages (lru_of s))
    \<and> swapped m' = (\<lambda>f. if f \<in> set (drop (length (lru_pages (lru_of s)) - k) (lru_pages (lru_of s)))
        then Some (replicate 4096 0) else swapped m f)
    \<and> k \<le> length (lru_pages (lru_of s))
    \<and> (k = min n (length (lru_pages (lru_of s))) \<or> (\<exists>m1 e. sm_wf m1 \<and> swapped m1 = swapped m'
        \<and> swap_out_page m1 (last (lru_pages (lru_of s'))) (replicate 4096 0) = Some (Err e, m')))"
  using evict_loop [OF assms, of n 0] by (auto simp: swap_out_pages_def swapper_swap_out_def)

theorem swap_out_least_recent_witness:
  "\<exists>k s' m'. swap_out_pages (Some demo_swapper, Some demo_swap) 1 = Returns (Ok k, (Some s', Some m')) \<and> k \<le> 1
     \<and> lru_pages (lru_of s') = take (2 - k) [7, 5]"
proof -
  have pages: "lru_pages (lru_of demo_swapper) = [7, 5]" by (simp add: demo_swapper_def)
  have "ps_algorithm demo_swapper = LRU" "lru_ok (lru_of demo_swapper)"
    "set (lru_pages (lru_of demo_swapper)) \<subseteq> fst ` set (page_info demo_swapper)"
    by (simp_all add: demo_swapper_def lru_ok_def page_swapper_new_def)
  from swap_out_least_recent [OF this demo_swap_wf(1), of 1] show ?thesis unfolding pages by (auto simp: numeral_2_eq_2)
qed

end
