(* ===== verification/Kernel_Heap.thy ===== *)
theory Kernel_Heap
  imports Phys_Mem
begin

text \<open>
  The kernel heap of \<^verbatim>\<open>kernel/src/memory/heap.rs\<close>: blocks laid out one after another, each
  behind a 40-byte header, the free ones on a doubly linked list. Addresses are 64-bit words, and
  the memory is a store of headers that the operations read and write through addresses. The
  bytes of the areas handed out are not part of it: a client is taken to write inside its own
  areas only. The fields and fill patterns of debug builds are left out.
\<close>

section \<open>Blocks\<close>

record block_header =
  bh_magic :: u32
  bh_size :: usize
  bh_next :: "usize option"
  bh_prev :: "usize option"
  bh_is_free :: bool

definition HEADER_SIZE :: usize where
  "HEADER_SIZE = 40"

definition MIN_ALLOC_SIZE :: usize where
  "MIN_ALLOC_SIZE = 16"

definition MAX_ALLOC_SIZE :: usize where
  "MAX_ALLOC_SIZE = 1024 * 1024"

definition HEAP_MAGIC :: u32 where
  "HEAP_MAGIC = 0xDEADBEEF"

definition block_header_new :: "usize \<Rightarrow> block_header" where
  "block_header_new sz =
     \<lparr>bh_magic = HEAP_MAGIC, bh_size = sz, bh_next = None, bh_prev = None, bh_is_free = True\<rparr>"

definition data_ptr :: "usize \<Rightarrow> usize" where
  "data_ptr block = block + HEADER_SIZE"

definition from_data_ptr :: "usize \<Rightarrow> usize" where
  "from_data_ptr p = p - HEADER_SIZE"

definition block_is_valid :: "block_header \<Rightarrow> bool" where
  "block_is_valid b \<longleftrightarrow> bh_magic b = HEAP_MAGIC"

definition block_total_size :: "block_header \<Rightarrow> usize" where
  "block_total_size b = HEADER_SIZE + bh_size b"

text \<open>\<^verbatim>\<open>NonNull::new\<close>.\<close>

definition non_null :: "usize \<Rightarrow> usize option" where
  "non_null p = (if p = 0 then None else Some p)"

section \<open>The allocator\<close>

record allocation_stats =
  as_total_allocations :: u64
  as_total_deallocations :: u64
  as_current_allocations :: u64
  as_bytes_allocated :: usize
  as_bytes_deallocated :: usize
  as_current_bytes :: usize
  as_peak_bytes :: usize
  as_heap_size :: usize
  as_free_bytes :: usize

definition allocation_stats_new :: allocation_stats where
  "allocation_stats_new =
     \<lparr>as_total_allocations = 0, as_total_deallocations = 0, as_current_allocations = 0,
      as_bytes_allocated = 0, as_bytes_deallocated = 0, as_current_bytes = 0, as_peak_bytes = 0,
      as_heap_size = 0, as_free_bytes = 0\<rparr>"

text \<open>
  The memory is part of the state: \<open>heap_mem h a\<close> is the header that a read at address \<open>a\<close> gives.
\<close>

record kernel_heap =
  heap_start :: usize
  heap_size :: usize
  free_list_head :: "usize option"
  heap_stats :: allocation_stats
  heap_mem :: "usize \<Rightarrow> block_header"

definition kernel_heap_new :: "(usize \<Rightarrow> block_header) \<Rightarrow> kernel_heap" where
  "kernel_heap_new m =
     \<lparr>heap_start = 0, heap_size = 0, free_list_head = None, heap_stats = allocation_stats_new,
      heap_mem = m\<rparr>"

text \<open>A change of the header at an address.\<close>

definition write_block :: "usize \<Rightarrow> (block_header \<Rightarrow> block_header) \<Rightarrow> kernel_heap \<Rightarrow> kernel_heap" where
  "write_block b f h = h\<lparr>heap_mem := (heap_mem h)(b := f (heap_mem h b))\<rparr>"

text \<open>Memory that \<^verbatim>\<open>ptr::write_bytes\<close> has filled with zeros, in the range it is given.\<close>

definition zero_header :: block_header where
  "zero_header = \<lparr>bh_magic = 0, bh_size = 0, bh_next = None, bh_prev = None, bh_is_free = False\<rparr>"

definition zero_memory :: "usize \<Rightarrow> usize \<Rightarrow> (usize \<Rightarrow> block_header) \<Rightarrow> usize \<Rightarrow> block_header" where
  "zero_memory start sz m = (\<lambda>a. if a - start < sz then zero_header else m a)"

definition heap_init ::
    "nat \<Rightarrow> phys_mem option \<Rightarrow> kernel_heap \<Rightarrow> (unit, string) result \<times> phys_mem option \<times> kernel_heap" where
  "heap_init heap_size_pages g h =
     (if heap_size_pages = 0 then (Err ''Heap size cannot be zero'', g, h)
      else case global_allocate_frames g heap_size_pages of
        (None, g') \<Rightarrow> (Err ''Failed to allocate physical memory for heap'', g', h)
      | (Some start_frame, g') \<Rightarrow>
          let start = frame_address start_frame;
              sz = of_nat heap_size_pages * PAGE_SIZE;
              initial_size = sz - HEADER_SIZE;
              m = (zero_memory start sz (heap_mem h))(start := block_header_new initial_size)
          in (Ok (), g',
              h\<lparr>heap_mem := m, heap_start := start, heap_size := sz,
                free_list_head := non_null start,
                heap_stats := (heap_stats h)\<lparr>as_heap_size := sz, as_free_bytes := initial_size\<rparr>\<rparr>))"

section \<open>The free list\<close>

definition add_to_free_list :: "usize \<Rightarrow> kernel_heap \<Rightarrow> kernel_heap" where
  "add_to_free_list block h =
     (let h1 = write_block block (\<lambda>b. b\<lparr>bh_next := free_list_head h, bh_prev := None\<rparr>) h;
          h2 = (case free_list_head h1 of
                  Some head \<Rightarrow> write_block head (\<lambda>b. b\<lparr>bh_prev := Some block\<rparr>) h1
                | None \<Rightarrow> h1)
      in h2\<lparr>free_list_head := Some block\<rparr>)"

definition remove_from_free_list :: "usize \<Rightarrow> kernel_heap \<Rightarrow> kernel_heap" where
  "remove_from_free_list block h =
     (let h1 = (case bh_prev (heap_mem h block) of
                  Some prev \<Rightarrow> write_block prev (\<lambda>b. b\<lparr>bh_next := bh_next (heap_mem h block)\<rparr>) h
                | None \<Rightarrow> h\<lparr>free_list_head := bh_next (heap_mem h block)\<rparr>);
          h2 = (case bh_next (heap_mem h1 block) of
                  Some nxt \<Rightarrow> write_block nxt (\<lambda>b. b\<lparr>bh_prev := bh_prev (heap_mem h1 block)\<rparr>) h1
                | None \<Rightarrow> h1)
      in write_block block (\<lambda>b. b\<lparr>bh_next := None, bh_prev := None\<rparr>) h2)"

definition block_fits :: "usize \<Rightarrow> usize \<Rightarrow> block_header \<Rightarrow> bool" where
  "block_fits sz block b \<longleftrightarrow>
     bh_is_free b \<and> sz \<le> bh_size b \<and>
     sz + (align_up (data_ptr block) - data_ptr block) \<le> bh_size b"

text \<open>A search that follows a cycle does not return; the function is then \<^term>\<open>None\<close>.\<close>

partial_function (option) find_free_block ::
    "(usize \<Rightarrow> block_header) \<Rightarrow> usize \<Rightarrow> usize option \<Rightarrow> (usize, string) result option" where
  "find_free_block m sz current =
     (case current of
        None \<Rightarrow> Some (Err ''Out of memory'')
      | Some block \<Rightarrow>
          if block_fits sz block (m block) then Some (Ok block)
          else find_free_block m sz (bh_next (m block)))"

definition split_block :: "usize \<Rightarrow> usize \<Rightarrow> kernel_heap \<Rightarrow> kernel_heap" where
  "split_block block needed_size h =
     (let total_size = bh_size (heap_mem h block) in
      if needed_size + HEADER_SIZE + MIN_ALLOC_SIZE \<le> total_size
      then let remaining_size = total_size - needed_size - HEADER_SIZE;
               new_block = data_ptr block + needed_size;
               h1 = write_block new_block (\<lambda>_. block_header_new remaining_size) h;
               h2 = write_block block (\<lambda>b. b\<lparr>bh_size := needed_size\<rparr>) h1
           in add_to_free_list new_block h2
      else h)"

definition coalesce_free_blocks :: "usize \<Rightarrow> kernel_heap \<Rightarrow> kernel_heap" where
  "coalesce_free_blocks block h = h"

section \<open>Allocating and freeing\<close>

definition count_allocation :: "usize \<Rightarrow> allocation_stats \<Rightarrow> allocation_stats" where
  "count_allocation sz s =
     (let current = as_current_bytes s + sz in
      s\<lparr>as_total_allocations := as_total_allocations s + 1,
        as_current_allocations := as_current_allocations s + 1,
        as_bytes_allocated := as_bytes_allocated s + sz,
        as_current_bytes := current,
        as_free_bytes := as_free_bytes s - sz,
        as_peak_bytes := (if as_peak_bytes s < current then current else as_peak_bytes s)\<rparr>)"

definition count_deallocation :: "usize \<Rightarrow> allocation_stats \<Rightarrow> allocation_stats" where
  "count_deallocation sz s =
     s\<lparr>as_total_deallocations := as_total_deallocations s + 1,
       as_current_allocations := as_current_allocations s - 1,
       as_bytes_deallocated := as_bytes_deallocated s + sz,
       as_current_bytes := as_current_bytes s - sz,
       as_free_bytes := as_free_bytes s + sz\<rparr>"

text \<open>The layout is a size and an alignment.\<close>

definition heap_allocate ::
    "usize \<times> usize \<Rightarrow> kernel_heap \<Rightarrow> ((usize, string) result \<times> kernel_heap) option" where
  "heap_allocate layout h =
     (let sz = max (fst layout) MIN_ALLOC_SIZE in
      if MAX_ALLOC_SIZE < sz then Some (Err ''Allocation too large'', h)
      else case find_free_block (heap_mem h) sz (free_list_head h) of
        None \<Rightarrow> None
      | Some (Err e) \<Rightarrow> Some (Err e, h)
      | Some (Ok block) \<Rightarrow>
          let h1 = split_block block sz h;
              h2 = write_block block (\<lambda>b. b\<lparr>bh_is_free := False\<rparr>) h1;
              h3 = remove_from_free_list block h2
          in Some (Ok (data_ptr block), h3\<lparr>heap_stats := count_allocation sz (heap_stats h3)\<rparr>))"

definition heap_deallocate :: "usize \<Rightarrow> kernel_heap \<Rightarrow> (unit, string) result \<times> kernel_heap" where
  "heap_deallocate p h =
     (case non_null (from_data_ptr p) of
        None \<Rightarrow> (Err ''Invalid pointer'', h)
      | Some block \<Rightarrow>
          if \<not> block_is_valid (heap_mem h block)
          then (Err ''Heap corruption detected: invalid magic number'', h)
          else if bh_is_free (heap_mem h block) then (Err ''Double free detected'', h)
          else let sz = bh_size (heap_mem h block);
                   h1 = write_block block (\<lambda>b. b\<lparr>bh_is_free := True\<rparr>) h;
                   h2 = h1\<lparr>heap_stats := count_deallocation sz (heap_stats h1)\<rparr>
               in (Ok (), coalesce_free_blocks block (add_to_free_list block h2)))"

section \<open>Validation\<close>

fun validate_from :: "nat \<Rightarrow> kernel_heap \<Rightarrow> usize option \<Rightarrow> (unit, string) result" where
  "validate_from left h None = Ok ()"
| "validate_from left h (Some block) =
     (let b = heap_mem h block;
          block_end = block + block_total_size b;
          heap_end = heap_start h + heap_size h
      in if \<not> block_is_valid b then Err ''Heap corruption: invalid magic number''
         else if \<not> bh_is_free b then Err ''Heap corruption: non-free block in free list''
         else if block < heap_start h \<or> heap_end < block_end
         then Err ''Heap corruption: block outside heap bounds''
         else case left of
                0 \<Rightarrow> Err ''Heap corruption: possible circular free list''
              | Suc left' \<Rightarrow> validate_from left' h (bh_next b))"

definition validate_heap :: "kernel_heap \<Rightarrow> (unit, string) result" where
  "validate_heap h = validate_from 10000 h (free_list_head h)"

section \<open>The global allocator\<close>

definition global_alloc :: "usize \<times> usize \<Rightarrow> kernel_heap \<Rightarrow> (usize \<times> kernel_heap) option" where
  "global_alloc layout h =
     (case heap_allocate layout h of
        None \<Rightarrow> None
      | Some (Ok p, h') \<Rightarrow> Some (p, h')
      | Some (Err _, h') \<Rightarrow> Some (0, h'))"

definition global_dealloc :: "usize \<Rightarrow> usize \<times> usize \<Rightarrow> kernel_heap \<Rightarrow> kernel_heap" where
  "global_dealloc p layout h =
     (case non_null p of None \<Rightarrow> h | Some p \<Rightarrow> snd (heap_deallocate p h))"

definition init_kernel_heap ::
    "nat \<Rightarrow> phys_mem option \<Rightarrow> kernel_heap \<Rightarrow> (unit, string) result \<times> phys_mem option \<times> kernel_heap" where
  "init_kernel_heap heap_size_pages g h = heap_init heap_size_pages g h"

definition heap_stats_of :: "kernel_heap \<Rightarrow> allocation_stats" where
  "heap_stats_of h = heap_stats h"

section \<open>Well-formed heaps and runs\<close>

definition block_end :: "(usize \<Rightarrow> block_header) \<Rightarrow> usize \<Rightarrow> nat" where
  "block_end m b = unat b + 40 + unat (bh_size (m b))"

text \<open>The blocks: valid headers within the bounds whose extents do not overlap.\<close>

definition blocks_ok :: "(usize \<Rightarrow> block_header) \<Rightarrow> usize set \<Rightarrow> nat \<Rightarrow> nat \<Rightarrow> bool" where
  "blocks_ok m B lo hi \<longleftrightarrow> finite B \<and> hi < 2 ^ 64 \<and>
     (\<forall>b\<in>B. bh_magic (m b) = HEAP_MAGIC \<and> lo \<le> unat b \<and> 0 < unat b \<and> block_end m b \<le> hi) \<and>
     (\<forall>b\<in>B. \<forall>c\<in>B. b \<noteq> c \<longrightarrow> block_end m b \<le> unat c \<or> block_end m c \<le> unat b)"

text \<open>The list that starts at a given block, its links in both directions agreeing.\<close>

fun linked :: "(usize \<Rightarrow> block_header) \<Rightarrow> usize option \<Rightarrow> usize option \<Rightarrow> usize list \<Rightarrow> bool" where
  "linked m p h [] \<longleftrightarrow> h = None"
| "linked m p h (b # bs) \<longleftrightarrow> h = Some b \<and> bh_prev (m b) = p \<and> linked m (Some b) (bh_next (m b)) bs"

text \<open>The headers, the free list, and that the list holds the free blocks.\<close>

definition heap_shape :: "kernel_heap \<Rightarrow> usize set \<Rightarrow> usize list \<Rightarrow> bool" where
  "heap_shape h B fs \<longleftrightarrow>
     blocks_ok (heap_mem h) B (unat (heap_start h)) (unat (heap_start h) + unat (heap_size h)) \<and>
     (\<Sum>b\<in>B. 40 + unat (bh_size (heap_mem h b))) = unat (heap_size h) \<and>
     linked (heap_mem h) None (free_list_head h) fs \<and> distinct fs \<and> set fs \<subseteq> B"

definition heap_wf :: "kernel_heap \<Rightarrow> usize set \<Rightarrow> usize list \<Rightarrow> bool" where
  "heap_wf h B fs \<longleftrightarrow> heap_shape h B fs \<and> set fs = {b \<in> B. bh_is_free (heap_mem h b)}"

text \<open>
  A step of a client: a request, or the return of a pointer it holds. The client's pointers are
  kept with the sizes requested.
\<close>

inductive heap_step ::
    "kernel_heap \<times> (usize \<times> usize) list \<Rightarrow> kernel_heap \<times> (usize \<times> usize) list \<Rightarrow> bool" where
  step_alloc: "heap_allocate (sz, align) h = Some (Ok p, h') \<Longrightarrow>
     heap_step (h, live) (h', (p, sz) # live)"
| step_refused: "heap_allocate (sz, align) h = Some (Err e, h') \<Longrightarrow> heap_step (h, live) (h', live)"
| step_free: "(p, sz) \<in> set live \<Longrightarrow> heap_deallocate p h = (Ok (), h') \<Longrightarrow>
     heap_step (h, live) (h', remove1 (p, sz) live)"

text \<open>A heap just initialised on frames that the frame allocator had free.\<close>

definition fresh_heap :: "nat \<Rightarrow> kernel_heap \<Rightarrow> bool" where
  "fresh_heap n h \<longleftrightarrow> (\<exists>m mem g'. pm_wf m \<and> total_frames m < 2 ^ 52 \<and> \<not> is_frame_free m 0 \<and>
     init_kernel_heap n (Some m) (kernel_heap_new mem) = (Ok (), g', h))"

text \<open>What a client relies on: its pointers are the used blocks, each as large as it asked for.\<close>

definition heap_inv :: "kernel_heap \<times> (usize \<times> usize) list \<Rightarrow> usize set \<Rightarrow> usize list \<Rightarrow> bool" where
  "heap_inv s B fs \<longleftrightarrow> heap_wf (fst s) B fs \<and> distinct (map fst (snd s)) \<and>
     fst ` set (snd s) = data_ptr ` {b \<in> B. \<not> bh_is_free (heap_mem (fst s) b)} \<and>
     (\<forall>(p, sz) \<in> set (snd s). sz \<le> bh_size (heap_mem (fst s) (from_data_ptr p)))"

definition splits :: "usize \<Rightarrow> usize \<Rightarrow> kernel_heap \<Rightarrow> bool" where
  "splits b n h \<longleftrightarrow> n + HEADER_SIZE + MIN_ALLOC_SIZE \<le> bh_size (heap_mem h b)"

definition demo_heap :: kernel_heap where
  "demo_heap = snd (snd (init_kernel_heap 2 (Some demo_mem) (kernel_heap_new (\<lambda>_. zero_header))))"

definition demo_heap1 :: kernel_heap where
  "demo_heap1 = demo_heap\<lparr>heap_mem := (heap_mem demo_heap)
      (0x3000 := (block_header_new 4016)\<lparr>bh_is_free := False\<rparr>, 0x3FD8 := block_header_new 4096),
    free_list_head := Some 0x3FD8, heap_stats := count_allocation 4016 (heap_stats demo_heap)\<rparr>"

definition demo_heap2 :: kernel_heap where
  "demo_heap2 = demo_heap1\<lparr>heap_mem := (heap_mem demo_heap1)
      (0x3FD8 := (block_header_new 4096)\<lparr>bh_is_free := False\<rparr>),
    free_list_head := None, heap_stats := count_allocation 4090 (heap_stats demo_heap1)\<rparr>"

section \<open>Following the free list\<close>

lemma find_free_block_linked:
  "linked m p h fs \<Longrightarrow> find_free_block m sz h =
     Some (case find (\<lambda>b. block_fits sz b (m b)) fs of Some b \<Rightarrow> Ok b | None \<Rightarrow> Err ''Out of memory'')"
  by (induction fs arbitrary: p h) (auto simp: find_free_block.simps)

lemma linked_cong:
  "\<forall>b\<in>set bs. bh_next (m' b) = bh_next (m b) \<and> bh_prev (m' b) = bh_prev (m b) \<Longrightarrow>
     linked m' p h bs = linked m p h bs"
  by (induction bs arbitrary: p h) auto

lemma linked_unlink:
  assumes "linked m p h (xs @ b # ys)" "distinct (xs @ b # ys)"
    "\<And>c. c \<in> set (xs @ ys) \<Longrightarrow> bh_next (m' c) =
       (if xs \<noteq> [] \<and> c = last xs then bh_next (m b) else bh_next (m c))"
    "\<And>c. c \<in> set (xs @ ys) \<Longrightarrow> bh_prev (m' c) =
       (if ys \<noteq> [] \<and> c = hd ys then bh_prev (m b) else bh_prev (m c))"
  shows "linked m' p (if xs = [] then bh_next (m b) else h) (xs @ ys)"
  using assms
proof (induction xs arbitrary: p h)
  case Nil
  show ?case
  proof (cases ys)
    case Nil
    with Nil.prems(1) show ?thesis by simp
  next
    case (Cons y zs)
    have "linked m' (Some y) (bh_next (m y)) zs = linked m (Some y) (bh_next (m y)) zs"
      using Nil.prems(2-4) Cons by (intro linked_cong) auto
    with Nil.prems Cons show ?thesis by auto
  qed
next
  case (Cons x xs)
  have "linked m' (Some x) (if xs = [] then bh_next (m b) else bh_next (m x)) (xs @ ys)"
    using Cons.prems by (intro Cons.IH) auto
  moreover have "bh_next (m' x) = (if xs = [] then bh_next (m b) else bh_next (m x))"
    using Cons.prems(2) Cons.prems(3) [of x] by auto
  moreover have "bh_prev (m' x) = bh_prev (m x)"
    using Cons.prems(2) Cons.prems(4) [of x] by (cases ys) auto
  ultimately show ?case using Cons.prems(1) by simp
qed

lemma linked_neighbours:
  "linked m p h (xs @ b # ys) \<Longrightarrow>
     bh_prev (m b) = (if xs = [] then p else Some (last xs)) \<and>
     bh_next (m b) = (if ys = [] then None else Some (hd ys)) \<and>
     (xs = [] \<longrightarrow> h = Some b)"
proof (induction xs arbitrary: p h)
  case Nil
  then show ?case by (cases ys) auto
next
  case (Cons x xs)
  then have "linked m (Some x) (bh_next (m x)) (xs @ b # ys)" by simp
  from Cons.IH [OF this] show ?case by (cases "xs = []") simp_all
qed

section \<open>What the operations change\<close>

lemma write_block_fields [simp]:
  "heap_mem (write_block b f h) = (heap_mem h)(b := f (heap_mem h b))"
  "heap_start (write_block b f h) = heap_start h"
  "heap_size (write_block b f h) = heap_size h"
  "free_list_head (write_block b f h) = free_list_head h"
  "heap_stats (write_block b f h) = heap_stats h"
  by (simp_all add: write_block_def)

lemma add_to_free_list_fields [simp]:
  "heap_start (add_to_free_list b h) = heap_start h"
  "heap_size (add_to_free_list b h) = heap_size h"
  "heap_stats (add_to_free_list b h) = heap_stats h"
  "free_list_head (add_to_free_list b h) = Some b"
  "bh_magic (heap_mem (add_to_free_list b h) c) = bh_magic (heap_mem h c)"
  "bh_size (heap_mem (add_to_free_list b h) c) = bh_size (heap_mem h c)"
  "bh_is_free (heap_mem (add_to_free_list b h) c) = bh_is_free (heap_mem h c)"
  by (simp_all add: add_to_free_list_def Let_def split: option.split)

lemma remove_from_free_list_fields [simp]:
  "heap_start (remove_from_free_list b h) = heap_start h"
  "heap_size (remove_from_free_list b h) = heap_size h"
  "heap_stats (remove_from_free_list b h) = heap_stats h"
  "bh_magic (heap_mem (remove_from_free_list b h) c) = bh_magic (heap_mem h c)"
  "bh_size (heap_mem (remove_from_free_list b h) c) = bh_size (heap_mem h c)"
  "bh_is_free (heap_mem (remove_from_free_list b h) c) = bh_is_free (heap_mem h c)"
  by (simp_all add: remove_from_free_list_def Let_def split: option.split)

lemma add_to_free_list_linked:
  assumes "linked (heap_mem h) None (free_list_head h) fs" "distinct (b # fs)"
  shows "linked (heap_mem (add_to_free_list b h)) None (Some b) (b # fs)"
proof (cases fs)
  case Nil
  with assms show ?thesis by (simp add: add_to_free_list_def Let_def)
next
  case (Cons x xs)
  let ?m = "heap_mem (add_to_free_list b h)"
  have "linked ?m (Some x) (bh_next (heap_mem h x)) xs = linked (heap_mem h) (Some x) (bh_next (heap_mem h x)) xs"
    using assms Cons by (intro linked_cong) (auto simp: add_to_free_list_def Let_def)
  with assms Cons show ?thesis by (auto simp: add_to_free_list_def Let_def)
qed

lemma remove_from_free_list_links:
  assumes "c \<noteq> b" "bh_prev (heap_mem h b) \<noteq> Some b" "bh_next (heap_mem h b) \<noteq> Some b"
  shows "bh_next (heap_mem (remove_from_free_list b h) c) =
      (if bh_prev (heap_mem h b) = Some c then bh_next (heap_mem h b) else bh_next (heap_mem h c))"
    and "bh_prev (heap_mem (remove_from_free_list b h) c) =
      (if bh_next (heap_mem h b) = Some c then bh_prev (heap_mem h b) else bh_prev (heap_mem h c))"
  using assms
  by (cases "bh_prev (heap_mem h b)"; cases "bh_next (heap_mem h b)";
      simp add: remove_from_free_list_def Let_def)+

lemma remove_from_free_list_head:
  "free_list_head (remove_from_free_list b h) =
     (if bh_prev (heap_mem h b) = None then bh_next (heap_mem h b) else free_list_head h)"
  by (simp add: remove_from_free_list_def Let_def split: option.split)

lemma remove_from_free_list_linked:
  assumes l: "linked (heap_mem h) None (free_list_head h) (xs @ b # ys)" and d: "distinct (xs @ b # ys)"
  shows "linked (heap_mem (remove_from_free_list b h)) None
           (free_list_head (remove_from_free_list b h)) (xs @ ys)"
proof -
  note n = linked_neighbours [OF l]
  have ends: "xs \<noteq> [] \<Longrightarrow> last xs \<in> set xs" "ys \<noteq> [] \<Longrightarrow> hd ys \<in> set ys" by simp_all
  have self: "bh_prev (heap_mem h b) \<noteq> Some b" "bh_next (heap_mem h b) \<noteq> Some b"
    using n d ends by (cases "xs = []"; cases "ys = []"; force)+
  have "linked (heap_mem (remove_from_free_list b h)) None
      (if xs = [] then bh_next (heap_mem h b) else free_list_head h) (xs @ ys)"
  proof (rule linked_unlink [OF l d])
    fix c
    assume "c \<in> set (xs @ ys)"
    with d have "c \<noteq> b" by auto
    note links = remove_from_free_list_links [OF this self]
    show "bh_next (heap_mem (remove_from_free_list b h) c) =
        (if xs \<noteq> [] \<and> c = last xs then bh_next (heap_mem h b) else bh_next (heap_mem h c))"
      using n unfolding links(1) by (cases "xs = []") auto
    show "bh_prev (heap_mem (remove_from_free_list b h) c) =
        (if ys \<noteq> [] \<and> c = hd ys then bh_prev (heap_mem h b) else bh_prev (heap_mem h c))"
      using n unfolding links(2) by (cases "ys = []") auto
  qed
  moreover have "free_list_head (remove_from_free_list b h) =
      (if xs = [] then bh_next (heap_mem h b) else free_list_head h)"
    using n by (cases "xs = []") (simp_all add: remove_from_free_list_head)
  ultimately show ?thesis by simp
qed

section \<open>Blocks\<close>

lemma blocks_ok_cong:
  assumes "\<And>b. b \<in> B \<Longrightarrow> bh_magic (m' b) = bh_magic (m b) \<and> bh_size (m' b) = bh_size (m b)"
  shows "blocks_ok m' B lo hi = blocks_ok m B lo hi"
  using assms by (auto simp: blocks_ok_def block_end_def)

lemma blocks_ok_block:
  assumes "blocks_ok m B lo hi" "b \<in> B"
  shows "bh_magic (m b) = HEAP_MAGIC" "lo \<le> unat b" "b \<noteq> 0" "block_end m b \<le> hi" "hi < 2 ^ 64"
    "unat (data_ptr b) = unat b + 40"
proof -
  from assms show a: "bh_magic (m b) = HEAP_MAGIC" "lo \<le> unat b" "b \<noteq> 0" "block_end m b \<le> hi" "hi < 2 ^ 64"
    by (auto simp: blocks_ok_def)
  then show "unat (data_ptr b) = unat b + 40"
    by (simp add: data_ptr_def HEADER_SIZE_def block_end_def unat_word_ariths)
qed

lemma blocks_ok_apart:
  "blocks_ok m B lo hi \<Longrightarrow> b \<in> B \<Longrightarrow> c \<in> B \<Longrightarrow> b \<noteq> c \<Longrightarrow>
     block_end m b \<le> unat c \<or> block_end m c \<le> unat b"
  by (simp add: blocks_ok_def)

lemma unat_plus_small: "unat a + unat b < 2 ^ 64 \<Longrightarrow> unat (a + b :: usize) = unat a + unat b"
  by (simp add: unat_word_ariths)

text \<open>The block a split adds lies inside the block it splits.\<close>

lemma split_extents:
  assumes ok: "blocks_ok m B lo hi" and b: "b \<in> B"
    and fits: "n + HEADER_SIZE + MIN_ALLOC_SIZE \<le> bh_size (m b)" and n: "n \<le> MAX_ALLOC_SIZE"
  defines "c \<equiv> data_ptr b + n" and "r \<equiv> bh_size (m b) - n - HEADER_SIZE"
  shows "unat c = unat b + 40 + unat n" "unat r + 40 + unat n = unat (bh_size (m b))" "c \<notin> B"
proof -
  note [simp] = HEADER_SIZE_def MIN_ALLOC_SIZE_def
  have n': "unat n \<le> 1048576" using n by (simp add: word_le_nat_alt MAX_ALLOC_SIZE_def)
  then have "unat (n + 40 + 16) = unat n + 56" by (simp add: unat_word_ariths)
  with fits have s: "unat n + 56 \<le> unat (bh_size (m b))" by (simp add: word_le_nat_alt)
  note k = blocks_ok_block [OF ok b]
  have e: "unat b + 40 + unat (bh_size (m b)) < 2 ^ 64" using k(4,5) by (simp add: block_end_def)
  with s have "unat (data_ptr b) + unat n < 2 ^ 64" using k(6) by simp
  then show c: "unat c = unat b + 40 + unat n"
    unfolding c_def using k(6) by (simp add: unat_plus_small)
  have "n \<le> bh_size (m b)" using s by (simp add: word_le_nat_alt)
  then have "unat (bh_size (m b) - n) = unat (bh_size (m b)) - unat n"
    by (rule unat_sub)
  moreover from this s have "(40 :: usize) \<le> bh_size (m b) - n" by (simp add: word_le_nat_alt)
  ultimately have "unat r = unat (bh_size (m b)) - unat n - 40"
    unfolding r_def by (simp add: unat_sub)
  with s show "unat r + 40 + unat n = unat (bh_size (m b))" by linarith
  show "c \<notin> B"
  proof
    assume "c \<in> B"
    moreover have "c \<noteq> b" using c by auto
    ultimately show False
      using blocks_ok_apart [OF ok \<open>c \<in> B\<close> b] c s by (auto simp: block_end_def)
  qed
qed

lemma blocks_ok_split:
  assumes ok: "blocks_ok m B lo hi" and b: "b \<in> B"
    and fits: "n + HEADER_SIZE + MIN_ALLOC_SIZE \<le> bh_size (m b)" and n: "n \<le> MAX_ALLOC_SIZE"
    and c: "c = data_ptr b + n" and r: "r = bh_size (m b) - n - HEADER_SIZE"
    and m': "m' = m(c := block_header_new r, b := (m b)\<lparr>bh_size := n\<rparr>)"
  shows "blocks_ok m' (insert c B) lo hi"
proof -
  note s = split_extents [OF ok b fits n, folded c r]
  from s(3) b have cb: "c \<noteq> b" by auto
  have ends: "block_end m' b = unat c" "block_end m' c = block_end m b"
    "\<And>d. d \<noteq> b \<Longrightarrow> d \<noteq> c \<Longrightarrow> block_end m' d = block_end m d"
    using s cb by (simp_all add: m' block_end_def block_header_new_def)
  have le: "unat c \<le> block_end m b" using s by (simp add: block_end_def)
  have bc: "unat b \<le> unat c" using s by simp
  have apart: "block_end m' x \<le> unat y \<or> block_end m' y \<le> unat x"
    if "x \<in> insert c B" "y \<in> insert c B" "x \<noteq> y" for x y
    using that blocks_ok_apart [OF ok b, of x] blocks_ok_apart [OF ok b, of y]
      blocks_ok_apart [OF ok, of x y] ends(1,2) ends(3) [of x] ends(3) [of y] le bc b s(3)
    by (cases "x = b"; cases "x = c"; cases "y = b"; cases "y = c") auto
  have pos: "0 < unat c" using s(1) by simp
  have magic: "bh_magic (m' x) = HEAP_MAGIC" if "x \<in> insert c B" for x
    using that ok b by (auto simp: m' block_header_new_def blocks_ok_def)
  have valid: "lo \<le> unat x \<and> 0 < unat x \<and> block_end m' x \<le> hi" if "x \<in> insert c B" for x
    using that ok b bc le pos ends(1,2) ends(3) [of x] unfolding blocks_ok_def
    by (cases "x = c"; cases "x = b") auto
  show ?thesis
    using ok apart magic valid by (simp add: blocks_ok_def)
qed

section \<open>Allocation keeps the heap well formed\<close>

lemma split_shape:
  assumes sh: "heap_shape h B fs" and b: "b \<in> B" and n: "n \<le> MAX_ALLOC_SIZE"
  obtains B' fs' where "heap_shape (split_block b n h) B' fs'" "B \<subseteq> B'" "set fs' = set fs \<union> (B' - B)"
    "\<forall>c\<in>B' - B. bh_is_free (heap_mem (split_block b n h) c)"
    "\<forall>c\<in>B. bh_is_free (heap_mem (split_block b n h) c) = bh_is_free (heap_mem h c)"
    "\<forall>c\<in>B. bh_size (heap_mem (split_block b n h) c) =
       (if c = b \<and> splits b n h then n else bh_size (heap_mem h c))"
    "heap_start (split_block b n h) = heap_start h" "heap_size (split_block b n h) = heap_size h"
    "heap_stats (split_block b n h) = heap_stats h"
proof (cases "splits b n h")
  case False
  then have "split_block b n h = h" by (simp add: split_block_def splits_def)
  with sh False show thesis by (intro that [of B fs]) auto
next
  case True
  let ?m = "heap_mem h"
  let ?lo = "unat (heap_start h)" and ?hi = "unat (heap_start h) + unat (heap_size h)"
  define c where "c = data_ptr b + n"
  define r where "r = bh_size (?m b) - n - HEADER_SIZE"
  define m' where "m' = ?m(c := block_header_new r, b := (?m b)\<lparr>bh_size := n\<rparr>)"
  define h2 where "h2 = h\<lparr>heap_mem := m'\<rparr>"
  have ok: "blocks_ok ?m B ?lo ?hi" and lk: "linked ?m None (free_list_head h) fs"
    and d: "distinct fs" and sub: "set fs \<subseteq> B"
    and total: "(\<Sum>b\<in>B. 40 + unat (bh_size (?m b))) = unat (heap_size h)"
    using sh by (simp_all add: heap_shape_def)
  have fits: "n + HEADER_SIZE + MIN_ALLOC_SIZE \<le> bh_size (?m b)" using True by (simp add: splits_def)
  note s = split_extents [OF ok b fits n, folded c_def r_def]
  have cb: "c \<noteq> b" and fin: "finite B" using s(3) b ok by (auto simp: blocks_ok_def)
  have eq: "split_block b n h = add_to_free_list c h2"
    using fits cb by (simp add: split_block_def Let_def c_def r_def h2_def m'_def write_block_def)
  have ok': "blocks_ok m' (insert c B) ?lo ?hi"
    by (rule blocks_ok_split [OF ok b fits n c_def r_def m'_def])
  then have ok'': "blocks_ok (heap_mem (split_block b n h)) (insert c B) ?lo ?hi"
    by (subst blocks_ok_cong [of _ _ m']) (auto simp: eq h2_def)
  have "linked m' None (free_list_head h) fs = linked ?m None (free_list_head h) fs"
    using sub s(3) by (intro linked_cong) (auto simp: m'_def)
  then have lk': "linked (heap_mem (split_block b n h)) None (Some c) (c # fs)"
    unfolding eq using lk d sub s(3) by (intro add_to_free_list_linked) (auto simp: h2_def)
  have rest: "(\<Sum>x\<in>B - {b}. 40 + unat (bh_size (m' x))) = (\<Sum>x\<in>B - {b}. 40 + unat (bh_size (?m x)))"
    using s(3) by (intro sum.cong) (auto simp: m'_def)
  have "(\<Sum>x\<in>insert c B. 40 + unat (bh_size (m' x))) = unat (heap_size h)"
    using total rest s cb fin b
    by (simp add: sum.remove [of B b] m'_def block_header_new_def)
  then have "heap_shape (split_block b n h) (insert c B) (c # fs)"
    using ok'' lk' d sub s(3) by (auto simp: heap_shape_def eq h2_def)
  then show thesis
    using True s(3) b
    by (intro that [of "insert c B" "c # fs"]) (auto simp: eq h2_def m'_def block_header_new_def)
qed

lemma heap_shape_cong:
  assumes "heap_start h' = heap_start h" "heap_size h' = heap_size h"
    "\<And>c. c \<in> B \<Longrightarrow> bh_magic (heap_mem h' c) = bh_magic (heap_mem h c) \<and>
       bh_size (heap_mem h' c) = bh_size (heap_mem h c)"
    "linked (heap_mem h') None (free_list_head h') fs'" "distinct fs'" "set fs' \<subseteq> B"
    "heap_shape h B fs"
  shows "heap_shape h' B fs'"
proof -
  have "(\<Sum>b\<in>B. 40 + unat (bh_size (heap_mem h' b))) = (\<Sum>b\<in>B. 40 + unat (bh_size (heap_mem h b)))"
    using assms(3) by (intro sum.cong) auto
  with assms show ?thesis
    by (simp add: heap_shape_def blocks_ok_cong [of B "heap_mem h'" "heap_mem h"])
qed

text \<open>Taking a block off the list, once it is marked as used.\<close>

lemma take_block_shape:
  assumes sh: "heap_shape h B fs" and b: "b \<in> set fs"
  obtains fs' where "heap_shape (remove_from_free_list b (write_block b (\<lambda>b. b\<lparr>bh_is_free := False\<rparr>) h)) B fs'"
    "set fs' = set fs - {b}"
proof -
  let ?h2 = "write_block b (\<lambda>b. b\<lparr>bh_is_free := False\<rparr>) h"
  from b obtain xs ys where fs: "fs = xs @ b # ys" by (auto simp: in_set_conv_decomp)
  have l: "linked (heap_mem h) None (free_list_head h) fs" and d: "distinct fs" and sub: "set fs \<subseteq> B"
    using sh by (simp_all add: heap_shape_def)
  have "linked (heap_mem ?h2) None (free_list_head ?h2) fs = linked (heap_mem h) None (free_list_head h) fs"
    by (simp only: write_block_fields(4), rule linked_cong) simp
  with l have "linked (heap_mem ?h2) None (free_list_head ?h2) (xs @ b # ys)" by (simp add: fs)
  then have "linked (heap_mem (remove_from_free_list b ?h2)) None
      (free_list_head (remove_from_free_list b ?h2)) (xs @ ys)"
    using d fs by (intro remove_from_free_list_linked) simp_all
  then have "heap_shape (remove_from_free_list b ?h2) B (xs @ ys)"
    using d sub fs by (intro heap_shape_cong [OF _ _ _ _ _ _ sh]) auto
  moreover have "set (xs @ ys) = set fs - {b}" using d fs by auto
  ultimately show thesis by (rule that)
qed

lemma heap_allocate_cases:
  fixes sz al :: usize
  assumes wf: "heap_wf h B fs"
  defines "n \<equiv> max sz MIN_ALLOC_SIZE"
  obtains (large) "MAX_ALLOC_SIZE < n" "heap_allocate (sz, al) h = Some (Err ''Allocation too large'', h)"
  | (none) "n \<le> MAX_ALLOC_SIZE" "heap_allocate (sz, al) h = Some (Err ''Out of memory'', h)"
      "\<forall>b\<in>B. \<not> block_fits n b (heap_mem h b)"
  | (some) b h' B' fs' where "n \<le> MAX_ALLOC_SIZE" "heap_allocate (sz, al) h = Some (Ok (data_ptr b), h')"
      "b \<in> B" "block_fits n b (heap_mem h b)" "heap_wf h' B' fs'" "B \<subseteq> B'"
      "\<forall>c\<in>B'. bh_is_free (heap_mem h' c) = (c \<noteq> b \<and> (c \<in> B \<longrightarrow> bh_is_free (heap_mem h c)))"
      "\<forall>c\<in>B. bh_size (heap_mem h' c) = (if c = b \<and> splits b n h then n else bh_size (heap_mem h c))"
      "heap_start h' = heap_start h" "heap_size h' = heap_size h"
      "heap_stats h' = count_allocation n (heap_stats h)"
proof (cases "MAX_ALLOC_SIZE < n")
  case True
  then show thesis by (intro large) (simp_all add: heap_allocate_def n_def Let_def)
next
  case False
  have sh: "heap_shape h B fs" and free: "set fs = {b \<in> B. bh_is_free (heap_mem h b)}"
    using wf by (simp_all add: heap_wf_def)
  from sh have l: "linked (heap_mem h) None (free_list_head h) fs" by (simp add: heap_shape_def)
  note search = find_free_block_linked [OF l, of n]
  show thesis
  proof (cases "find (\<lambda>b. block_fits n b (heap_mem h b)) fs")
    case None
    then have "\<forall>b\<in>B. \<not> block_fits n b (heap_mem h b)"
      using free by (auto simp: find_None_iff block_fits_def)
    moreover have "heap_allocate (sz, al) h = Some (Err ''Out of memory'', h)"
      using False search None by (simp add: heap_allocate_def n_def [symmetric] Let_def)
    ultimately show thesis using none False by simp
  next
    case (Some b)
    then have b: "block_fits n b (heap_mem h b)" "b \<in> set fs"
      by (auto simp: find_Some_iff)
    with free have bB: "b \<in> B" by simp
    let ?h1 = "split_block b n h"
    let ?h3 = "remove_from_free_list b (write_block b (\<lambda>b. b\<lparr>bh_is_free := False\<rparr>) ?h1)"
    let ?h' = "?h3\<lparr>heap_stats := count_allocation n (heap_stats ?h3)\<rparr>"
    have r: "heap_allocate (sz, al) h = Some (Ok (data_ptr b), ?h')"
      using False search Some by (simp add: heap_allocate_def n_def [symmetric] Let_def)
    have nle: "n \<le> MAX_ALLOC_SIZE" using False by simp
    obtain B' fs1 where B': "heap_shape ?h1 B' fs1" "B \<subseteq> B'" "set fs1 = set fs \<union> (B' - B)"
        "\<forall>c\<in>B' - B. bh_is_free (heap_mem ?h1 c)"
        "\<forall>c\<in>B. bh_is_free (heap_mem ?h1 c) = bh_is_free (heap_mem h c)"
        "\<forall>c\<in>B. bh_size (heap_mem ?h1 c) = (if c = b \<and> splits b n h then n else bh_size (heap_mem h c))"
        "heap_start ?h1 = heap_start h" "heap_size ?h1 = heap_size h" "heap_stats ?h1 = heap_stats h"
      using split_shape [OF sh bB nle] by blast
    from B'(3) b(2) have "b \<in> set fs1" by simp
    then obtain fs' where fs': "heap_shape ?h3 B' fs'" "set fs' = set fs1 - {b}"
      using take_block_shape [OF B'(1)] by blast
    have st: "heap_mem ?h' = heap_mem ?h3" "free_list_head ?h' = free_list_head ?h3" by simp_all
    have fr: "\<forall>c\<in>B'. bh_is_free (heap_mem ?h' c) = (c \<noteq> b \<and> (c \<in> B \<longrightarrow> bh_is_free (heap_mem h c)))"
      unfolding st using B'(2,4,5) by auto
    have "heap_shape ?h' B' fs'" using fs'(1) by (simp add: heap_shape_def)
    moreover have "set fs' = {c \<in> B'. bh_is_free (heap_mem ?h' c)}"
      unfolding fs'(2) B'(3) free using fr B'(2) by auto
    ultimately have "heap_wf ?h' B' fs'" by (simp add: heap_wf_def)
    then show thesis
      by (rule some [OF nle r bB b(1) _ B'(2) fr]) (use B'(6-9) in simp_all)
  qed
qed

lemma heap_deallocate_cases:
  assumes wf: "heap_wf h B fs" and b: "b \<in> B" and used: "\<not> bh_is_free (heap_mem h b)"
  obtains h' fs' where "heap_deallocate (data_ptr b) h = (Ok (), h')" "heap_wf h' B fs'"
    "\<forall>c. bh_is_free (heap_mem h' c) = (c = b \<or> bh_is_free (heap_mem h c))"
    "\<forall>c. bh_size (heap_mem h' c) = bh_size (heap_mem h c)"
    "heap_start h' = heap_start h" "heap_size h' = heap_size h"
    "heap_stats h' = count_deallocation (bh_size (heap_mem h b)) (heap_stats h)"
proof -
  have sh: "heap_shape h B fs" and free: "set fs = {b \<in> B. bh_is_free (heap_mem h b)}"
    using wf by (simp_all add: heap_wf_def)
  have ok: "blocks_ok (heap_mem h) B (unat (heap_start h)) (unat (heap_start h) + unat (heap_size h))"
    using sh by (simp add: heap_shape_def)
  let ?h1 = "write_block b (\<lambda>b. b\<lparr>bh_is_free := True\<rparr>) h"
  let ?h2 = "?h1\<lparr>heap_stats := count_deallocation (bh_size (heap_mem h b)) (heap_stats ?h1)\<rparr>"
  let ?h' = "add_to_free_list b ?h2"
  have r: "heap_deallocate (data_ptr b) h = (Ok (), ?h')"
    using blocks_ok_block [OF ok b] used
    by (simp add: heap_deallocate_def from_data_ptr_def data_ptr_def non_null_def block_is_valid_def
        coalesce_free_blocks_def Let_def)
  have d: "distinct (b # fs)" using sh used free by (simp add: heap_shape_def)
  have "linked (heap_mem ?h2) None (free_list_head ?h2) fs = linked (heap_mem h) None (free_list_head h) fs"
    by (simp, rule linked_cong) simp
  with sh d have "linked (heap_mem ?h') None (Some b) (b # fs)"
    by (intro add_to_free_list_linked) (simp_all add: heap_shape_def)
  then have "heap_shape ?h' B (b # fs)"
    using d sh b by (intro heap_shape_cong [OF _ _ _ _ _ _ sh]) (auto simp: heap_shape_def)
  moreover have "set (b # fs) = {c \<in> B. bh_is_free (heap_mem ?h' c)}" using free b by auto
  ultimately have "heap_wf ?h' B (b # fs)" by (simp add: heap_wf_def)
  then show thesis by (rule that [OF r]) simp_all
qed

section \<open>Runs of a client\<close>

lemma from_data_ptr_data_ptr [simp]: "from_data_ptr (data_ptr b) = b"
  by (simp add: from_data_ptr_def data_ptr_def)

lemma data_ptr_from_data_ptr [simp]: "data_ptr (from_data_ptr p) = p"
  by (simp add: from_data_ptr_def data_ptr_def)

lemma data_ptr_eq_iff [simp]: "data_ptr b = data_ptr c \<longleftrightarrow> b = c"
  by (simp add: data_ptr_def)

lemma heap_inv_step:
  assumes "heap_step s s'" "heap_inv s B fs"
  shows "\<exists>B' fs'. heap_inv s' B' fs' \<and> B \<subseteq> B' \<and>
     (\<forall>b\<in>B. bh_size (heap_mem (fst s') b) \<le> bh_size (heap_mem (fst s) b)) \<and>
     heap_start (fst s') = heap_start (fst s) \<and> heap_size (fst s') = heap_size (fst s)"
  using assms
proof (induction rule: heap_step.induct)
  case (step_alloc sz align h p h' live)
  from step_alloc.prems have wf: "heap_wf h B fs" by (simp add: heap_inv_def)
  show ?case
  proof (rule heap_allocate_cases [OF wf, of sz align])
    fix b k B' fs'
    assume r: "heap_allocate (sz, align) h = Some (Ok (data_ptr b), k)"
      and b: "b \<in> B" "block_fits (max sz MIN_ALLOC_SIZE) b (heap_mem h b)" "heap_wf k B' fs'" "B \<subseteq> B'"
        "\<forall>c\<in>B'. bh_is_free (heap_mem k c) = (c \<noteq> b \<and> (c \<in> B \<longrightarrow> bh_is_free (heap_mem h c)))"
        "\<forall>c\<in>B. bh_size (heap_mem k c) =
           (if c = b \<and> splits b (max sz MIN_ALLOC_SIZE) h then max sz MIN_ALLOC_SIZE
            else bh_size (heap_mem h c))"
        "heap_start k = heap_start h" "heap_size k = heap_size h"
    have [simp]: "k = h'" and p: "p = data_ptr b" using r step_alloc.hyps by simp_all
    have fits: "bh_is_free (heap_mem h b)" "max sz MIN_ALLOC_SIZE \<le> bh_size (heap_mem h b)"
      using b(2) by (simp_all add: block_fits_def)
    have used: "fst ` set live = data_ptr ` {c \<in> B. \<not> bh_is_free (heap_mem h c)}"
      and dist: "distinct (map fst live)"
      and sizes: "\<forall>(p, sz) \<in> set live. sz \<le> bh_size (heap_mem h (from_data_ptr p))"
      using step_alloc.prems by (simp_all add: heap_inv_def)
    have new: "p \<notin> fst ` set live" unfolding used p using fits(1) by auto
    have "{c \<in> B'. \<not> bh_is_free (heap_mem h' c)} = insert b {c \<in> B. \<not> bh_is_free (heap_mem h c)}"
      using b(1,4,5) by auto
    then have used': "fst ` set ((p, sz) # live) = data_ptr ` {c \<in> B'. \<not> bh_is_free (heap_mem h' c)}"
      using used p by simp
    have keep: "bh_size (heap_mem h' (from_data_ptr q)) = bh_size (heap_mem h (from_data_ptr q))"
      if "(q, r) \<in> set live" for q r
    proof -
      from that have "q \<in> fst ` set live" by force
      with used have "from_data_ptr q \<in> B" by auto
      moreover have "from_data_ptr q \<noteq> b" using \<open>q \<in> fst ` set live\<close> new p by (metis data_ptr_from_data_ptr)
      ultimately show ?thesis using b(6) by simp
    qed
    have "sz \<le> bh_size (heap_mem h' b)" using b(1,6) fits(2) by simp
    then have "\<forall>(q, r) \<in> set ((p, sz) # live). r \<le> bh_size (heap_mem h' (from_data_ptr q))"
      using sizes keep p by fastforce
    then have "heap_inv (h', (p, sz) # live) B' fs'"
      using b(3) used' dist new by (simp add: heap_inv_def)
    moreover have "\<forall>c\<in>B. bh_size (heap_mem h' c) \<le> bh_size (heap_mem h c)"
      using b(6) fits(2) by simp
    ultimately show ?case using b(4,7,8) by auto
  qed (use step_alloc.hyps in simp_all)
next
  case (step_refused sz align h e h' live)
  from step_refused.prems have wf: "heap_wf h B fs" by (simp add: heap_inv_def)
  have "h' = h"
    by (rule heap_allocate_cases [OF wf, of sz align]) (use step_refused.hyps in simp_all)
  with step_refused.prems show ?case by auto
next
  case (step_free p sz live h h')
  have wf: "heap_wf h B fs" and used: "fst ` set live = data_ptr ` {c \<in> B. \<not> bh_is_free (heap_mem h c)}"
    and dist: "distinct (map fst live)"
    and sizes: "\<forall>(p, sz) \<in> set live. sz \<le> bh_size (heap_mem h (from_data_ptr p))"
    using step_free.prems by (simp_all add: heap_inv_def)
  from step_free.hyps(1) have "p \<in> fst ` set live" by force
  with used obtain b where b: "b \<in> B" "\<not> bh_is_free (heap_mem h b)" "p = data_ptr b" by auto
  show ?case
  proof (rule heap_deallocate_cases [OF wf b(1,2)])
    fix k fs'
    assume "heap_deallocate (data_ptr b) h = (Ok (), k)" and k: "heap_wf k B fs'"
      "\<forall>c. bh_is_free (heap_mem k c) = (c = b \<or> bh_is_free (heap_mem h c))"
      "\<forall>c. bh_size (heap_mem k c) = bh_size (heap_mem h c)"
      "heap_start k = heap_start h" "heap_size k = heap_size h"
    then have [simp]: "k = h'" using step_free.hyps(2) b(3) by simp
    have dl: "distinct live" using dist by (simp add: distinct_map)
    have "fst ` set (remove1 (p, sz) live) = fst ` set live - {p}"
      using inj_on_image_set_diff [of fst "set live" "set live" "{(p, sz)}"] dist step_free.hyps(1) dl
      by (simp add: distinct_map)
    then have "fst ` set (remove1 (p, sz) live) = data_ptr ` {c \<in> B. \<not> bh_is_free (heap_mem h' c)}"
      using used k(2) b by auto
    moreover have "distinct (map fst (remove1 (p, sz) live))"
      using dist dl by (auto simp: distinct_map inj_on_def)
    moreover have "\<forall>(q, r) \<in> set (remove1 (p, sz) live). r \<le> bh_size (heap_mem h' (from_data_ptr q))"
      using sizes k(3) dl by auto
    ultimately have "heap_inv (h', remove1 (p, sz) live) B fs'"
      using k(1) by (simp add: heap_inv_def)
    then show ?case using k(3-5) by auto
  qed
qed

lemma heap_inv_steps:
  assumes "heap_step\<^sup>*\<^sup>* s s'" "heap_inv s B fs"
  shows "\<exists>B' fs'. heap_inv s' B' fs' \<and> B \<subseteq> B' \<and>
     (\<forall>b\<in>B. bh_size (heap_mem (fst s') b) \<le> bh_size (heap_mem (fst s) b)) \<and>
     heap_start (fst s') = heap_start (fst s) \<and> heap_size (fst s') = heap_size (fst s)"
  using assms
proof (induction rule: rtranclp_induct)
  case base
  then show ?case by auto
next
  case (step t u)
  then obtain B1 fs1 where 1: "heap_inv t B1 fs1" "B \<subseteq> B1"
      "\<forall>b\<in>B. bh_size (heap_mem (fst t) b) \<le> bh_size (heap_mem (fst s) b)"
      "heap_start (fst t) = heap_start (fst s)" "heap_size (fst t) = heap_size (fst s)" by blast
  from heap_inv_step [OF step.hyps(2) 1(1)] obtain B2 fs2 where 2: "heap_inv u B2 fs2" "B1 \<subseteq> B2"
      "\<forall>b\<in>B1. bh_size (heap_mem (fst u) b) \<le> bh_size (heap_mem (fst t) b)"
      "heap_start (fst u) = heap_start (fst t)" "heap_size (fst u) = heap_size (fst t)" by blast
  have "\<forall>b\<in>B. bh_size (heap_mem (fst u) b) \<le> bh_size (heap_mem (fst s) b)"
    using 1(2,3) 2(3) by (meson order_trans subsetD)
  with 1 2 show ?case by (intro exI [of _ B2] exI [of _ fs2]) auto
qed

section \<open>A fresh heap\<close>

lemma fresh_heap_shape:
  assumes "fresh_heap n h"
  shows "heap_wf h {heap_start h} [heap_start h] \<and> 0 < n \<and> n < 2 ^ 52 \<and>
    unat (heap_start h) mod 4096 = 0 \<and> unat (heap_size h) = n * 4096 \<and>
    unat (bh_size (heap_mem h (heap_start h))) = n * 4096 - 40 \<and>
    bh_is_free (heap_mem h (heap_start h))"
proof -
  from assms obtain m mem g' where m: "pm_wf m" "total_frames m < 2 ^ 52" "\<not> is_frame_free m 0"
    and init: "heap_init n (Some m) (kernel_heap_new mem) = (Ok (), g', h)"
    by (auto simp: fresh_heap_def init_kernel_heap_def)
  from init have n: "0 < n" by (auto simp: heap_init_def split: if_splits)
  obtain s m' where s: "allocate_frames m n = (Some s, m')" "run_free m s n"
    using init n by (cases rule: allocate_frames_cases [OF m(1) n])
      (auto simp: heap_init_def global_allocate_frames_def)
  have "is_frame_free m (s + (n - 1))" "is_frame_free m s"
    using s(2) n by (auto simp: run_free_def dest: spec [of _ "n - 1"] spec [of _ 0])
  then have last: "s + n \<le> total_frames m" and pos: "0 < s"
    using n m(3) by (auto simp: is_frame_free_def split: if_splits intro: gr0I)
  have sizes: "s < 2 ^ 52" "n < 2 ^ 52" "s * 4096 + n * 4096 < 2 ^ 64"
    using last m(2) n pos by auto
  have w: "unat (of_nat s * PAGE_SIZE) = s * 4096" "unat (of_nat n * PAGE_SIZE) = n * 4096"
    using sizes by (simp_all add: unat_word_ariths unat_of_nat PAGE_SIZE_def)
  have r: "unat (of_nat n * PAGE_SIZE - HEADER_SIZE) = n * 4096 - 40"
    using w(2) n by (subst unat_sub) (simp_all add: word_le_nat_alt HEADER_SIZE_def)
  have nz: "of_nat s * PAGE_SIZE \<noteq> 0" using w(1) pos by (metis mult_is_0 unat_0 neq0_conv zero_neq_numeral)
  have h: "heap_start h = of_nat s * PAGE_SIZE" "heap_size h = of_nat n * PAGE_SIZE"
    "free_list_head h = Some (of_nat s * PAGE_SIZE)"
    "heap_mem h (of_nat s * PAGE_SIZE) = block_header_new (of_nat n * PAGE_SIZE - HEADER_SIZE)"
    using init s(1) n nz
    by (auto simp: heap_init_def global_allocate_frames_def Let_def frame_address_def non_null_def)
  show ?thesis
    using h w r nz n sizes pos
    by (auto simp: heap_wf_def heap_shape_def blocks_ok_def block_end_def block_header_new_def)
qed

lemma fresh_heap_inv: "fresh_heap n h \<Longrightarrow> heap_inv (h, []) {heap_start h} [heap_start h]"
  using fresh_heap_shape [of n h] by (auto simp: heap_inv_def)

lemma reached_heap_inv:
  assumes "fresh_heap n h0" "heap_step\<^sup>*\<^sup>* (h0, []) (h, live)"
  obtains B fs where "heap_inv (h, live) B fs" "heap_wf h B fs" "unat (heap_size h) = n * 4096"
  using heap_inv_steps [OF assms(2) fresh_heap_inv [OF assms(1)]] fresh_heap_shape [OF assms(1)]
  by (auto simp: heap_inv_def)

lemma live_pointer_block:
  assumes "heap_inv (h, live) B fs" "(p, sz) \<in> set live"
  shows "from_data_ptr p \<in> B" "\<not> bh_is_free (heap_mem h (from_data_ptr p))"
    "unat p = unat (from_data_ptr p) + 40"
    "unat p + unat sz \<le> block_end (heap_mem h) (from_data_ptr p)"
proof -
  have "p \<in> data_ptr ` {b \<in> B. \<not> bh_is_free (heap_mem h b)}"
    and sz: "sz \<le> bh_size (heap_mem h (from_data_ptr p))"
    using assms by (force simp: heap_inv_def)+
  then show a: "from_data_ptr p \<in> B" "\<not> bh_is_free (heap_mem h (from_data_ptr p))" by auto
  have "blocks_ok (heap_mem h) B (unat (heap_start h)) (unat (heap_start h) + unat (heap_size h))"
    using assms(1) by (simp add: heap_inv_def heap_wf_def heap_shape_def)
  from blocks_ok_block(6) [OF this a(1)] show b: "unat p = unat (from_data_ptr p) + 40" by simp
  show "unat p + unat sz \<le> block_end (heap_mem h) (from_data_ptr p)"
    using b sz by (simp add: block_end_def word_le_nat_alt)
qed

lemma page_offset: "unat (align_up p - p) < 4096"
proof (cases "unat p + 4095 < 2 ^ 64")
  case True
  have "unat (align_up p) = unat p + 4095 - (unat p + 4095) mod 4096"
    using True by (simp add: unat_align_up minus_mod_eq_div_mult)
  moreover have "(unat p + 4095) mod 4096 < 4096" by simp
  ultimately have b: "unat p \<le> unat (align_up p)" "unat (align_up p) < unat p + 4096" by linarith+
  then have "p \<le> align_up p" by (simp add: word_le_nat_alt)
  with b show ?thesis by (simp add: unat_sub)
next
  case False
  have "(unat p + 4095) mod 2 ^ 64 < 4096"
    using False unat_lt_64 [of p] by (simp add: le_mod_geq not_less del: unat_lt_64)
  then have "unat (align_up p) = 0" by (simp add: unat_align_up)
  with False show ?thesis by (simp add: unat_sub_if')
qed

lemma block_fits_room:
  assumes "block_fits n b bh" "n \<le> MAX_ALLOC_SIZE"
  shows "unat n + unat (align_up (data_ptr b) - data_ptr b) \<le> unat (bh_size bh)"
proof -
  have "unat n \<le> 1048576" using assms(2) by (simp add: word_le_nat_alt MAX_ALLOC_SIZE_def)
  with page_offset [of "data_ptr b"]
  have "unat (n + (align_up (data_ptr b) - data_ptr b)) = unat n + unat (align_up (data_ptr b) - data_ptr b)"
    by (intro unat_plus_small) simp
  with assms(1) show ?thesis by (simp add: block_fits_def word_le_nat_alt)
qed

section \<open>Validation\<close>

lemma validate_from_linked:
  assumes "linked (heap_mem h) p c fs"
    "\<forall>b\<in>set fs. bh_magic (heap_mem h b) = HEAP_MAGIC \<and> bh_is_free (heap_mem h b) \<and>
       heap_start h \<le> b \<and> b + block_total_size (heap_mem h b) \<le> heap_start h + heap_size h"
  shows "validate_from left h c =
     (if length fs \<le> left then Ok () else Err ''Heap corruption: possible circular free list'')"
  using assms
proof (induction fs arbitrary: p c left)
  case (Cons b fs)
  then show ?case
    by (cases left) (auto simp: block_is_valid_def not_less Let_def)
qed simp

lemma heap_wf_block_bounds:
  assumes wf: "heap_wf h B fs" and b: "b \<in> B"
  shows "heap_start h \<le> b \<and> b + block_total_size (heap_mem h b) \<le> heap_start h + heap_size h"
proof -
  have ok: "blocks_ok (heap_mem h) B (unat (heap_start h)) (unat (heap_start h) + unat (heap_size h))"
    using wf by (simp add: heap_wf_def heap_shape_def)
  note k = blocks_ok_block [OF ok b]
  then have e: "unat b + (40 + unat (bh_size (heap_mem h b))) \<le> unat (heap_start h) + unat (heap_size h)"
    and hi: "unat (heap_start h) + unat (heap_size h) < 2 ^ 64" by (simp_all add: block_end_def)
  have t: "unat (block_total_size (heap_mem h b)) = 40 + unat (bh_size (heap_mem h b))"
    using e hi unat_plus_small [of 40 "bh_size (heap_mem h b)"]
    by (simp add: block_total_size_def HEADER_SIZE_def)
  have "unat (b + block_total_size (heap_mem h b)) = unat b + (40 + unat (bh_size (heap_mem h b)))"
    using e hi t by (subst unat_plus_small) simp_all
  moreover have "unat (heap_start h + heap_size h) = unat (heap_start h) + unat (heap_size h)"
    using hi by (rule unat_plus_small)
  ultimately show ?thesis using e k(2) by (simp add: word_le_nat_alt)
qed

lemma heap_wf_block_count:
  assumes "heap_wf h B fs"
  shows "length fs * 40 \<le> unat (heap_size h)"
proof -
  have fin: "finite B" and sub: "set fs \<subseteq> B" and d: "distinct fs"
    and total: "(\<Sum>b\<in>B. 40 + unat (bh_size (heap_mem h b))) = unat (heap_size h)"
    using assms by (auto simp: heap_wf_def heap_shape_def blocks_ok_def)
  have "length fs * 40 \<le> card B * 40"
    using card_mono [OF fin sub] d by (simp add: distinct_card)
  also have "\<dots> = (\<Sum>b\<in>B. 40)" by simp
  also have "\<dots> \<le> (\<Sum>b\<in>B. 40 + unat (bh_size (heap_mem h b)))" by (rule sum_mono) simp
  finally show ?thesis using total by simp
qed

section \<open>A concrete heap\<close>

lemma demo_run: "run_free demo_mem 3 2"
  unfolding run_free_subset demo_mem_free by auto

lemma demo_heap_init:
  "init_kernel_heap 2 (Some demo_mem) (kernel_heap_new (\<lambda>_. zero_header)) =
     (Ok (), Some (snd (allocate_frames demo_mem 2)), demo_heap) \<and>
   heap_start demo_heap = 0x3000 \<and> heap_size demo_heap = 0x2000 \<and>
   free_list_head demo_heap = Some 0x3000 \<and> heap_mem demo_heap 0x3000 = block_header_new 8152 \<and>
   heap_stats demo_heap = allocation_stats_new\<lparr>as_heap_size := 0x2000, as_free_bytes := 8152\<rparr>"
proof (cases rule: allocate_frames_cases [OF demo_mem_wf, of 2, OF zero_less_numeral, case_names none some])
  case none
  with demo_run show ?thesis by blast
next
  case (some s m')
  from some(2) have "{s..<s + 2} \<subseteq> {3, 4}" unfolding run_free_subset demo_mem_free .
  then have "s \<in> {3, 4}" "s + 1 \<in> {3, 4}" by (rule subsetD, simp)+
  then have "s = 3" by auto
  with some(1) show ?thesis
    by (simp add: demo_heap_def init_kernel_heap_def heap_init_def global_allocate_frames_def Let_def
        frame_address_def PAGE_SIZE_def HEADER_SIZE_def non_null_def kernel_heap_new_def)
qed

lemma demo_heap_fresh: "fresh_heap 2 demo_heap"
proof -
  have "\<not> is_frame_free demo_mem 0" unfolding mem_free_set [symmetric] demo_mem_free by simp
  moreover have "total_frames demo_mem < 2 ^ 52" by (simp add: demo_mem_def fresh_phys_mem_total frame_simps)
  ultimately show ?thesis using demo_heap_init demo_mem_wf unfolding fresh_heap_def by blast
qed

section \<open>The properties of the heap\<close>

text \<open>
  C13: a client that asks for memory and returns what it was given, in any order, always gets an
  answer. The areas it holds lie in the heap and do not overlap, and each of them can be
  returned.
\<close>

theorem heap_safe:
  assumes "fresh_heap n h0" "heap_step\<^sup>*\<^sup>* (h0, []) (h, live)"
  shows "(\<forall>(p, sz)\<in>set live. unat (heap_start h) \<le> unat p \<and>
        unat p + unat sz \<le> unat (heap_start h) + unat (heap_size h)) \<and>
     (\<forall>i<length live. \<forall>j<length live. i \<noteq> j \<longrightarrow>
        {unat (fst (live ! i))..<unat (fst (live ! i)) + unat (snd (live ! i))} \<inter>
        {unat (fst (live ! j))..<unat (fst (live ! j)) + unat (snd (live ! j))} = {}) \<and>
     (\<forall>layout. heap_allocate layout h \<noteq> None) \<and>
     (\<forall>(p, sz)\<in>set live. fst (heap_deallocate p h) = Ok ())"
proof -
  from assms obtain B fs where inv: "heap_inv (h, live) B fs" and wf: "heap_wf h B fs"
    by (rule reached_heap_inv)
  have ok: "blocks_ok (heap_mem h) B (unat (heap_start h)) (unat (heap_start h) + unat (heap_size h))"
    using wf by (simp add: heap_wf_def heap_shape_def)
  have bounds: "unat (heap_start h) \<le> unat p \<and> unat p + unat sz \<le> unat (heap_start h) + unat (heap_size h)"
    and free: "fst (heap_deallocate p h) = Ok ()" if "(p, sz) \<in> set live" for p sz
  proof -
    note l = live_pointer_block [OF inv that]
    show "unat (heap_start h) \<le> unat p \<and> unat p + unat sz \<le> unat (heap_start h) + unat (heap_size h)"
      using l(3,4) blocks_ok_block [OF ok l(1)] by simp
    show "fst (heap_deallocate p h) = Ok ()"
      by (rule heap_deallocate_cases [OF wf l(1,2)]) simp
  qed
  have disjoint: "{unat p..<unat p + unat sz} \<inter> {unat q..<unat q + unat r} = {}"
    if "(p, sz) \<in> set live" "(q, r) \<in> set live" "p \<noteq> q" for p sz q r
  proof -
    note l = live_pointer_block [OF inv that(1)] live_pointer_block [OF inv that(2)]
    have "from_data_ptr p \<noteq> from_data_ptr q" using that(3) by (metis data_ptr_from_data_ptr)
    from blocks_ok_apart [OF ok l(1,5) this] l(3,4,7,8) show ?thesis by auto
  qed
  have d: "distinct (map fst live)" using inv by (simp add: heap_inv_def)
  have apart: "{unat (fst (live ! i))..<unat (fst (live ! i)) + unat (snd (live ! i))} \<inter>
      {unat (fst (live ! j))..<unat (fst (live ! j)) + unat (snd (live ! j))} = {}"
    if "i < length live" "j < length live" "i \<noteq> j" for i j
  proof (rule disjoint)
    show "fst (live ! i) \<noteq> fst (live ! j)" using d that by (simp add: distinct_conv_nth)
  qed (simp_all add: that)
  have answer: "heap_allocate layout h \<noteq> None" for layout
    by (rule heap_allocate_cases [OF wf, of "fst layout" "snd layout"]) simp_all
  show ?thesis
    by (intro conjI allI impI ballI) (use bounds free answer apart in auto)
qed

lemmas heap_eval = heap_allocate_def find_free_block.simps block_fits_def split_block_def Let_def
  data_ptr_def HEADER_SIZE_def MIN_ALLOC_SIZE_def MAX_ALLOC_SIZE_def block_header_new_def
  align_up_def PAGE_SIZE_def write_block_def add_to_free_list_def remove_from_free_list_def

lemma demo_first: "heap_allocate (4016, 8) demo_heap = Some (Ok 0x3028, demo_heap1)"
  using demo_heap_init by (simp add: heap_eval demo_heap1_def fun_eq_iff max_def)

lemma demo_second: "heap_allocate (4090, 8) demo_heap1 = Some (Ok 0x4000, demo_heap2)"
  using demo_heap_init by (simp add: heap_eval demo_heap1_def demo_heap2_def fun_eq_iff max_def)

lemma demo_steps: "heap_step\<^sup>*\<^sup>* (demo_heap, []) (demo_heap1, [(0x3028, 4016)])"
    "heap_step\<^sup>*\<^sup>* (demo_heap, []) (demo_heap2, [(0x4000, 4090), (0x3028, 4016)])"
  using step_alloc [OF demo_first, of "[]"] step_alloc [OF demo_second, of "[(0x3028, 4016)]"] by auto

theorem heap_safe_witness:
  "{unat (0x4000 :: usize)..<unat (0x4000 :: usize) + unat (4090 :: usize)} \<inter>
     {unat (0x3028 :: usize)..<unat (0x3028 :: usize) + unat (4016 :: usize)} = {} \<and>
   fst (heap_deallocate 0x4000 demo_heap2) = Ok ()"
  using heap_safe [OF demo_heap_fresh demo_steps(2)] by (auto dest: spec [of _ 0])

text \<open>
  C29: blocks are never merged and alignment is measured to the next page boundary, so a block
  with less than a minimal allocation's room after the page boundary that follows it is lost
  once it has been returned: no later request, of any size, is ever given it again.
\<close>

theorem small_block_lost:
  assumes "fresh_heap n h0" "heap_step\<^sup>*\<^sup>* (h0, []) (h, live)" "(p, sz) \<in> set live"
    "unat (bh_size (heap_mem h (from_data_ptr p))) < 16 + unat (align_up p - p)"
    "heap_step\<^sup>*\<^sup>* (h, live) (h', live')"
  shows "heap_allocate layout h' \<noteq> Some (Ok p, h'')"
proof
  assume r: "heap_allocate layout h' = Some (Ok p, h'')"
  from assms(1,2) obtain B fs where inv: "heap_inv (h, live) B fs" by (rule reached_heap_inv)
  from heap_inv_steps [OF assms(5) inv] obtain B' fs' where wf: "heap_wf h' B' fs'"
    and small: "\<forall>b\<in>B. bh_size (heap_mem h' b) \<le> bh_size (heap_mem h b)"
    by (auto simp: heap_inv_def)
  have room: "unat (max (fst layout) MIN_ALLOC_SIZE) + unat (align_up p - p)
      \<le> unat (bh_size (heap_mem h' (from_data_ptr p)))"
  proof (rule heap_allocate_cases [OF wf, of "fst layout" "snd layout"])
    fix b k
    assume "heap_allocate (fst layout, snd layout) h' = Some (Ok (data_ptr b), k)"
      and b: "block_fits (max (fst layout) MIN_ALLOC_SIZE) b (heap_mem h' b)"
        "max (fst layout) MIN_ALLOC_SIZE \<le> MAX_ALLOC_SIZE"
    with r have "p = data_ptr b" by simp
    with block_fits_room [OF b] show ?thesis by simp
  qed (use r in simp_all)
  moreover have "unat (bh_size (heap_mem h' (from_data_ptr p))) \<le> unat (bh_size (heap_mem h (from_data_ptr p)))"
    using small live_pointer_block(1) [OF inv assms(3)] by (simp add: word_le_nat_alt)
  moreover have "16 \<le> unat (max (fst layout) MIN_ALLOC_SIZE)"
    by (simp add: MIN_ALLOC_SIZE_def max_def word_le_nat_alt)
  ultimately show False using assms(4) by linarith
qed

theorem small_block_lost_witness:
  "heap_step\<^sup>*\<^sup>* (demo_heap1, [(0x3028, 4016)]) (snd (heap_deallocate 0x3028 demo_heap1), []) \<and>
   heap_allocate (16, 8) (snd (heap_deallocate 0x3028 demo_heap1)) \<noteq> Some (Ok 0x3028, demo_heap)"
proof -
  have "fst (heap_deallocate 0x3028 demo_heap1) = Ok ()"
    by (simp add: heap_deallocate_def demo_heap1_def from_data_ptr_def HEADER_SIZE_def non_null_def
        block_is_valid_def block_header_new_def Let_def)
  then have "heap_step (demo_heap1, [(0x3028, 4016)]) (snd (heap_deallocate 0x3028 demo_heap1), [])"
    using step_free [of "0x3028" 4016 "[(0x3028, 4016)]" demo_heap1] by (simp add: prod_eq_iff)
  then have s: "heap_step\<^sup>*\<^sup>* (demo_heap1, [(0x3028, 4016)]) (snd (heap_deallocate 0x3028 demo_heap1), [])"
    by blast
  have "unat (bh_size (heap_mem demo_heap1 (from_data_ptr 0x3028))) < 16 + unat (align_up 0x3028 - 0x3028)"
    by (simp add: demo_heap1_def from_data_ptr_def HEADER_SIZE_def block_header_new_def align_up_def PAGE_SIZE_def)
  with s show ?thesis
    using small_block_lost [OF demo_heap_fresh demo_steps(1), of "0x3028" 4016] by simp
qed

lemma first_block_fits:
  assumes fresh: "fresh_heap n h" and le: "k \<le> MAX_ALLOC_SIZE"
  shows "block_fits k (heap_start h) (heap_mem h (heap_start h)) \<longleftrightarrow> unat k \<le> (n - 1) * 4096"
proof -
  let ?s = "heap_start h"
  note f = fresh_heap_shape [OF fresh]
  then have "heap_wf h {?s} [?s]" by simp
  then have ok: "blocks_ok (heap_mem h) {?s} (unat ?s) (unat ?s + unat (heap_size h))"
    unfolding heap_wf_def heap_shape_def by (elim conjE)
  have d: "unat (data_ptr ?s) = unat ?s + 40" and hi: "unat ?s + n * 4096 < 2 ^ 64"
    using blocks_ok_block [OF ok, of ?s] f by simp_all
  from f obtain k' where k': "unat ?s = 4096 * k'" by (auto simp: mod_eq_0_iff_dvd elim: dvdE)
  have "k' + n < 2 ^ 52" "0 < n" using hi k' f by simp_all
  then have small: "unat (data_ptr ?s) + 4095 < 2 ^ 64" using d k' by simp
  then have "unat (align_up (data_ptr ?s)) = unat ?s + 4096"
    unfolding unat_align_up using d k' by simp
  then have off: "unat (align_up (data_ptr ?s) - data_ptr ?s) = 4056"
    using d by (simp add: unat_sub_if')
  have "unat k \<le> 1048576" using le by (simp add: word_le_nat_alt MAX_ALLOC_SIZE_def)
  then have "unat (k + (align_up (data_ptr ?s) - data_ptr ?s)) = unat k + 4056"
    using off by (subst unat_plus_small) simp_all
  with f show ?thesis by (auto simp: block_fits_def word_le_nat_alt)
qed

text \<open>
  C35: the first request to a fresh heap of \<open>n\<close> pages is answered if and only if it leaves a whole
  page free, so a heap of one page answers none. The pointer is 40 bytes into a page, whatever
  alignment was asked for.
\<close>

theorem first_allocation:
  assumes "fresh_heap n h" "max sz MIN_ALLOC_SIZE \<le> MAX_ALLOC_SIZE"
  shows "unat (heap_start h) mod 4096 = 0 \<and>
     (if unat (max sz MIN_ALLOC_SIZE) \<le> (n - 1) * 4096
      then \<exists>h'. heap_allocate (sz, align) h = Some (Ok (heap_start h + 40), h')
      else heap_allocate (sz, align) h = Some (Err ''Out of memory'', h))"
proof -
  note f = fresh_heap_shape [OF assms(1)] and fits = first_block_fits [OF assms]
  from f have wf: "heap_wf h {heap_start h} [heap_start h]" by simp
  show ?thesis
  proof (rule heap_allocate_cases [OF wf, of sz align])
    assume "MAX_ALLOC_SIZE < max sz MIN_ALLOC_SIZE"
    with assms(2) show ?thesis by (simp add: leD)
  qed (use f fits in \<open>auto simp: data_ptr_def HEADER_SIZE_def\<close>)
qed

theorem first_allocation_witness:
  "(\<exists>h'. heap_allocate (64, 4096) demo_heap = Some (Ok 0x3028, h')) \<and>
   heap_allocate (4097, 8) demo_heap = Some (Err ''Out of memory'', demo_heap)"
  using first_allocation [OF demo_heap_fresh, of 64 4096] first_allocation [OF demo_heap_fresh, of 4097 8]
    demo_heap_init
  by (simp add: MIN_ALLOC_SIZE_def MAX_ALLOC_SIZE_def max_def)

text \<open>
  C40: returning a block takes its own size off the count of bytes in use, while allocating it
  added the size that was requested: the count loses what a block has in excess each time one is
  allocated and returned, and passes below zero.
\<close>

theorem byte_count_drifts:
  assumes "fresh_heap n h0" "heap_step\<^sup>*\<^sup>* (h0, []) (h, live)"
    "heap_allocate (sz, align) h = Some (Ok p, h1)" "heap_deallocate p h1 = (Ok (), h2)"
  shows "as_current_bytes (heap_stats h2) = as_current_bytes (heap_stats h)
      - (bh_size (heap_mem h1 (from_data_ptr p)) - max sz MIN_ALLOC_SIZE) \<and>
    max sz MIN_ALLOC_SIZE \<le> bh_size (heap_mem h1 (from_data_ptr p)) \<and>
    unat (bh_size (heap_mem h1 (from_data_ptr p))) < unat (max sz MIN_ALLOC_SIZE) + 56"
proof -
  let ?n = "max sz MIN_ALLOC_SIZE"
  from assms(1,2) obtain B fs where wf: "heap_wf h B fs" by (rule reached_heap_inv)
  show ?thesis
  proof (rule heap_allocate_cases [OF wf, of sz align])
    fix b k B' fs'
    assume n: "?n \<le> MAX_ALLOC_SIZE" and r: "heap_allocate (sz, align) h = Some (Ok (data_ptr b), k)"
      and b: "b \<in> B" "block_fits ?n b (heap_mem h b)" and k: "heap_wf k B' fs'" "B \<subseteq> B'"
        "\<forall>c\<in>B'. bh_is_free (heap_mem k c) = (c \<noteq> b \<and> (c \<in> B \<longrightarrow> bh_is_free (heap_mem h c)))"
        "\<forall>c\<in>B. bh_size (heap_mem k c) = (if c = b \<and> splits b ?n h then ?n else bh_size (heap_mem h c))"
        "heap_stats k = count_allocation ?n (heap_stats h)"
    have [simp]: "k = h1" "p = data_ptr b" using assms(3) r by simp_all
    have b': "b \<in> B'" "\<not> bh_is_free (heap_mem h1 b)" using b k by auto
    have st: "heap_stats h2 = count_deallocation (bh_size (heap_mem h1 b)) (heap_stats h1)"
      by (rule heap_deallocate_cases [OF k(1) [simplified] b']) (use assms(4) in simp_all)
    have "unat ?n \<le> 1048576" using n by (simp add: word_le_nat_alt MAX_ALLOC_SIZE_def)
    then have "unat (?n + HEADER_SIZE + MIN_ALLOC_SIZE) = unat ?n + 56"
      by (simp add: HEADER_SIZE_def MIN_ALLOC_SIZE_def unat_word_ariths)
    then have "splits b ?n h \<longleftrightarrow> unat ?n + 56 \<le> unat (bh_size (heap_mem h b))"
      by (simp add: splits_def word_le_nat_alt)
    moreover have "?n \<le> bh_size (heap_mem h b)" using b(2) by (simp add: block_fits_def)
    moreover have "bh_size (heap_mem h1 b) = (if splits b ?n h then ?n else bh_size (heap_mem h b))"
      using b(1) k(4) by simp
    ultimately show ?thesis
      using st k(5) by (simp add: count_allocation_def count_deallocation_def Let_def)
  qed (use assms(3) in simp_all)
qed

theorem byte_count_drifts_witness:
  "as_current_bytes (heap_stats (snd (heap_deallocate 0x4000 demo_heap2))) = 4010 \<and>
   as_current_bytes (heap_stats demo_heap1) = 4016"
proof -
  have "heap_deallocate 0x4000 demo_heap2 = (Ok (), snd (heap_deallocate 0x4000 demo_heap2))"
    by (simp add: heap_deallocate_def demo_heap2_def from_data_ptr_def HEADER_SIZE_def non_null_def
        block_is_valid_def block_header_new_def Let_def)
  note drift = byte_count_drifts [OF demo_heap_fresh demo_steps(1) demo_second this]
  have start: "as_current_bytes (heap_stats demo_heap1) = 4016"
    using demo_heap_init by (simp add: demo_heap1_def count_allocation_def allocation_stats_new_def Let_def)
  have "bh_size (heap_mem demo_heap2 (from_data_ptr 0x4000)) = 4096"
    by (simp add: demo_heap2_def from_data_ptr_def HEADER_SIZE_def block_header_new_def)
  with drift start show ?thesis by (simp add: MIN_ALLOC_SIZE_def max_def)
qed

text \<open>
  C32: whatever its clients have allocated and returned, the validation finds no damage in the
  heap. On a heap of more than 97 pages it may give up on a free list of more than 10000 blocks,
  which it reports as circular.
\<close>

theorem validation_passes:
  assumes "fresh_heap n h0" "heap_step\<^sup>*\<^sup>* (h0, []) (h, live)"
  shows "validate_heap h = Ok () \<or>
     97 < n \<and> validate_heap h = Err ''Heap corruption: possible circular free list''"
proof -
  from assms obtain B fs where wf: "heap_wf h B fs" and sz: "unat (heap_size h) = n * 4096"
    by (rule reached_heap_inv)
  then have len: "length fs \<le> 10000 \<or> 97 < n" using heap_wf_block_count [OF wf] by linarith
  have "linked (heap_mem h) None (free_list_head h) fs" "set fs \<subseteq> B"
      "\<forall>b\<in>set fs. bh_is_free (heap_mem h b)" "\<forall>b\<in>B. bh_magic (heap_mem h b) = HEAP_MAGIC"
    using wf by (auto simp: heap_wf_def heap_shape_def blocks_ok_def)
  then have "validate_heap h =
      (if length fs \<le> 10000 then Ok () else Err ''Heap corruption: possible circular free list'')"
    unfolding validate_heap_def using heap_wf_block_bounds [OF wf]
    by (intro validate_from_linked [where p = None]) auto
  with len show ?thesis by auto
qed

theorem validation_passes_witness: "validate_heap demo_heap2 = Ok () \<and> validate_heap demo_heap1 = Ok ()"
  using validation_passes [OF demo_heap_fresh demo_steps(1)]
    validation_passes [OF demo_heap_fresh demo_steps(2)] by simp

end
