(* ===== verification/Process_Table.thy ===== *)
theory Process_Table
  imports Kosh_Prelude
begin

text \<open>
  Processes and the process table, from \<^verbatim>\<open>process/process.rs\<close>, with the register context of
  \<^verbatim>\<open>process/context.rs\<close> that a process control block holds. The table is a vector whose
  entries are emptied but never dropped, so an entry's position fixes its process identifier:
  that is the invariant on which freshness of identifiers and the parent-child relation rest.

  The field \<^verbatim>\<open>address_space\<close>, which no code assigns, is left out, as are the log messages.
\<close>

section \<open>Register contexts\<close>

record cpu_context =
  rax :: u64
  rbx :: u64
  rcx :: u64
  rdx :: u64
  rsi :: u64
  rdi :: u64
  rbp :: u64
  rsp :: u64
  r8 :: u64
  r9 :: u64
  r10 :: u64
  r11 :: u64
  r12 :: u64
  r13 :: u64
  r14 :: u64
  r15 :: u64
  rip :: u64
  rflags :: u64
  seg_cs :: u16
  seg_ds :: u16
  seg_es :: u16
  seg_fs :: u16
  seg_gs :: u16
  seg_ss :: u16

definition cpu_context_new :: cpu_context where
  "cpu_context_new =
     \<lparr>rax = 0, rbx = 0, rcx = 0, rdx = 0, rsi = 0, rdi = 0, rbp = 0, rsp = 0,
      r8 = 0, r9 = 0, r10 = 0, r11 = 0, r12 = 0, r13 = 0, r14 = 0, r15 = 0,
      rip = 0, rflags = 0x202,
      seg_cs = 0x08, seg_ds = 0x10, seg_es = 0x10, seg_fs = 0x10, seg_gs = 0x10, seg_ss = 0x10\<rparr>"

definition new_kernel_thread :: "u64 \<Rightarrow> u64 \<Rightarrow> cpu_context" where
  "new_kernel_thread entry_point stack_pointer =
     cpu_context_new\<lparr>rip := entry_point, rsp := stack_pointer, rbp := stack_pointer\<rparr>"

definition new_user_process :: "u64 \<Rightarrow> u64 \<Rightarrow> cpu_context" where
  "new_user_process entry_point stack_pointer =
     cpu_context_new\<lparr>rip := entry_point, rsp := stack_pointer, rbp := stack_pointer,
       seg_cs := 0x1B, seg_ds := 0x23, seg_es := 0x23, seg_fs := 0x23, seg_gs := 0x23, seg_ss := 0x23,
       rflags := 0x202\<rparr>"

definition set_instruction_pointer :: "cpu_context \<Rightarrow> u64 \<Rightarrow> cpu_context" where
  "set_instruction_pointer c v = c\<lparr>rip := v\<rparr>"

definition set_stack_pointer :: "cpu_context \<Rightarrow> u64 \<Rightarrow> cpu_context" where
  "set_stack_pointer c v = c\<lparr>rsp := v, rbp := v\<rparr>"

section \<open>Processes\<close>

type_synonym process_id = u32

definition KERNEL_PID :: process_id where "KERNEL_PID = 0"
definition INIT_PID :: process_id where "INIT_PID = 1"

datatype block_reason =
  WaitingForIo | WaitingForMessage | WaitingForChild | WaitingForMemory | WaitingForResource

datatype process_state = Running | Ready | Blocked block_reason | Zombie | Creating

datatype process_priority = System | Interactive | Normal | Background

definition default_priority :: process_priority where
  "default_priority = Normal"

fun priority_level :: "process_priority \<Rightarrow> u8" where
  "priority_level System = 0"
| "priority_level Interactive = 1"
| "priority_level Normal = 2"
| "priority_level Background = 3"

instantiation process_priority :: linorder
begin

definition less_eq_process_priority :: "process_priority \<Rightarrow> process_priority \<Rightarrow> bool" where
  "less_eq_process_priority p q \<longleftrightarrow> priority_level p \<le> priority_level q"

definition less_process_priority :: "process_priority \<Rightarrow> process_priority \<Rightarrow> bool" where
  "less_process_priority p q \<longleftrightarrow> priority_level p < priority_level q"

instance
  by standard (auto simp: less_eq_process_priority_def less_process_priority_def elim!: priority_level.elims)

end

definition priority_of_level :: "u8 \<Rightarrow> process_priority" where
  "priority_of_level n =
     (if n = 0 then System else if n = 1 then Interactive else if n = 2 then Normal else Background)"

definition boost :: "process_priority \<Rightarrow> u8 \<Rightarrow> process_priority" where
  "boost p levels = priority_of_level (saturating_sub (priority_level p) levels)"

definition reduce :: "process_priority \<Rightarrow> u8 \<Rightarrow> process_priority" where
  "reduce p levels = priority_of_level (min (priority_level p + levels) 3)"

record process =
  proc_pid :: process_id
  parent_pid :: "process_id option"
  proc_state :: process_state
  proc_priority :: process_priority
  proc_name :: string
  cpu_ctx :: cpu_context
  cpu_time_ms :: u64
  creation_time_ms :: u64
  last_scheduled_ms :: u64
  exit_code :: "i32 option"
  children :: "process_id list"

definition get_current_time_ms :: u64 where
  "get_current_time_ms = 0"

definition process_new :: "process_id \<Rightarrow> process_id option \<Rightarrow> string \<Rightarrow> process_priority \<Rightarrow> process" where
  "process_new i parent nm prio =
     \<lparr>proc_pid = i, parent_pid = parent, proc_state = Creating, proc_priority = prio, proc_name = nm,
      cpu_ctx = cpu_context_new, cpu_time_ms = 0, creation_time_ms = get_current_time_ms,
      last_scheduled_ms = get_current_time_ms, exit_code = None, children = []\<rparr>"

definition set_state :: "process_state \<Rightarrow> process \<Rightarrow> process" where
  "set_state s p = p\<lparr>proc_state := s\<rparr>"

definition is_runnable :: "process \<Rightarrow> bool" where
  "is_runnable p \<longleftrightarrow> proc_state p = Ready \<or> proc_state p = Running"

definition is_terminated :: "process \<Rightarrow> bool" where
  "is_terminated p \<longleftrightarrow> proc_state p = Zombie"

definition add_cpu_time :: "u64 \<Rightarrow> process \<Rightarrow> process" where
  "add_cpu_time t p = p\<lparr>cpu_time_ms := cpu_time_ms p + t, last_scheduled_ms := get_current_time_ms\<rparr>"

definition add_child :: "process_id \<Rightarrow> process \<Rightarrow> process" where
  "add_child c p = (if c \<in> set (children p) then p else p\<lparr>children := children p @ [c]\<rparr>)"

definition remove_child :: "process_id \<Rightarrow> process \<Rightarrow> process" where
  "remove_child c p = p\<lparr>children := filter (\<lambda>i. i \<noteq> c) (children p)\<rparr>"

definition terminate :: "i32 \<Rightarrow> process \<Rightarrow> process" where
  "terminate code p = (set_state Zombie p)\<lparr>exit_code := Some code\<rparr>"

datatype process_error =
  ProcessNotFound | ProcessTableFull | InvalidStateTransition | ProcessTerminated | OutOfMemory | InvalidPid

section \<open>The table\<close>

record process_table =
  processes :: "process option list"
  next_pid :: u32
  current_pid :: "process_id option"
  max_processes :: nat

definition process_table_new :: "nat \<Rightarrow> process_table" where
  "process_table_new n = \<lparr>processes = [], next_pid = 1, current_pid = None, max_processes = n\<rparr>"

fun has_pid :: "process_id \<Rightarrow> process option \<Rightarrow> bool" where
  "has_pid i None = False"
| "has_pid i (Some p) = (proc_pid p = i)"

definition get_process :: "process_table \<Rightarrow> process_id \<Rightarrow> process option" where
  "get_process t i = find_map (\<lambda>e. if has_pid i e then e else None) (processes t)"

text \<open>What is done through the reference that \<^verbatim>\<open>get_process_mut\<close> returns, if it returns one.\<close>

definition with_process_mut :: "process_id \<Rightarrow> (process \<Rightarrow> process) \<Rightarrow> process_table \<Rightarrow> process_table" where
  "with_process_mut i f t = t\<lparr>processes := modify_first (has_pid i) (map_option f) (processes t)\<rparr>"

definition create_process ::
    "process_table \<Rightarrow> process_id option \<Rightarrow> string \<Rightarrow> process_priority \<Rightarrow> (process_id, process_error) result \<times> process_table" where
  "create_process t parent nm prio =
     (if length (processes t) \<ge> max_processes t then (Err ProcessTableFull, t)
      else let i = next_pid t;
               t1 = t\<lparr>next_pid := next_pid t + 1\<rparr>;
               p = set_state Ready (process_new i parent nm prio);
               t2 = (case parent of Some q \<Rightarrow> with_process_mut q (add_child i) t1 | None \<Rightarrow> t1)
           in (Ok i, t2\<lparr>processes := processes t2 @ [Some p]\<rparr>))"

definition remove_process :: "process_table \<Rightarrow> process_id \<Rightarrow> (process, process_error) result \<times> process_table" where
  "remove_process t i =
     (case position (has_pid i) (processes t) of
        None \<Rightarrow> (Err ProcessNotFound, t)
      | Some index \<Rightarrow>
          (case processes t ! index of
             None \<Rightarrow> (Err ProcessNotFound, t)
           | Some p \<Rightarrow>
               (let t1 = t\<lparr>processes := (processes t)[index := None]\<rparr>;
                    t2 = (case parent_pid p of Some q \<Rightarrow> with_process_mut q (remove_child i) t1 | None \<Rightarrow> t1);
                    t3 = fold (\<lambda>c. with_process_mut c (terminate (- 1))) (children p) t2
                in (Ok p, t3))))"

definition live_processes :: "process_table \<Rightarrow> process list" where
  "live_processes t = List.map_filter id (processes t)"

definition get_processes_by_state :: "process_table \<Rightarrow> process_state \<Rightarrow> process_id list" where
  "get_processes_by_state t s = map proc_pid (filter (\<lambda>p. proc_state p = s) (live_processes t))"

definition get_runnable_processes :: "process_table \<Rightarrow> process_id list" where
  "get_runnable_processes t = map proc_pid (filter is_runnable (live_processes t))"

definition get_processes_by_priority :: "process_table \<Rightarrow> process_priority \<Rightarrow> process_id list" where
  "get_processes_by_priority t prio = map proc_pid (filter (\<lambda>p. proc_priority p = prio) (live_processes t))"

definition suspend_current :: "process_table \<Rightarrow> process_table" where
  "suspend_current t =
     (case current_pid t of
        None \<Rightarrow> t
      | Some c \<Rightarrow> with_process_mut c (\<lambda>p. if proc_state p = Running then set_state Ready p else p) t)"

definition set_current_process ::
    "process_table \<Rightarrow> process_id option \<Rightarrow> (unit, process_error) result \<times> process_table" where
  "set_current_process t new =
     (let t1 = suspend_current t in
      case new of
        None \<Rightarrow> (Ok (), t1\<lparr>current_pid := None\<rparr>)
      | Some i \<Rightarrow>
          (if get_process t1 i = None then (Err ProcessNotFound, t1)
           else (Ok (), (with_process_mut i (set_state Running) t1)\<lparr>current_pid := Some i\<rparr>)))"

definition process_count :: "process_table \<Rightarrow> nat" where
  "process_count t = length (filter (\<lambda>e. e \<noteq> None) (processes t))"

record process_table_statistics =
  total_processes :: nat
  creating_processes :: nat
  ready_processes :: nat
  running_processes :: nat
  blocked_processes :: nat
  zombie_processes :: nat
  system_priority_processes :: nat
  interactive_priority_processes :: nat
  normal_priority_processes :: nat
  background_priority_processes :: nat
  stats_current_pid :: "process_id option"

fun state_index :: "process_state \<Rightarrow> nat" where
  "state_index Creating = 0"
| "state_index Ready = 1"
| "state_index Running = 2"
| "state_index (Blocked _) = 3"
| "state_index Zombie = 4"

fun priority_index :: "process_priority \<Rightarrow> nat" where
  "priority_index System = 0"
| "priority_index Interactive = 1"
| "priority_index Normal = 2"
| "priority_index Background = 3"

fun count_entry :: "process option \<Rightarrow> nat list \<times> nat list \<Rightarrow> nat list \<times> nat list" where
  "count_entry None counts = counts"
| "count_entry (Some p) (ss, ps) =
     (ss[state_index (proc_state p) := ss ! state_index (proc_state p) + 1],
      ps[priority_index (proc_priority p) := ps ! priority_index (proc_priority p) + 1])"

definition get_statistics :: "process_table \<Rightarrow> process_table_statistics" where
  "get_statistics t =
     (case fold count_entry (processes t) (replicate 5 0, replicate 4 0) of (ss, ps) \<Rightarrow>
        \<lparr>total_processes = process_count t,
         creating_processes = ss ! 0, ready_processes = ss ! 1, running_processes = ss ! 2,
         blocked_processes = ss ! 3, zombie_processes = ss ! 4,
         system_priority_processes = ps ! 0, interactive_priority_processes = ps ! 1,
         normal_priority_processes = ps ! 2, background_priority_processes = ps ! 3,
         stats_current_pid = current_pid t\<rparr>)"

definition cleanup_zombies :: "process_table \<Rightarrow> nat \<times> process_table" where
  "cleanup_zombies t =
     fold (\<lambda>i (n, t). case remove_process t i of (Ok _, t') \<Rightarrow> (n + 1, t') | (Err _, t') \<Rightarrow> (n, t'))
       (get_processes_by_state t Zombie) (0, t)"

section \<open>The global table\<close>

definition MAX_PROCESSES :: nat where "MAX_PROCESSES = 1024"

definition init_process_table :: "process_table option" where
  "init_process_table = Some (process_table_new MAX_PROCESSES)"

definition global_create_process ::
    "process_table option \<Rightarrow> process_id option \<Rightarrow> string \<Rightarrow> process_priority
      \<Rightarrow> (process_id, process_error) result \<times> process_table option" where
  "global_create_process g parent nm prio =
     (case g of None \<Rightarrow> (Err ProcessNotFound, None)
      | Some t \<Rightarrow> map_prod id Some (create_process t parent nm prio))"

record process_info =
  info_pid :: process_id
  info_parent_pid :: "process_id option"
  info_state :: process_state
  info_priority :: process_priority
  info_name :: string
  info_cpu_time_ms :: u64
  info_creation_time_ms :: u64
  info_last_scheduled_ms :: u64
  info_exit_code :: "i32 option"
  info_children_count :: nat

definition info_of :: "process \<Rightarrow> process_info" where
  "info_of p =
     \<lparr>info_pid = proc_pid p, info_parent_pid = parent_pid p, info_state = proc_state p, info_priority = proc_priority p,
      info_name = proc_name p, info_cpu_time_ms = cpu_time_ms p, info_creation_time_ms = creation_time_ms p,
      info_last_scheduled_ms = last_scheduled_ms p, info_exit_code = exit_code p,
      info_children_count = length (children p)\<rparr>"

definition global_get_process :: "process_table option \<Rightarrow> process_id \<Rightarrow> process_info option" where
  "global_get_process g i =
     (case g of None \<Rightarrow> None | Some t \<Rightarrow> map_option info_of (get_process t i))"

definition info_is_runnable :: "process_info \<Rightarrow> bool" where
  "info_is_runnable p \<longleftrightarrow> info_state p = Ready \<or> info_state p = Running"

definition info_is_terminated :: "process_info \<Rightarrow> bool" where
  "info_is_terminated p \<longleftrightarrow> info_state p = Zombie"

definition global_remove_process ::
    "process_table option \<Rightarrow> process_id \<Rightarrow> (process, process_error) result \<times> process_table option" where
  "global_remove_process g i =
     (case g of None \<Rightarrow> (Err ProcessNotFound, None) | Some t \<Rightarrow> map_prod id Some (remove_process t i))"

definition global_set_current_process ::
    "process_table option \<Rightarrow> process_id option \<Rightarrow> (unit, process_error) result \<times> process_table option" where
  "global_set_current_process g new =
     (case g of None \<Rightarrow> (Err ProcessNotFound, None) | Some t \<Rightarrow> map_prod id Some (set_current_process t new))"

definition global_get_current_process :: "process_table option \<Rightarrow> process_id option" where
  "global_get_current_process g = (case g of None \<Rightarrow> None | Some t \<Rightarrow> current_pid t)"

definition global_get_runnable_processes :: "process_table option \<Rightarrow> process_id list" where
  "global_get_runnable_processes g = (case g of None \<Rightarrow> [] | Some t \<Rightarrow> get_runnable_processes t)"

definition get_process_statistics :: "process_table option \<Rightarrow> process_table_statistics option" where
  "get_process_statistics g = map_option get_statistics g"

definition cleanup_zombie_processes :: "process_table option \<Rightarrow> nat \<times> process_table option" where
  "cleanup_zombie_processes g =
     (case g of None \<Rightarrow> (0, None) | Some t \<Rightarrow> map_prod id Some (cleanup_zombies t))"

section \<open>The invariant\<close>

text \<open>
  An entry that is still there is at the position its identifier names; a child that is still
  there names its parent, and a parent that was there first lists its child; only the current
  process runs.
\<close>

definition pids_ok :: "process_table \<Rightarrow> bool" where
  "pids_ok t \<longleftrightarrow> max_processes t < 2 ^ 32 - 1 \<and> length (processes t) \<le> max_processes t
     \<and> unat (next_pid t) = length (processes t) + 1
     \<and> (\<forall>k<length (processes t). \<forall>p. processes t ! k = Some p \<longrightarrow> unat (proc_pid p) = k + 1)"

definition family :: "process_table \<Rightarrow> process_id \<rightharpoonup> process_id option \<times> process_id list" where
  "family t = (\<lambda>i. map_option (\<lambda>p. (parent_pid p, children p)) (get_process t i))"

definition family_ok :: "process_table \<Rightarrow> bool" where
  "family_ok t \<longleftrightarrow>
     (\<forall>q par cs c. family t q = Some (par, cs) \<longrightarrow> c \<in> set cs \<longrightarrow>
        c < next_pid t \<and> (\<forall>par' cs'. family t c = Some (par', cs') \<longrightarrow> par' = Some q))
     \<and> (\<forall>c q cs par cs'. family t c = Some (Some q, cs) \<longrightarrow> q < c \<longrightarrow>
          family t q = Some (par, cs') \<longrightarrow> c \<in> set cs')"

definition one_running :: "process_table \<Rightarrow> bool" where
  "one_running t \<longleftrightarrow> (\<forall>i p. get_process t i = Some p \<longrightarrow> proc_state p = Running \<longrightarrow> current_pid t = Some i)"

definition pt_wf :: "process_table \<Rightarrow> bool" where
  "pt_wf t \<longleftrightarrow> pids_ok t \<and> family_ok t \<and> one_running t"

definition pid_layout :: "process_table \<Rightarrow> process_id option list" where
  "pid_layout t = map (map_option proc_pid) (processes t)"

definition new_process :: "process_table \<Rightarrow> process_id option \<Rightarrow> string \<Rightarrow> process_priority \<Rightarrow> process" where
  "new_process t par nm prio = set_state Ready (process_new (next_pid t) par nm prio)"

text \<open>The operations that the kernel applies to the global table.\<close>

inductive pt_step :: "process_table \<Rightarrow> process_table \<Rightarrow> bool" where
  created: "create_process t par nm prio = (r, t') \<Longrightarrow> pt_step t t'"
| removed: "remove_process t i = (r, t') \<Longrightarrow> pt_step t t'"
| switched: "set_current_process t new = (r, t') \<Longrightarrow> pt_step t t'"
| cleaned: "cleanup_zombies t = (n, t') \<Longrightarrow> pt_step t t'"

definition demo_table :: process_table where
  "demo_table = snd (create_process (snd (create_process (process_table_new 4) None ''init'' System))
     (Some 1) ''shell'' Interactive)"

section \<open>Lookup\<close>

lemma has_pid_iff: "has_pid i e \<longleftrightarrow> (\<exists>p. e = Some p \<and> proc_pid p = i)"
  by (cases e) auto

lemma get_process_Some:
  "get_process t i = Some p \<Longrightarrow> Some p \<in> set (processes t) \<and> proc_pid p = i"
  unfolding get_process_def by (drule find_map_Some) (auto simp: has_pid_iff split: if_splits)

lemma get_process_None: "get_process t i = None \<longleftrightarrow> (\<forall>p. Some p \<in> set (processes t) \<longrightarrow> proc_pid p \<noteq> i)"
  by (auto simp: get_process_def find_map_None has_pid_iff)

lemma get_process_index:
  assumes "pids_ok t"
  shows "get_process t i = Some p \<longleftrightarrow>
    (\<exists>k<length (processes t). processes t ! k = Some p \<and> unat i = k + 1)"
proof
  assume "get_process t i = Some p"
  then obtain k where "k < length (processes t)" "processes t ! k = Some p" "proc_pid p = i"
    using get_process_Some by (metis in_set_conv_nth)
  then show "\<exists>k<length (processes t). processes t ! k = Some p \<and> unat i = k + 1"
    using assms by (auto simp: pids_ok_def)
next
  assume "\<exists>k<length (processes t). processes t ! k = Some p \<and> unat i = k + 1"
  then obtain k where k: "k < length (processes t)" "processes t ! k = Some p" "unat i = k + 1" by blast
  then have "Some p \<in> set (processes t)" "proc_pid p = i"
    using assms by (auto simp: pids_ok_def word_unat_eq_iff in_set_conv_nth)
  then obtain q where q: "get_process t i = Some q"
    using get_process_None by (metis not_Some_eq)
  then obtain j where "j < length (processes t)" "processes t ! j = Some q" "proc_pid q = i"
    using get_process_Some by (metis in_set_conv_nth)
  then have "j = k" using assms k by (auto simp: pids_ok_def)
  then show "get_process t i = Some p" using q k \<open>processes t ! j = Some q\<close> by simp
qed

lemma next_pid_fresh: "pids_ok t \<Longrightarrow> get_process t (next_pid t) = None"
  using get_process_index [of t "next_pid t"] by (cases "get_process t (next_pid t)") (auto simp: pids_ok_def)

lemma get_process_lt: "pids_ok t \<Longrightarrow> get_process t i = Some p \<Longrightarrow> i < next_pid t"
  using get_process_index [of t i p] by (auto simp: pids_ok_def word_less_nat_alt)

section \<open>Changing one process\<close>

lemma get_with_process_mut:
  assumes "\<And>p. proc_pid (f p) = proc_pid p"
  shows "get_process (with_process_mut i f t) j =
    (if j = i then map_option f (get_process t j) else get_process t j)"
proof -
  have "find_map (\<lambda>e. if has_pid j e then e else None) (modify_first (has_pid i) (map_option f) xs) =
      (if j = i then map_option f (find_map (\<lambda>e. if has_pid j e then e else None) xs)
       else find_map (\<lambda>e. if has_pid j e then e else None) xs)" for xs
  proof (induction xs)
    case (Cons e xs)
    then show ?case by (cases e) (auto simp: assms)
  qed simp
  then show ?thesis by (simp add: get_process_def with_process_mut_def)
qed

lemma with_process_mut_fields [frame_simps]:
  "length (processes (with_process_mut i f t)) = length (processes t)"
  "next_pid (with_process_mut i f t) = next_pid t"
  "current_pid (with_process_mut i f t) = current_pid t"
  "max_processes (with_process_mut i f t) = max_processes t"
proof -
  show "length (processes (with_process_mut i f t)) = length (processes t)"
    using arg_cong [OF map_modify_first [of "has_pid i" "\<lambda>_. ()" "map_option f" "processes t"], of length]
    by (simp add: with_process_mut_def)
qed (simp_all add: with_process_mut_def)

lemma pids_ok_layout:
  "pids_ok t \<longleftrightarrow> max_processes t < 2 ^ 32 - 1 \<and> length (pid_layout t) \<le> max_processes t
     \<and> unat (next_pid t) = length (pid_layout t) + 1
     \<and> (\<forall>k<length (pid_layout t). \<forall>i. pid_layout t ! k = Some i \<longrightarrow> unat i = k + 1)"
  by (auto simp: pids_ok_def pid_layout_def)

lemma with_process_mut_layout:
  assumes "\<And>p. proc_pid (f p) = proc_pid p"
  shows "pid_layout (with_process_mut i f t) = pid_layout t"
  unfolding pid_layout_def with_process_mut_def
  by (simp add: map_modify_first assms option.map_comp comp_def)

lemma pids_ok_with_mut:
  assumes "\<And>p. proc_pid (f p) = proc_pid p"
  shows "pids_ok (with_process_mut i f t) \<longleftrightarrow> pids_ok t"
  by (simp add: pids_ok_layout with_process_mut_layout assms frame_simps)

lemma family_with_mut:
  assumes "\<And>p. proc_pid (f p) = proc_pid p"
  shows "family (with_process_mut i f t) =
    (family t)(i := map_option (\<lambda>p. (parent_pid (f p), children (f p))) (get_process t i))"
  by (rule ext) (simp add: family_def get_with_process_mut assms option.map_comp comp_def)

text \<open>Changes that keep the parents and children of every process.\<close>

lemma family_ok_with_mut:
  assumes "\<And>p. proc_pid (f p) = proc_pid p" "\<And>p. parent_pid (f p) = parent_pid p"
    "\<And>p. children (f p) = children p"
  shows "family_ok (with_process_mut i f t) \<longleftrightarrow> family_ok t"
proof -
  have "family (with_process_mut i f t) = family t"
    by (rule ext) (simp add: family_def get_with_process_mut assms option.map_comp comp_def)
  then show ?thesis by (simp add: family_ok_def frame_simps)
qed

lemma pt_wf_family:
  assumes "pt_wf t"
  shows "family t q = Some (par, cs) \<Longrightarrow> c \<in> set cs \<Longrightarrow> c < next_pid t"
    "family t q = Some (par, cs) \<Longrightarrow> c \<in> set cs \<Longrightarrow> family t c = Some (par', cs') \<Longrightarrow> par' = Some q"
    "family t c = Some (Some q, cs) \<Longrightarrow> q < c \<Longrightarrow> family t q = Some (par, cs') \<Longrightarrow> c \<in> set cs'"
  using assms unfolding pt_wf_def family_ok_def by blast+

section \<open>Creating a process\<close>

lemma add_child_fields [simp]:
  "proc_pid (add_child c p) = proc_pid p" "parent_pid (add_child c p) = parent_pid p"
  "proc_state (add_child c p) = proc_state p"
  "set (children (add_child c p)) = insert c (set (children p))"
  by (auto simp: add_child_def)

lemma remove_child_fields [simp]:
  "proc_pid (remove_child c p) = proc_pid p" "parent_pid (remove_child c p) = parent_pid p"
  "proc_state (remove_child c p) = proc_state p"
  "set (children (remove_child c p)) = set (children p) - {c}"
  by (auto simp: remove_child_def)

lemma terminate_fields [simp]:
  "proc_pid (terminate c p) = proc_pid p" "parent_pid (terminate c p) = parent_pid p"
  "children (terminate c p) = children p" "proc_state (terminate c p) = Zombie"
  "exit_code (terminate c p) = Some c" "terminate c (terminate c p) = terminate c p"
  by (simp_all add: terminate_def set_state_def)

lemma set_state_fields [simp]:
  "proc_pid (set_state s p) = proc_pid p" "parent_pid (set_state s p) = parent_pid p"
  "children (set_state s p) = children p" "proc_state (set_state s p) = s"
  by (simp_all add: set_state_def)

lemma process_new_fields [simp]:
  "proc_pid (process_new i par nm prio) = i" "parent_pid (process_new i par nm prio) = par"
  "children (process_new i par nm prio) = []"
  by (simp_all add: process_new_def)

lemma get_process_push:
  "get_process t (proc_pid p) = None \<Longrightarrow>
   get_process (t\<lparr>processes := processes t @ [Some p]\<rparr>) j = (if j = proc_pid p then Some p else get_process t j)"
  by (auto simp: get_process_def find_map_append split: option.splits)

lemma create_process_full:
  "max_processes t \<le> length (processes t) \<Longrightarrow> create_process t par nm prio = (Err ProcessTableFull, t)"
  by (simp add: create_process_def)

lemma create_process_Ok:
  assumes ok: "pids_ok t" and room: "length (processes t) < max_processes t"
  obtains t' where "create_process t par nm prio = (Ok (next_pid t), t')"
    "\<And>j. get_process t' j =
       (if j = next_pid t then Some (new_process t par nm prio)
        else if par = Some j then map_option (add_child (next_pid t)) (get_process t j)
        else get_process t j)"
    "current_pid t' = current_pid t" "max_processes t' = max_processes t"
    "length (processes t') = Suc (length (processes t))" "pids_ok t'"
    "unat (next_pid t') = Suc (unat (next_pid t))"
proof -
  define u where "u = (case par of
      Some q \<Rightarrow> with_process_mut q (add_child (next_pid t)) (t\<lparr>next_pid := next_pid t + 1\<rparr>)
    | None \<Rightarrow> t\<lparr>next_pid := next_pid t + 1\<rparr>)"
  define p where "p = new_process t par nm prio"
  define t' where "t' = u\<lparr>processes := processes u @ [Some p]\<rparr>"
  have create: "create_process t par nm prio = (Ok (next_pid t), t')"
    using room by (simp add: create_process_def Let_def t'_def u_def p_def new_process_def)
  have up: "get_process (t\<lparr>next_pid := x\<rparr>) j = get_process t j" for x j
    by (simp add: get_process_def)
  have u: "get_process u j =
      (if par = Some j then map_option (add_child (next_pid t)) (get_process t j) else get_process t j)" for j
    by (auto simp: u_def up get_with_process_mut split: option.splits)
  have pid: "proc_pid p = next_pid t" by (simp add: p_def new_process_def)
  have "get_process u (proc_pid p) = None"
    using next_pid_fresh [OF ok] by (simp add: u pid)
  from get_process_push [OF this] have get: "get_process t' j =
      (if j = next_pid t then Some p
       else if par = Some j then map_option (add_child (next_pid t)) (get_process t j)
       else get_process t j)" for j
    unfolding t'_def by (simp add: pid u)
  have fields: "current_pid t' = current_pid t" "max_processes t' = max_processes t"
    "length (processes t') = Suc (length (processes t))" "next_pid t' = next_pid t + 1"
    by (auto simp: t'_def u_def frame_simps split: option.splits)
  have nxt: "unat (next_pid t') = Suc (unat (next_pid t))"
    unfolding fields(4) using ok room by (intro unat_inc) (simp add: pids_ok_def)
  have "pid_layout u = pid_layout t"
    by (auto simp: u_def with_process_mut_layout split: option.splits) (simp_all add: pid_layout_def)
  then have "pid_layout t' = pid_layout t @ [Some (next_pid t)]"
    by (simp add: t'_def pid_layout_def pid)
  then have "pids_ok t'"
    using ok room nxt fields(2,3) unfolding pids_ok_layout
    by (auto simp: nth_append less_Suc_eq pid_layout_def)
  then show ?thesis using that create get fields(1-3) nxt unfolding p_def by blast
qed

lemma create_process_wf:
  assumes wf: "pt_wf t" and cr: "create_process t par nm prio = (r, t')"
  shows "pt_wf t'"
proof (cases "length (processes t) < max_processes t")
  case False
  with cr wf show ?thesis by (simp add: create_process_full)
next
  case True
  have ok: "pids_ok t" using wf by (simp add: pt_wf_def)
  let ?n = "next_pid t"
  from create_process_Ok [OF ok True, of par nm prio] cr have
    get: "\<And>j. get_process t' j = (if j = ?n then Some (new_process t par nm prio)
        else if par = Some j then map_option (add_child ?n) (get_process t j) else get_process t j)"
    and cur: "current_pid t' = current_pid t" and ok': "pids_ok t'"
    and nxt: "unat (next_pid t') = Suc (unat ?n)" by (metis prod.inject)+
  have fam: "family t' j = (if j = ?n then Some (par, [])
      else if par = Some j then map_option (\<lambda>p. (parent_pid p, children (add_child ?n p))) (get_process t j)
      else family t j)" for j
    by (simp add: family_def get new_process_def option.map_comp comp_def)
  have lt: "j < ?n" if "family t j \<noteq> None" for j
    using that get_process_lt [OF ok] by (auto simp: family_def)
  have up: "?n < next_pid t'" using nxt by (simp add: word_less_nat_alt)
  have old: "\<exists>cs0. family t j = Some (par', cs0) \<and> set cs \<subseteq> insert ?n (set cs0) \<and> set cs0 \<subseteq> set cs
      \<and> (?n \<in> set cs \<longrightarrow> ?n \<in> set cs0 \<or> par = Some j)" if "family t' j = Some (par', cs)" "j \<noteq> ?n" for j par' cs
    using that unfolding fam by (auto simp: family_def split: if_splits)
  have "c < next_pid t' \<and> (\<forall>par' cs'. family t' c = Some (par', cs') \<longrightarrow> par' = Some q)"
    if q: "family t' q = Some (par0, cs)" "c \<in> set cs" for q par0 cs c
  proof -
    have qn: "q \<noteq> ?n" using q by (auto simp: fam)
    from old [OF q(1) qn] obtain cs0 where cs0: "family t q = Some (par0, cs0)"
      "c = ?n \<or> c \<in> set cs0" "c = ?n \<longrightarrow> c \<in> set cs0 \<or> par = Some q" using q(2) by blast
    show ?thesis
    proof (cases "c \<in> set cs0")
      case True
      note c = pt_wf_family(1,2) [OF wf cs0(1) True]
      then have "c \<noteq> ?n" "c < next_pid t'" using up by auto
      moreover from this have "par' = Some q" if "family t' c = Some (par', cs')" for par' cs'
        using old [OF that] c(2) by blast
      ultimately show ?thesis by blast
    next
      case False
      with cs0 up show ?thesis by (auto simp: fam)
    qed
  qed
  moreover have "c \<in> set cs'"
    if c: "family t' c = Some (Some q, cs)" "q < c" "family t' q = Some (par0, cs')" for c q cs par0 cs'
  proof (cases "c = ?n")
    case True
    with c show ?thesis by (auto simp: fam split: if_splits)
  next
    case False
    from old [OF c(1) False] obtain cs0 where c0: "family t c = Some (Some q, cs0)" by blast
    then have "q \<noteq> ?n" using lt [of c] c(2) by auto
    from old [OF c(3) this] obtain cs1 where "family t q = Some (par0, cs1)" "set cs1 \<subseteq> set cs'" by blast
    with pt_wf_family(3) [OF wf c0 c(2)] show ?thesis by blast
  qed
  ultimately have "family_ok t'" unfolding family_ok_def by blast
  moreover have "one_running t'"
    using wf
    by (auto simp: pt_wf_def one_running_def get cur new_process_def split: if_splits)
  ultimately show ?thesis using ok' by (simp add: pt_wf_def)
qed

section \<open>Removing a process\<close>

lemma position_pid:
  assumes "pids_ok t"
  shows "position (has_pid i) (processes t) =
    (if get_process t i = None then None else Some (unat i - 1))"
proof (cases "position (has_pid i) (processes t)")
  case None
  then have "get_process t i = None" by (auto simp: get_process_None has_pid_iff)
  with None show ?thesis by simp
next
  case (Some k)
  then have "k < length (processes t)" "has_pid i (processes t ! k)"
    by (auto simp: position_Some_iff)
  then obtain p where "processes t ! k = Some p" "proc_pid p = i" by (auto simp: has_pid_iff)
  moreover from this have "unat i = k + 1"
    using assms \<open>k < length (processes t)\<close> by (auto simp: pids_ok_def)
  ultimately have "get_process t i = Some p"
    using assms \<open>k < length (processes t)\<close> by (auto simp: get_process_index)
  with Some \<open>unat i = k + 1\<close> show ?thesis by simp
qed

lemma get_fold_terminate:
  "get_process (fold (\<lambda>c. with_process_mut c (terminate code)) cs t) j =
     (if j \<in> set cs then map_option (terminate code) (get_process t j) else get_process t j)"
  by (induction cs arbitrary: t) (auto simp: get_with_process_mut option.map_comp comp_def)

lemma fold_terminate_fields [frame_simps]:
  "length (processes (fold (\<lambda>c. with_process_mut c (terminate code)) cs t)) = length (processes t)"
  "next_pid (fold (\<lambda>c. with_process_mut c (terminate code)) cs t) = next_pid t"
  "current_pid (fold (\<lambda>c. with_process_mut c (terminate code)) cs t) = current_pid t"
  "max_processes (fold (\<lambda>c. with_process_mut c (terminate code)) cs t) = max_processes t"
  by (induction cs arbitrary: t) (simp_all add: frame_simps)

lemma fold_terminate_pids_ok:
  "pids_ok (fold (\<lambda>c. with_process_mut c (terminate code)) cs t) \<longleftrightarrow> pids_ok t"
  by (induction cs arbitrary: t) (simp_all add: pids_ok_with_mut)

lemma remove_process_None: "pids_ok t \<Longrightarrow> get_process t i = None \<Longrightarrow> remove_process t i = (Err ProcessNotFound, t)"
  by (simp add: remove_process_def position_pid)

text \<open>The table after \<open>p\<close>, with identifier \<open>i\<close>, is removed, seen through lookups.\<close>

lemma remove_process_Some:
  assumes ok: "pids_ok t" and p: "get_process t i = Some p"
  obtains t' where "remove_process t i = (Ok p, t')"
    "\<And>j. get_process t' j =
       (if j = i then None
        else map_option
          (\<lambda>x. (if j \<in> set (children p) then terminate (- 1) else id)
                 ((if parent_pid p = Some j then remove_child i else id) x)) (get_process t j))"
    "current_pid t' = current_pid t" "max_processes t' = max_processes t" "next_pid t' = next_pid t"
    "length (processes t') = length (processes t)" "pids_ok t'"
proof -
  define k where "k = unat i - 1"
  have k: "k < length (processes t)" "processes t ! k = Some p" "unat i = k + 1"
    using p unfolding get_process_index [OF ok] k_def by auto
  define t1 where "t1 = t\<lparr>processes := (processes t)[k := None]\<rparr>"
  define t2 where "t2 = (case parent_pid p of Some q \<Rightarrow> with_process_mut q (remove_child i) t1 | None \<Rightarrow> t1)"
  define t' where "t' = fold (\<lambda>c. with_process_mut c (terminate (- 1))) (children p) t2"
  have rm: "remove_process t i = (Ok p, t')"
    using k p unfolding remove_process_def position_pid [OF ok] t'_def t2_def t1_def
    by (simp add: Let_def)
  have ok1: "pids_ok t1" using ok k(1) by (auto simp: pids_ok_def t1_def nth_list_update split: if_splits)
  have "get_process t1 j = Some x \<longleftrightarrow> j \<noteq> i \<and> get_process t j = Some x" for j x
    unfolding get_process_index [OF ok1] get_process_index [OF ok]
    using k(1,3) by (auto simp: t1_def nth_list_update word_unat_eq_iff)
  then have g1: "get_process t1 j = (if j = i then None else get_process t j)" for j
    by (metis option.exhaust)
  have "get_process t' j = (if j = i then None
        else map_option
          (\<lambda>x. (if j \<in> set (children p) then terminate (- 1) else id)
                 ((if parent_pid p = Some j then remove_child i else id) x)) (get_process t j))" for j
    by (auto simp: t'_def t2_def get_fold_terminate get_with_process_mut g1 option.map_comp comp_def
        option.map_id split: option.splits)
  moreover have "pids_ok t'"
    using ok1 by (auto simp: t'_def t2_def fold_terminate_pids_ok pids_ok_with_mut split: option.splits)
  moreover have "current_pid t' = current_pid t" "max_processes t' = max_processes t"
    "next_pid t' = next_pid t" "length (processes t') = length (processes t)"
    by (auto simp: t'_def t2_def t1_def frame_simps split: option.splits)
  ultimately show ?thesis using that rm by blast
qed

lemma remove_process_wf:
  assumes wf: "pt_wf t" and rm: "remove_process t i = (r, t')"
  shows "pt_wf t'"
proof (cases "get_process t i")
  case None
  with rm wf show ?thesis by (simp add: remove_process_None pt_wf_def)
next
  case (Some p)
  have ok: "pids_ok t" using wf by (simp add: pt_wf_def)
  from remove_process_Some [OF ok Some] rm have
    get: "\<And>j. get_process t' j = (if j = i then None else map_option
          (\<lambda>x. (if j \<in> set (children p) then terminate (- 1) else id)
                 ((if parent_pid p = Some j then remove_child i else id) x)) (get_process t j))"
    and fields: "current_pid t' = current_pid t" "next_pid t' = next_pid t" "pids_ok t'"
    by (metis prod.inject)+
  have old: "j \<noteq> i \<and> (\<exists>cs0. family t j = Some (par, cs0) \<and> set cs \<subseteq> set cs0 \<and> set cs0 \<subseteq> insert i (set cs))"
    if "family t' j = Some (par, cs)" for j par cs
    using that by (auto simp: family_def get split: if_splits)
  have "c < next_pid t \<and> (\<forall>par' cs'. family t' c = Some (par', cs') \<longrightarrow> par' = Some q)"
    if q: "family t' q = Some (par, cs)" "c \<in> set cs" for q par cs c
  proof -
    from old [OF q(1)] q(2) obtain cs0 where "family t q = Some (par, cs0)" "c \<in> set cs0" by blast
    note c = pt_wf_family(1,2) [OF wf this]
    have "par' = Some q" if "family t' c = Some (par', cs')" for par' cs'
      using old [OF that] c(2) by blast
    with c(1) show ?thesis by blast
  qed
  moreover have "c \<in> set cs'"
    if c: "family t' c = Some (Some q, cs)" "q < c" "family t' q = Some (par, cs')" for c q cs par cs'
  proof -
    from old [OF c(1)] old [OF c(3)] obtain cs0 cs1 where "c \<noteq> i"
      "family t c = Some (Some q, cs0)" "family t q = Some (par, cs1)" "set cs1 \<subseteq> insert i (set cs')" by blast
    with pt_wf_family(3) [OF wf _ c(2)] show ?thesis by blast
  qed
  ultimately have "family_ok t'" unfolding family_ok_def fields by blast
  moreover have "one_running t'"
    using wf by (auto simp: pt_wf_def one_running_def get fields split: if_splits)
  ultimately show ?thesis using fields(3) by (simp add: pt_wf_def)
qed

section \<open>The current process\<close>

lemma suspend_current_get:
  "get_process (suspend_current t) j = map_option
     (\<lambda>p. if current_pid t = Some j \<and> proc_state p = Running then set_state Ready p else p) (get_process t j)"
  by (auto simp: suspend_current_def get_with_process_mut option.map_ident split: option.splits if_splits)

lemma suspend_current_fields [frame_simps]:
  "length (processes (suspend_current t)) = length (processes t)" "next_pid (suspend_current t) = next_pid t"
  "current_pid (suspend_current t) = current_pid t" "max_processes (suspend_current t) = max_processes t"
  by (simp_all add: suspend_current_def frame_simps split: option.splits)

lemma suspend_current_wf:
  assumes "pt_wf t"
  shows "pids_ok (suspend_current t)" "family_ok (suspend_current t)"
    "get_process (suspend_current t) j = Some p \<Longrightarrow> proc_state p \<noteq> Running"
proof -
  let ?f = "\<lambda>p. if proc_state p = Running then set_state Ready p else p"
  have f: "proc_pid (?f p) = proc_pid p" "parent_pid (?f p) = parent_pid p" "children (?f p) = children p" for p
    by simp_all
  have "pids_ok t" "family_ok t" using assms by (simp_all add: pt_wf_def)
  then show "pids_ok (suspend_current t)" "family_ok (suspend_current t)"
    by (cases "current_pid t"; simp add: suspend_current_def pids_ok_with_mut [of ?f, OF f(1)] family_ok_with_mut [of ?f, OF f])+
  assume "get_process (suspend_current t) j = Some p"
  then obtain q where q: "get_process t j = Some q"
    and p: "p = (if current_pid t = Some j \<and> proc_state q = Running then set_state Ready q else q)"
    by (auto simp: suspend_current_get)
  have "proc_state q = Running \<longrightarrow> current_pid t = Some j"
    using assms q by (simp add: pt_wf_def one_running_def)
  then show "proc_state p \<noteq> Running" by (auto simp: p)
qed

lemma current_pid_update [simp]:
  "get_process (t\<lparr>current_pid := c\<rparr>) = get_process t" "pids_ok (t\<lparr>current_pid := c\<rparr>) = pids_ok t"
  "family_ok (t\<lparr>current_pid := c\<rparr>) = family_ok t"
  by (auto simp: get_process_def pids_ok_def family_ok_def family_def fun_eq_iff)

lemma set_current_process_wf:
  assumes wf: "pt_wf t" and set: "set_current_process t new = (r, t')"
  shows "pt_wf t'"
proof -
  note s = suspend_current_wf [OF wf]
  consider "new = None" | i where "new = Some i" "get_process (suspend_current t) i = None"
    | i p where "new = Some i" "get_process (suspend_current t) i = Some p" by (cases new) auto
  then show ?thesis
  proof cases
    case 1
    with set s show ?thesis by (auto simp: set_current_process_def pt_wf_def one_running_def Let_def)
  next
    case 2
    with set s show ?thesis by (auto simp: set_current_process_def pt_wf_def one_running_def Let_def)
  next
    case 3
    define u where "u = with_process_mut i (set_state Running) (suspend_current t)"
    have "pids_ok u" "family_ok u"
      using s(1,2) by (simp_all add: u_def pids_ok_with_mut family_ok_with_mut)
    moreover have "t' = u\<lparr>current_pid := Some i\<rparr>"
      using set 3 by (simp add: set_current_process_def Let_def u_def)
    moreover have "j = i" if "get_process u j = Some x" "proc_state x = Running" for j x
      using that s(3) [of j x] by (auto simp: u_def get_with_process_mut split: if_splits)
    ultimately show ?thesis by (simp add: pt_wf_def one_running_def)
  qed
qed

section \<open>Runs of the table\<close>

section \<open>Zombies\<close>

lemma remove_process_presence:
  assumes "pt_wf t" "get_process t i \<noteq> None"
  obtains p t' where "remove_process t i = (Ok p, t')" "pt_wf t'"
    "\<And>j. get_process t' j = None \<longleftrightarrow> j = i \<or> get_process t j = None"
    "max_processes t' = max_processes t" "length (processes t') = length (processes t)"
    "next_pid t' = next_pid t"
proof -
  obtain p where p: "get_process t i = Some p" using assms(2) by blast
  have "pids_ok t" using assms(1) by (simp add: pt_wf_def)
  from remove_process_Some [OF this p] obtain t' where rm: "remove_process t i = (Ok p, t')"
    and get: "\<And>j. get_process t' j = None \<longleftrightarrow> j = i \<or> get_process t j = None"
    and fields: "max_processes t' = max_processes t" "length (processes t') = length (processes t)"
      "next_pid t' = next_pid t"
    by (metis (no_types, lifting) option.map_disc_iff)
  with that remove_process_wf [OF assms(1) rm] show ?thesis by blast
qed

lemma cleanup_fold:
  assumes "pt_wf t" "distinct ids" "\<forall>i\<in>set ids. get_process t i \<noteq> None"
  shows "\<exists>t'. fold (\<lambda>i (n, t). case remove_process t i of (Ok _, t') \<Rightarrow> (n + 1, t') | (Err _, t') \<Rightarrow> (n, t'))
      ids (n, t) = (n + length ids, t') \<and> pt_wf t'
    \<and> (\<forall>j. get_process t' j = None \<longleftrightarrow> j \<in> set ids \<or> get_process t j = None)
    \<and> max_processes t' = max_processes t \<and> length (processes t') = length (processes t)
    \<and> next_pid t' = next_pid t"
  using assms
proof (induction ids arbitrary: n t)
  case Nil
  then show ?case by simp
next
  case (Cons i ids)
  have "get_process t i \<noteq> None" using Cons.prems(3) by simp
  from remove_process_presence [OF Cons.prems(1) this] obtain p u where
    u: "remove_process t i = (Ok p, u)" "pt_wf u"
      "\<And>j. get_process u j = None \<longleftrightarrow> j = i \<or> get_process t j = None"
      "max_processes u = max_processes t" "length (processes u) = length (processes t)"
      "next_pid u = next_pid t" by metis
  have "\<forall>j\<in>set ids. get_process u j \<noteq> None" using Cons.prems(2,3) u(3) by auto
  from Cons.IH [OF u(2) _ this, of "n + 1"] Cons.prems(2) u show ?case by auto
qed

lemma set_live_processes: "p \<in> set (live_processes t) \<longleftrightarrow> Some p \<in> set (processes t)"
  by (force simp: live_processes_def List.map_filter_def)

lemma live_process_get:
  assumes "pids_ok t"
  shows "p \<in> set (live_processes t) \<longleftrightarrow> get_process t (proc_pid p) = Some p"
proof -
  have "p \<in> set (live_processes t) \<longleftrightarrow> (\<exists>k<length (processes t). processes t ! k = Some p)"
    unfolding set_live_processes by (rule in_set_conv_nth)
  then show ?thesis
    unfolding get_process_index [OF assms] using assms unfolding pids_ok_def by blast
qed

lemma sorted_live_pids:
  assumes "pids_ok t"
  shows "sorted_wrt (<) (map proc_pid (live_processes t))"
proof -
  have "sorted_wrt (<) (map proc_pid (List.map_filter id xs)) \<and>
      (\<forall>p. Some p \<in> set xs \<longrightarrow> unat (proc_pid p) < length xs + m)"
    if "\<forall>k<length xs. \<forall>p. xs ! k = Some p \<longrightarrow> unat (proc_pid p) = k + m" for xs and m :: nat
    using that
  proof (induction xs rule: rev_induct)
    case Nil
    then show ?case by (simp add: List.map_filter_def)
  next
    case (snoc e xs)
    then have "\<forall>k<length xs. \<forall>p. xs ! k = Some p \<longrightarrow> unat (proc_pid p) = k + m"
      by (metis length_append_singleton less_SucI nth_append)
    note IH = snoc.IH [OF this]
    have e: "unat (proc_pid p) = length xs + m" if "e = Some p" for p
      using snoc.prems that by (auto simp: nth_append)
    show ?case
      using IH e by (cases e) (auto simp: List.map_filter_def less_SucI sorted_wrt_append word_less_nat_alt)
  qed
  from this [of "processes t" 1] assms show ?thesis
    by (auto simp: live_processes_def pids_ok_def)
qed

lemma distinct_live_pids: "pids_ok t \<Longrightarrow> distinct (map proc_pid (live_processes t))"
  using sorted_live_pids by (simp add: strict_sorted_iff)

lemma distinct_by_state: "pids_ok t \<Longrightarrow> distinct (get_processes_by_state t s)"
  unfolding get_processes_by_state_def
  using distinct_live_pids by (auto simp: distinct_map intro: inj_on_subset)

lemma set_by_state:
  assumes "pids_ok t"
  shows "i \<in> set (get_processes_by_state t s) \<longleftrightarrow> (\<exists>p. get_process t i = Some p \<and> proc_state p = s)"
  using get_process_Some [of t i] by (fastforce simp: get_processes_by_state_def live_process_get [OF assms])

lemma set_runnable:
  assumes "pids_ok t"
  shows "i \<in> set (get_runnable_processes t) \<longleftrightarrow> (\<exists>p. get_process t i = Some p \<and> is_runnable p)"
  using get_process_Some [of t i] by (fastforce simp: get_runnable_processes_def live_process_get [OF assms])

lemma cleanup_zombies_correct:
  assumes "pt_wf t"
  shows "\<exists>t'. cleanup_zombies t = (length (get_processes_by_state t Zombie), t') \<and> pt_wf t'
    \<and> (\<forall>j. get_process t' j = None \<longleftrightarrow> j \<in> set (get_processes_by_state t Zombie) \<or> get_process t j = None)
    \<and> max_processes t' = max_processes t \<and> length (processes t') = length (processes t)
    \<and> next_pid t' = next_pid t"
proof -
  have ok: "pids_ok t" using assms by (simp add: pt_wf_def)
  have "\<forall>i\<in>set (get_processes_by_state t Zombie). get_process t i \<noteq> None"
    by (auto simp: set_by_state [OF ok])
  from cleanup_fold [OF assms distinct_by_state [OF ok] this, of 0] show ?thesis
    by (simp add: cleanup_zombies_def)
qed

section \<open>What every step keeps\<close>

lemma create_process_grows:
  assumes "pt_wf t" "create_process t par nm prio = (r, t')"
  shows "max_processes t' = max_processes t" "length (processes t) \<le> length (processes t')"
    "is_ok r \<Longrightarrow> r = Ok (next_pid t) \<and> next_pid t < next_pid t'" "next_pid t \<le> next_pid t'"
    "r = Err ProcessTableFull \<longleftrightarrow> length (processes t) = max_processes t"
proof -
  have ok: "pids_ok t" using assms(1) by (simp add: pt_wf_def)
  have "max_processes t' = max_processes t \<and> length (processes t) \<le> length (processes t')
      \<and> (is_ok r \<longrightarrow> r = Ok (next_pid t) \<and> next_pid t < next_pid t') \<and> next_pid t \<le> next_pid t'
      \<and> (r = Err ProcessTableFull \<longleftrightarrow> length (processes t) = max_processes t)"
  proof (cases "length (processes t) < max_processes t")
    case True
    from create_process_Ok [OF ok True, of par nm prio] assms(2) have
      "r = Ok (next_pid t)" "max_processes t' = max_processes t"
      "length (processes t') = Suc (length (processes t))" "unat (next_pid t') = Suc (unat (next_pid t))"
      by (metis prod.inject)+
    with True show ?thesis by (simp add: word_less_nat_alt word_le_nat_alt)
  next
    case False
    with ok assms(2) show ?thesis by (auto simp: create_process_full pids_ok_def)
  qed
  then show "max_processes t' = max_processes t" "length (processes t) \<le> length (processes t')"
    "is_ok r \<Longrightarrow> r = Ok (next_pid t) \<and> next_pid t < next_pid t'" "next_pid t \<le> next_pid t'"
    "r = Err ProcessTableFull \<longleftrightarrow> length (processes t) = max_processes t" by blast+
qed

lemma set_current_fields:
  assumes "set_current_process t new = (r, t')"
  shows "max_processes t' = max_processes t" "length (processes t') = length (processes t)" "next_pid t' = next_pid t"
  using assms by (auto simp: set_current_process_def Let_def frame_simps split: option.splits if_splits)

lemma pt_step_keeps:
  assumes "pt_step t t'" "pt_wf t"
  shows "pt_wf t' \<and> max_processes t' = max_processes t \<and> length (processes t) \<le> length (processes t')
    \<and> next_pid t \<le> next_pid t'"
  using assms
proof cases
  case (created par nm prio r)
  then show ?thesis
    using create_process_wf [OF assms(2) created] create_process_grows(1,2,4) [OF assms(2) created] by simp
next
  case (removed i r)
  show ?thesis
  proof (cases "get_process t i = None")
    case True
    with removed assms(2) show ?thesis by (simp add: remove_process_None pt_wf_def)
  next
    case False
    from remove_process_presence [OF assms(2) this] removed show ?thesis by (metis order_refl prod.inject)
  qed
next
  case (switched new r)
  with assms(2) set_current_process_wf [OF _ switched] set_current_fields [OF switched] show ?thesis by simp
next
  case (cleaned n)
  with cleanup_zombies_correct [OF assms(2)] show ?thesis by auto
qed

lemma pt_steps_keep:
  assumes "pt_step\<^sup>*\<^sup>* t t'" "pt_wf t"
  shows "pt_wf t' \<and> max_processes t' = max_processes t \<and> length (processes t) \<le> length (processes t')
    \<and> next_pid t \<le> next_pid t'"
  using assms(1)
proof induction
  case base
  with assms(2) show ?case by simp
next
  case (step u v)
  with pt_step_keeps [of u v] show ?case by (metis order_trans)
qed

lemma process_table_new_wf: "n < 2 ^ 32 - 1 \<Longrightarrow> pt_wf (process_table_new n)"
  by (simp add: pt_wf_def pids_ok_def family_ok_def family_def one_running_def get_process_def process_table_new_def)

section \<open>Statistics\<close>

lemma count_entries:
  "fold count_entry xs (ss, ps) = (ss', ps') \<Longrightarrow> length ss = 5 \<Longrightarrow> length ps = 4 \<Longrightarrow>
    length ss' = 5 \<and> length ps' = 4 \<and>
    (\<forall>k<5. ss' ! k = ss ! k + length (filter (\<lambda>p. state_index (proc_state p) = k) (List.map_filter id xs))) \<and>
    (\<forall>k<4. ps' ! k = ps ! k + length (filter (\<lambda>p. priority_index (proc_priority p) = k) (List.map_filter id xs)))"
proof (induction xs arbitrary: ss ps)
  case Nil
  then show ?case by (simp add: List.map_filter_def)
next
  case (Cons e xs)
  show ?case
  proof (cases e)
    case None
    with Cons show ?thesis by (simp add: List.map_filter_def)
  next
    case (Some p)
    have "state_index (proc_state p) < 5" by (cases "proc_state p") auto
    moreover have "priority_index (proc_priority p) < 4" by (cases "proc_priority p") auto
    ultimately show ?thesis
      using Cons.IH [of "ss[state_index (proc_state p) := ss ! state_index (proc_state p) + 1]"
          "ps[priority_index (proc_priority p) := ps ! priority_index (proc_priority p) + 1]"] Cons.prems Some
      by (simp add: List.map_filter_def nth_list_update)
  qed
qed

lemma length_live: "length (live_processes t) = process_count t"
  by (simp add: live_processes_def process_count_def List.map_filter_def)

lemma demo_table_get:
  "get_process demo_table 1 = Some (add_child 2 (new_process (process_table_new 4) None ''init'' System))"
  "length (processes demo_table) = 2" "max_processes demo_table = 4" "next_pid demo_table = 3"
  "current_pid demo_table = None"
  by (simp_all add: demo_table_def create_process_def Let_def process_table_new_def with_process_mut_def
      get_process_def new_process_def process_new_def set_state_def add_child_def)

lemma pt_step_create: "pt_step t (snd (create_process t par nm prio))"
  by (rule pt_step.created) (rule prod.collapse [symmetric])

lemma demo_table_reachable: "pt_step\<^sup>*\<^sup>* (process_table_new 4) demo_table"
  unfolding demo_table_def
  by (rule rtranclp.rtrancl_into_rtrancl [of pt_step, OF r_into_rtranclp [of pt_step, OF pt_step_create] pt_step_create])

lemma demo_table_wf: "pt_wf demo_table"
  using pt_steps_keep [OF demo_table_reachable process_table_new_wf] by simp

lemma with_process_mut_map:
  assumes "pids_ok t"
  shows "processes (with_process_mut i f t) = map (map_option (\<lambda>x. if proc_pid x = i then f x else x)) (processes t)"
proof -
  have "k = l" if "k < length (processes t)" "l < length (processes t)" "has_pid i (processes t ! k)"
    "has_pid i (processes t ! l)" for k l
  proof -
    have "unat i = j + 1" if "j < length (processes t)" "has_pid i (processes t ! j)" for j
      using that assms by (auto simp: pids_ok_def has_pid_iff)
    from this [of k] this [of l] that show "k = l" by simp
  qed
  then have "processes (with_process_mut i f t) =
      map (\<lambda>e. if has_pid i e then map_option f e else e) (processes t)"
    by (simp add: with_process_mut_def modify_first_map)
  moreover have "(if has_pid i e then map_option f e else e) = map_option (\<lambda>x. if proc_pid x = i then f x else x) e" for e
    by (cases e) simp_all
  ultimately show ?thesis by simp
qed

lemma no_stale_child:
  assumes "pt_wf t" "Some x \<in> set (processes t)"
  shows "next_pid t \<notin> set (children x)"
proof -
  have ok: "pids_ok t" "family_ok t" using assms(1) by (simp_all add: pt_wf_def)
  from assms(2) obtain k where "k < length (processes t)" "processes t ! k = Some x" by (auto simp: in_set_conv_nth)
  then have "get_process t (proc_pid x) = Some x"
    using ok(1) get_process_index [OF ok(1)] by (auto simp: pids_ok_def)
  then have "family t (proc_pid x) = Some (parent_pid x, children x)" by (simp add: family_def)
  with ok(2) show ?thesis unfolding family_ok_def by blast
qed

section \<open>Properties\<close>

text \<open>
  At most one process runs. In every table the kernel can reach, two processes that are
  both running are the same, and it is the one the table names as current.
\<close>

theorem at_most_one_running:
  assumes "pt_step\<^sup>*\<^sup>* (process_table_new n) t" "n < 2 ^ 32 - 1"
    "get_process t i = Some p" "proc_state p = Running"
  shows "current_pid t = Some i \<and> (\<forall>j q. get_process t j = Some q \<and> proc_state q = Running \<longrightarrow> j = i)"
proof -
  have "one_running t"
    using pt_steps_keep [OF assms(1) process_table_new_wf [OF assms(2)]] by (simp add: pt_wf_def)
  then show ?thesis using assms(3,4) unfolding one_running_def by (metis option.inject)
qed

theorem at_most_one_running_witness:
  "\<exists>t. set_current_process demo_table (Some 1) = (Ok (), t) \<and> current_pid t = Some 1"
proof -
  define t where "t = snd (set_current_process demo_table (Some 1))"
  have set: "set_current_process demo_table (Some 1) = (Ok (), t)"
    by (simp add: t_def set_current_process_def suspend_current_def demo_table_get Let_def)
  then have reach: "pt_step\<^sup>*\<^sup>* (process_table_new 4) t"
    using demo_table_reachable pt_step.switched by (metis rtranclp.rtrancl_into_rtrancl)
  have "\<exists>p. get_process t 1 = Some p \<and> proc_state p = Running"
    by (simp add: t_def set_current_process_def suspend_current_def demo_table_get Let_def get_with_process_mut)
  then have "current_pid t = Some 1" using at_most_one_running [OF reach] by auto
  with set show ?thesis by blast
qed

text \<open>
  Parents and children agree. In every reachable table a process listed as a child, if it
  is still there, names the process that lists it as its parent; and a process whose parent
  was there first, and still is, is on its parent's list.
\<close>

theorem family_consistent:
  assumes "pt_step\<^sup>*\<^sup>* (process_table_new n) t" "n < 2 ^ 32 - 1"
    "get_process t i = Some p" "get_process t j = Some c"
  shows "(j \<in> set (children p) \<longrightarrow> parent_pid c = Some i) \<and> (parent_pid c = Some i \<and> i < j \<longrightarrow> j \<in> set (children p))"
proof -
  have wf: "pt_wf t" using pt_steps_keep [OF assms(1) process_table_new_wf [OF assms(2)]] by simp
  have "family t i = Some (parent_pid p, children p)" "family t j = Some (parent_pid c, children c)"
    using assms(3,4) by (simp_all add: family_def)
  then show ?thesis
    using pt_wf_family(2) [OF wf, of i "parent_pid p" "children p" j "parent_pid c" "children c"]
      pt_wf_family(3) [OF wf, of j i "children c" "parent_pid p" "children p"] by simp
qed

theorem family_consistent_witness:
  "\<exists>p c. get_process demo_table 1 = Some p \<and> get_process demo_table 2 = Some c \<and> 2 \<in> set (children p)"
proof -
  have c: "get_process demo_table 2 = Some (new_process
      (snd (create_process (process_table_new 4) None ''init'' System)) (Some 1) ''shell'' Interactive)"
    by (simp add: demo_table_def create_process_def Let_def process_table_new_def with_process_mut_def
      get_process_def new_process_def process_new_def set_state_def add_child_def)
  show ?thesis
    using family_consistent [OF demo_table_reachable _ demo_table_get(1) c] demo_table_get(1) c
    by (simp add: new_process_def)
qed

text \<open>
  Identifiers are never reused. Whatever happens between two creations of processes, the
  later one gets a larger identifier, one that no process in the table has.
\<close>

theorem pids_never_reused:
  assumes "pt_step\<^sup>*\<^sup>* (process_table_new n) t" "n < 2 ^ 32 - 1"
    "create_process t par nm prio = (Ok i, t1)" "pt_step\<^sup>*\<^sup>* t1 t2"
    "create_process t2 par' nm' prio' = (Ok j, t3)"
  shows "i < j \<and> get_process t2 j = None"
proof -
  have wf: "pt_wf t" using pt_steps_keep [OF assms(1) process_table_new_wf [OF assms(2)]] by simp
  note c1 = create_process_grows [OF wf assms(3)]
  have "pt_wf t1" by (rule create_process_wf [OF wf assms(3)])
  note k = pt_steps_keep [OF assms(4) this]
  then have "pt_wf t2" by simp
  note c2 = create_process_grows [OF this assms(5)]
  have "i = next_pid t" "next_pid t < next_pid t1" "j = next_pid t2" using c1(3) c2(3) by simp_all
  moreover have "get_process t2 (next_pid t2) = None"
    using \<open>pt_wf t2\<close> by (simp add: pt_wf_def next_pid_fresh)
  ultimately show ?thesis using k by auto
qed

theorem pids_never_reused_witness:
  "\<exists>i j t1 t2. create_process demo_table None ''a'' Normal = (Ok i, t1) \<and>
     create_process t1 None ''b'' Normal = (Ok j, t2) \<and> i < j"
proof -
  obtain t1 where t1: "create_process demo_table None ''a'' Normal = (Ok 3, t1)"
    and len: "length (processes t1) = 3" "max_processes t1 = 4" "next_pid t1 = 4"
    by (simp add: create_process_def demo_table_get Let_def)
  obtain t2 where t2: "create_process t1 None ''b'' Normal = (Ok 4, t2)"
    by (simp add: create_process_def len Let_def)
  from pids_never_reused [OF demo_table_reachable _ t1 rtranclp.rtrancl_refl t2] t1 t2 show ?thesis by auto
qed

text \<open>
  Removing a process ends its children and takes it off its parent's list. Every other
  process is left as it was, and removing an identifier that is not in the table is reported
  and changes nothing.
\<close>

theorem remove_process_effect:
  assumes "pt_step\<^sup>*\<^sup>* (process_table_new n) t" "n < 2 ^ 32 - 1"
  shows "case get_process t i of
      None \<Rightarrow> remove_process t i = (Err ProcessNotFound, t)
    | Some p \<Rightarrow> \<exists>t'. remove_process t i = (Ok p, t') \<and> get_process t' i = None
        \<and> (\<forall>j c. j \<noteq> i \<and> j \<in> set (children p) \<and> get_process t j = Some c \<longrightarrow>
             (\<exists>c'. get_process t' j = Some c' \<and> proc_state c' = Zombie \<and> exit_code c' = Some (- 1)))
        \<and> (\<forall>q. parent_pid p = Some q \<and> q \<noteq> i \<and> get_process t q \<noteq> None \<longrightarrow>
             i \<notin> set (children (the (get_process t' q))))
        \<and> (\<forall>j. j \<noteq> i \<and> j \<notin> set (children p) \<and> parent_pid p \<noteq> Some j \<longrightarrow> get_process t' j = get_process t j)"
proof (cases "get_process t i")
  case None
  have "pids_ok t"
    using pt_steps_keep [OF assms(1) process_table_new_wf [OF assms(2)]] by (simp add: pt_wf_def)
  with None show ?thesis by (simp add: remove_process_None)
next
  case (Some p)
  have "pids_ok t"
    using pt_steps_keep [OF assms(1) process_table_new_wf [OF assms(2)]] by (simp add: pt_wf_def)
  from remove_process_Some [OF this Some] obtain t' where rm: "remove_process t i = (Ok p, t')"
    and get: "\<And>j. get_process t' j = (if j = i then None else map_option
          (\<lambda>x. (if j \<in> set (children p) then terminate (- 1) else id)
                 ((if parent_pid p = Some j then remove_child i else id) x)) (get_process t j))" by metis
  have "get_process t' j = get_process t j"
    if "j \<noteq> i" "j \<notin> set (children p)" "parent_pid p \<noteq> Some j" for j
    using that by (cases "get_process t j") (simp_all add: get)
  moreover have "i \<notin> set (children (the (get_process t' q)))"
    if "parent_pid p = Some q" "q \<noteq> i" "get_process t q \<noteq> None" for q
    using that by (auto simp: get)
  moreover have "\<exists>c'. get_process t' j = Some c' \<and> proc_state c' = Zombie \<and> exit_code c' = Some (- 1)"
    if "j \<noteq> i" "j \<in> set (children p)" "get_process t j = Some c" for j c
    using that by (simp add: get)
  moreover have "get_process t' i = None" by (simp add: get)
  ultimately show ?thesis using Some rm by auto
qed

theorem remove_process_effect_witness:
  "\<exists>p t'. remove_process demo_table 1 = (Ok p, t') \<and> get_process t' 1 = None"
  using remove_process_effect [OF demo_table_reachable, of 1] by (auto simp: demo_table_get)

text \<open>
  Cleaning up removes every zombie, and nothing else: the count it returns is the number of
  zombies there were, and the identifiers that are gone are exactly theirs.
\<close>

theorem cleanup_removes_zombies:
  assumes "pt_step\<^sup>*\<^sup>* (process_table_new n) t" "n < 2 ^ 32 - 1" "cleanup_zombies t = (count, t')"
  shows "count = zombie_processes (get_statistics t) \<and> pt_wf t' \<and>
    (\<forall>j. get_process t' j = None \<longleftrightarrow>
       get_process t j = None \<or> (\<exists>p. get_process t j = Some p \<and> proc_state p = Zombie))"
proof -
  have wf: "pt_wf t" using pt_steps_keep [OF assms(1) process_table_new_wf [OF assms(2)]] by simp
  then have ok: "pids_ok t" by (simp add: pt_wf_def)
  obtain ss ps where f: "fold count_entry (processes t) (replicate 5 0, replicate 4 0) = (ss, ps)" by fastforce
  have idx: "state_index s = 4 \<longleftrightarrow> s = Zombie" for s by (cases s) auto
  have "zombie_processes (get_statistics t) = length (get_processes_by_state t Zombie)"
    using count_entries [OF f] by (simp add: get_statistics_def f get_processes_by_state_def live_processes_def idx)
  with cleanup_zombies_correct [OF wf] assms(3) show ?thesis by (auto simp: set_by_state [OF ok])
qed

theorem cleanup_removes_zombies_witness:
  "\<exists>t t'. remove_process demo_table 1 = (Ok (the (get_process demo_table 1)), t) \<and>
     cleanup_zombies t = (zombie_processes (get_statistics t), t') \<and> pt_wf t'"
proof -
  have "pids_ok demo_table" using demo_table_wf by (simp add: pt_wf_def)
  from remove_process_Some [OF this demo_table_get(1)] obtain t where
    t: "remove_process demo_table 1 = (Ok (the (get_process demo_table 1)), t)"
    unfolding demo_table_get(1) option.sel by metis
  then have reach: "pt_step\<^sup>*\<^sup>* (process_table_new 4) t"
    using demo_table_reachable pt_step.removed by (metis rtranclp.rtrancl_into_rtrancl)
  obtain c t' where c: "cleanup_zombies t = (c, t')" by fastforce
  from cleanup_removes_zombies [OF reach _ c] t c show ?thesis by auto
qed

text \<open>
  The statistics add up. The five counts by state and the four counts by priority each sum to
  the number of processes, and the ready and running counts to the number of runnable ones.
\<close>

theorem statistics_add_up:
  "let s = get_statistics t in
     creating_processes s + ready_processes s + running_processes s + blocked_processes s + zombie_processes s
       = total_processes s
   \<and> system_priority_processes s + interactive_priority_processes s + normal_priority_processes s
       + background_priority_processes s = total_processes s
   \<and> ready_processes s + running_processes s = length (get_runnable_processes t)"
proof -
  obtain ss ps where f: "fold count_entry (processes t) (replicate 5 0, replicate 4 0) = (ss, ps)" by fastforce
  note c = count_entries [OF f, simplified, folded live_processes_def]
  have s5: "state_index s < 5" for s by (cases s) auto
  have p4: "priority_index p < 4" for p by (cases p) auto
  have "(\<Sum>k<5. ss ! k) = process_count t"
    using c length_filter_partition [of "live_processes t" "\<lambda>p. state_index (proc_state p)" 5] s5
    by (simp add: length_live)
  moreover have "(\<Sum>k<4. ps ! k) = process_count t"
    using c length_filter_partition [of "live_processes t" "\<lambda>p. priority_index (proc_priority p)" 4] p4
    by (simp add: length_live)
  moreover have "ss ! 1 + ss ! 2 = length (get_runnable_processes t)"
  proof -
    have idx: "state_index s = Suc 0 \<longleftrightarrow> s = Ready" "state_index s = 2 \<longleftrightarrow> s = Running" for s
      by (cases s; simp)+
    have "length (filter is_runnable xs) = length (filter (\<lambda>p. proc_state p = Ready) xs)
        + length (filter (\<lambda>p. proc_state p = Running) xs)" for xs
      by (induction xs) (auto simp: is_runnable_def)
    then show ?thesis using c by (simp add: get_runnable_processes_def idx)
  qed
  ultimately show ?thesis
    unfolding get_statistics_def f prod.case Let_def by (simp add: eval_nat_numeral lessThan_Suc)
qed

text \<open>
  A full table never recovers. Once as many processes have been created as the table has
  places, every further creation fails, however many processes are removed in between.
\<close>

theorem full_table_never_recovers:
  assumes "pt_step\<^sup>*\<^sup>* (process_table_new n) t" "n < 2 ^ 32 - 1" "length (processes t) = n"
    "pt_step\<^sup>*\<^sup>* t t'"
  shows "create_process t' par nm prio = (Err ProcessTableFull, t')"
proof -
  note k = pt_steps_keep [OF assms(1) process_table_new_wf [OF assms(2)]]
  then have "max_processes t = n" by (simp add: process_table_new_def)
  with k pt_steps_keep [OF assms(4)] assms(3) show ?thesis by (simp add: create_process_full)
qed

theorem full_table_never_recovers_witness:
  "\<exists>p t'. remove_process (snd (create_process (process_table_new 1) None ''a'' Normal)) 1 = (Ok p, t') \<and>
     process_count t' = 0 \<and> create_process t' None ''b'' Normal = (Err ProcessTableFull, t')"
proof -
  define t where "t = snd (create_process (process_table_new 1) None ''a'' Normal)"
  define p where "p = new_process (process_table_new 1) None ''a'' Normal"
  define t' where "t' = t\<lparr>processes := [None]\<rparr>"
  have t: "processes t = [Some p]"
    by (simp add: t_def p_def create_process_def process_table_new_def new_process_def)
  then have rm: "remove_process t 1 = (Ok p, t')"
    by (simp add: remove_process_def p_def new_process_def process_table_new_def t'_def process_new_def set_state_def)
  have "pt_step\<^sup>*\<^sup>* (process_table_new 1) t" unfolding t_def by (rule r_into_rtranclp) (rule pt_step_create)
  from full_table_never_recovers [OF this _ _ r_into_rtranclp [of pt_step, OF pt_step.removed [OF rm]]]
  have "create_process t' None ''b'' Normal = (Err ProcessTableFull, t')" by (simp add: t)
  moreover have "process_count t' = 0" by (simp add: t'_def process_count_def)
  ultimately show ?thesis using rm unfolding t_def by blast
qed

end
