(* ===== verification/Permission_Check.thy ===== *)
theory Permission_Check
  imports Kosh_Prelude
begin

text \<open>
  The contract between the parts of the kernel that ask for permission and the part that
  answers: a check tells whether the subject holds the right, and changes no right. Its
  clients make several checks in a row, whose answers therefore do not depend on how many of
  them were made before.
\<close>

section \<open>Sequences of checks\<close>

text \<open>
  What the sources write as \<^verbatim>\<open>check(a) || check(b)\<close>: the second check is only made where the
  first fails. The list form makes the checks in order until one succeeds.
\<close>

fun check_any :: "('s \<Rightarrow> 'q \<Rightarrow> bool \<times> 's) \<Rightarrow> 's \<Rightarrow> 'q list \<Rightarrow> bool \<times> 's" where
  "check_any check s [] = (False, s)"
| "check_any check s (q # qs) =
     (case check s q of (True, s') \<Rightarrow> (True, s') | (False, s') \<Rightarrow> check_any check s' qs)"

section \<open>The contract\<close>

locale permission_check =
  fixes permits :: "'s \<Rightarrow> 'q \<Rightarrow> bool"
    and check :: "'s \<Rightarrow> 'q \<Rightarrow> bool \<times> 's"
  assumes check_answer: "fst (check s q) = permits s q"
    and check_keeps: "permits (snd (check s q)) = permits s"
begin

lemma check_any_correct:
  "fst (check_any check s qs) = (\<exists>q\<in>set qs. permits s q) \<and> permits (snd (check_any check s qs)) = permits s"
proof (induction qs arbitrary: s)
  case Nil
  then show ?case by simp
next
  case (Cons q qs)
  obtain b s' where c: "check s q = (b, s')" by fastforce
  with check_answer [of s q] check_keeps [of s q] have "b = permits s q" "permits s' = permits s" by simp_all
  with c Cons.IH [of s'] show ?case by (cases b) auto
qed

lemma check_any_answer: "fst (check_any check s qs) = (\<exists>q\<in>set qs. permits s q)"
  using check_any_correct by blast

lemma check_any_keeps: "permits (snd (check_any check s qs)) = permits s"
  using check_any_correct by blast

end

end
