(* ===== verification/Capabilities.thy ===== *)
theory Capabilities
  imports Process_Table Permission_Check
begin

text \<open>
  Capabilities, from \<^verbatim>\<open>ipc/capability.rs\<close>: what a capability permits, the capability sets of the
  processes, and the manager that grants, checks, delegates and revokes them. The global
  manager and the counter that numbers capabilities are one state record here. The clock is
  the module's own \<^verbatim>\<open>get_current_time_ms\<close>, which returns zero.

  The maps from processes are partial functions; sums over their values are sums over the
  domain.
\<close>

section \<open>Capabilities\<close>

type_synonym capability_id = u64

datatype capability_type =
  CapRead | CapWrite | CapExecute | CapCreate | CapDelete | CapSendMessage | CapReceiveMessage
| CapSystemCall | CapDeviceAccess | CapMemoryManagement | CapProcessManagement | CapFileSystem
| CapNetwork | CapAdmin

datatype resource_id =
  ResAny | ResProcess process_id | ResDevice string | ResFile string | ResNetwork string | ResSystem string

record capability =
  cap_id :: capability_id
  cap_type :: capability_type
  cap_resource :: resource_id
  cap_owner :: process_id
  cap_granter :: "process_id option"
  cap_delegatable :: bool
  cap_expires_at :: "u64 option"
  cap_created_at :: u64

definition cap_current_time_ms :: u64 where
  "cap_current_time_ms = 0"

definition capability_new ::
    "capability_id \<Rightarrow> capability_type \<Rightarrow> resource_id \<Rightarrow> process_id \<Rightarrow> process_id option \<Rightarrow> capability" where
  "capability_new i ty res own granter =
     \<lparr>cap_id = i, cap_type = ty, cap_resource = res, cap_owner = own, cap_granter = granter,
      cap_delegatable = False, cap_expires_at = None, cap_created_at = cap_current_time_ms\<rparr>"

definition cap_is_expired :: "capability \<Rightarrow> bool" where
  "cap_is_expired c = (case cap_expires_at c of Some t \<Rightarrow> cap_current_time_ms > t | None \<Rightarrow> False)"

definition cap_matches :: "capability \<Rightarrow> capability_type \<Rightarrow> resource_id \<Rightarrow> bool" where
  "cap_matches c ty res =
     (if cap_is_expired c then False
      else if cap_type c \<noteq> ty then False
      else cap_resource c = ResAny \<or> cap_resource c = res)"

definition set_expiration :: "u64 \<Rightarrow> capability \<Rightarrow> capability" where
  "set_expiration t c = c\<lparr>cap_expires_at := Some t\<rparr>"

definition make_delegatable :: "capability \<Rightarrow> capability" where
  "make_delegatable c = c\<lparr>cap_delegatable := True\<rparr>"

section \<open>Capability sets\<close>

type_synonym capability_set = "capability list"

definition cs_add :: "capability \<Rightarrow> capability_set \<Rightarrow> capability_set" where
  "cs_add c cs = cs @ [c]"

definition cs_remove :: "capability_id \<Rightarrow> capability_set \<Rightarrow> capability option \<times> capability_set" where
  "cs_remove i cs =
     (case position (\<lambda>c. cap_id c = i) cs of
        Some k \<Rightarrow> (Some (cs ! k), vec_remove k cs)
      | None \<Rightarrow> (None, cs))"

definition has_capability :: "capability_set \<Rightarrow> capability_type \<Rightarrow> resource_id \<Rightarrow> bool" where
  "has_capability cs ty res = list_ex (\<lambda>c. cap_matches c ty res) cs"

definition get_capabilities_by_type :: "capability_set \<Rightarrow> capability_type \<Rightarrow> capability list" where
  "get_capabilities_by_type cs ty = filter (\<lambda>c. cap_type c = ty \<and> \<not> cap_is_expired c) cs"

definition get_capabilities_by_resource :: "capability_set \<Rightarrow> resource_id \<Rightarrow> capability list" where
  "get_capabilities_by_resource cs res = filter (\<lambda>c. cap_matches c (cap_type c) res) cs"

definition cs_cleanup_expired :: "capability_set \<Rightarrow> nat \<times> capability_set" where
  "cs_cleanup_expired cs =
     (let kept = filter (\<lambda>c. \<not> cap_is_expired c) cs in (length cs - length kept, kept))"

text \<open>The size of a set in bytes, given the size of a \<^verbatim>\<open>Capability\<close> in memory.\<close>

definition cs_size :: "usize \<Rightarrow> capability_set \<Rightarrow> usize" where
  "cs_size sz_capability cs = of_nat (length cs) * sz_capability"

datatype capability_error =
  CapabilityNotFound | CapPermissionDenied | CapabilityExpired | NotDelegatable | InvalidCapability
| CapResourceExhausted

section \<open>The manager\<close>

record capability_manager =
  process_capabilities :: "process_id \<rightharpoonup> capability_set"
  total_capabilities_created :: u64
  checks_performed :: u64
  checks_failed :: u64

definition capability_manager_new :: capability_manager where
  "capability_manager_new =
     \<lparr>process_capabilities = Map.empty, total_capabilities_created = 0, checks_performed = 0, checks_failed = 0\<rparr>"

text \<open>\<^verbatim>\<open>entry(p).or_insert_with(CapabilitySet::new)\<close>, then \<^verbatim>\<open>add\<close>.\<close>

definition add_to_process :: "process_id \<Rightarrow> capability \<Rightarrow> capability_manager \<Rightarrow> capability_manager" where
  "add_to_process p c m =
     (let cs = (case process_capabilities m p of Some cs \<Rightarrow> cs | None \<Rightarrow> []) in
      m\<lparr>process_capabilities := (process_capabilities m)(p \<mapsto> cs_add c cs),
        total_capabilities_created := total_capabilities_created m + 1\<rparr>)"

definition grant_capability ::
    "capability_manager \<Rightarrow> u64 \<Rightarrow> process_id \<Rightarrow> capability_type \<Rightarrow> resource_id \<Rightarrow> process_id option
      \<Rightarrow> (capability_id, capability_error) result \<times> capability_manager \<times> u64" where
  "grant_capability m nxt p ty res granter =
     (let c = capability_new nxt ty res p granter in (Ok (cap_id c), add_to_process p c m, nxt + 1))"

definition manager_check ::
    "capability_manager \<Rightarrow> process_id \<Rightarrow> capability_type \<Rightarrow> resource_id \<Rightarrow> bool \<times> capability_manager" where
  "manager_check m p ty res =
     (let m1 = m\<lparr>checks_performed := checks_performed m + 1\<rparr>;
          failed = m1\<lparr>checks_failed := checks_failed m1 + 1\<rparr>
      in case process_capabilities m1 p of
           Some cs \<Rightarrow> (if has_capability cs ty res then (True, m1) else (False, failed))
         | None \<Rightarrow> (False, failed))"

definition manager_delegate ::
    "capability_manager \<Rightarrow> u64 \<Rightarrow> process_id \<Rightarrow> process_id \<Rightarrow> capability_id
      \<Rightarrow> (capability_id, capability_error) result \<times> capability_manager \<times> u64" where
  "manager_delegate m nxt from_p to_p i =
     (case process_capabilities m from_p of
        None \<Rightarrow> (Err CapabilityNotFound, m, nxt)
      | Some cs \<Rightarrow>
          (case find (\<lambda>c. cap_id c = i) cs of
             None \<Rightarrow> (Err CapabilityNotFound, m, nxt)
           | Some c \<Rightarrow>
               (if \<not> cap_delegatable c then (Err NotDelegatable, m, nxt)
                else if cap_is_expired c then (Err CapabilityExpired, m, nxt)
                else let d = (capability_new nxt (cap_type c) (cap_resource c) to_p (Some from_p))
                               \<lparr>cap_expires_at := cap_expires_at c, cap_delegatable := cap_delegatable c\<rparr>
                     in (Ok (cap_id d), add_to_process to_p d m, nxt + 1))))"

definition manager_revoke ::
    "capability_manager \<Rightarrow> process_id \<Rightarrow> capability_id \<Rightarrow> (unit, capability_error) result \<times> capability_manager" where
  "manager_revoke m p i =
     (case process_capabilities m p of
        None \<Rightarrow> (Err CapabilityNotFound, m)
      | Some cs \<Rightarrow>
          (case cs_remove i cs of
             (None, cs') \<Rightarrow> (Err CapabilityNotFound, m\<lparr>process_capabilities := (process_capabilities m)(p \<mapsto> cs')\<rparr>)
           | (Some c, cs') \<Rightarrow> (Ok (), m\<lparr>process_capabilities := (process_capabilities m)(p \<mapsto> cs')\<rparr>)))"

record capability_statistics =
  cst_total_capabilities :: nat
  cst_expired_capabilities :: nat
  cst_processes_with_capabilities :: nat
  cst_total_capabilities_created :: u64
  cst_checks_performed :: u64
  cst_checks_failed :: u64

definition manager_statistics :: "capability_manager \<Rightarrow> capability_statistics" where
  "manager_statistics m =
     (let pc = process_capabilities m in
      \<lparr>cst_total_capabilities = (\<Sum>p\<in>dom pc. length (the (pc p))),
       cst_expired_capabilities = (\<Sum>p\<in>dom pc. length (filter cap_is_expired (the (pc p)))),
       cst_processes_with_capabilities = card (dom pc),
       cst_total_capabilities_created = total_capabilities_created m,
       cst_checks_performed = checks_performed m,
       cst_checks_failed = checks_failed m\<rparr>)"

definition manager_cleanup_expired :: "capability_manager \<Rightarrow> nat \<times> capability_manager" where
  "manager_cleanup_expired m =
     (let pc = process_capabilities m in
      (\<Sum>p\<in>dom pc. fst (cs_cleanup_expired (the (pc p))),
       m\<lparr>process_capabilities := (\<lambda>p. map_option (\<lambda>cs. snd (cs_cleanup_expired cs)) (pc p))\<rparr>))"

section \<open>The global manager\<close>

record cap_state =
  cap_manager :: "capability_manager option"
  next_capability_id :: u64

definition cap_boot :: cap_state where
  "cap_boot = \<lparr>cap_manager = None, next_capability_id = 1\<rparr>"

definition init_capability_system :: "cap_state \<Rightarrow> cap_state" where
  "init_capability_system g = g\<lparr>cap_manager := Some capability_manager_new\<rparr>"

definition create_capability ::
    "cap_state \<Rightarrow> process_id \<Rightarrow> capability_type \<Rightarrow> resource_id \<Rightarrow> process_id option
      \<Rightarrow> (capability_id, capability_error) result \<times> cap_state" where
  "create_capability g p ty res granter =
     (case cap_manager g of
        None \<Rightarrow> (Err CapResourceExhausted, g)
      | Some m \<Rightarrow>
          (case grant_capability m (next_capability_id g) p ty res granter of
             (r, m', nxt) \<Rightarrow> (r, g\<lparr>cap_manager := Some m', next_capability_id := nxt\<rparr>)))"

type_synonym cap_query = "process_id \<times> capability_type \<times> resource_id"

definition check_capability :: "cap_state \<Rightarrow> cap_query \<Rightarrow> bool \<times> cap_state" where
  "check_capability g q =
     (case cap_manager g of
        None \<Rightarrow> (False, g)
      | Some m \<Rightarrow>
          (case q of (p, ty, res) \<Rightarrow>
             (case manager_check m p ty res of (b, m') \<Rightarrow> (b, g\<lparr>cap_manager := Some m'\<rparr>))))"

definition delegate_capability ::
    "cap_state \<Rightarrow> process_id \<Rightarrow> process_id \<Rightarrow> capability_id \<Rightarrow> (capability_id, capability_error) result \<times> cap_state" where
  "delegate_capability g from_p to_p i =
     (case cap_manager g of
        None \<Rightarrow> (Err CapResourceExhausted, g)
      | Some m \<Rightarrow>
          (case manager_delegate m (next_capability_id g) from_p to_p i of
             (r, m', nxt) \<Rightarrow> (r, g\<lparr>cap_manager := Some m', next_capability_id := nxt\<rparr>)))"

definition revoke_capability ::
    "cap_state \<Rightarrow> process_id \<Rightarrow> capability_id \<Rightarrow> (unit, capability_error) result \<times> cap_state" where
  "revoke_capability g p i =
     (case cap_manager g of
        None \<Rightarrow> (Err CapResourceExhausted, g)
      | Some m \<Rightarrow> (case manager_revoke m p i of (r, m') \<Rightarrow> (r, g\<lparr>cap_manager := Some m'\<rparr>)))"

definition get_capability_statistics :: "cap_state \<Rightarrow> capability_statistics" where
  "get_capability_statistics g =
     (case cap_manager g of
        Some m \<Rightarrow> manager_statistics m
      | None \<Rightarrow> \<lparr>cst_total_capabilities = 0, cst_expired_capabilities = 0,
                  cst_processes_with_capabilities = 0, cst_total_capabilities_created = 0,
                  cst_checks_performed = 0, cst_checks_failed = 0\<rparr>)"

definition cleanup_expired_capabilities :: "cap_state \<Rightarrow> nat \<times> cap_state" where
  "cleanup_expired_capabilities g =
     (case cap_manager g of
        Some m \<Rightarrow> (case manager_cleanup_expired m of (n, m') \<Rightarrow> (n, g\<lparr>cap_manager := Some m'\<rparr>))
      | None \<Rightarrow> (0, g))"

section \<open>Rights and reachable states\<close>

text \<open>The capabilities of a process, and the rights they give it.\<close>

definition caps_of :: "cap_state \<Rightarrow> process_id \<Rightarrow> capability list" where
  "caps_of g p = (case cap_manager g of None \<Rightarrow> []
     | Some m \<Rightarrow> (case process_capabilities m p of None \<Rightarrow> [] | Some cs \<Rightarrow> cs))"

fun permits :: "cap_state \<Rightarrow> cap_query \<Rightarrow> bool" where
  "permits g (p, ty, res) \<longleftrightarrow> (\<exists>c\<in>set (caps_of g p). cap_matches c ty res)"

text \<open>
  The operations of the module that the rest of the kernel can call, in any order. No
  operation reaches into the sets, so \<open>set_expiration\<close> and \<open>make_delegatable\<close> are not steps.
\<close>

inductive cap_step :: "cap_state \<Rightarrow> cap_state \<Rightarrow> bool" where
  granted: "create_capability g p ty res granter = (r, g') \<Longrightarrow> cap_step g g'"
| checked: "check_capability g q = (b, g') \<Longrightarrow> cap_step g g'"
| delegated: "delegate_capability g a b i = (r, g') \<Longrightarrow> cap_step g g'"
| revoked: "revoke_capability g p i = (r, g') \<Longrightarrow> cap_step g g'"
| purged: "cleanup_expired_capabilities g = (n, g') \<Longrightarrow> cap_step g g'"

text \<open>States after \<open>n\<close> operations on an initialised manager.\<close>

inductive cap_run :: "nat \<Rightarrow> cap_state \<Rightarrow> bool" where
  run_start: "cap_run 0 (init_capability_system cap_boot)"
| run_step: "cap_run n g \<Longrightarrow> cap_step g g' \<Longrightarrow> cap_run (Suc n) g'"

text \<open>Capability numbers are below the counter and no two capabilities share one.\<close>

definition ids_fresh :: "cap_state \<Rightarrow> bool" where
  "ids_fresh g \<longleftrightarrow> (\<forall>p. distinct (map cap_id (caps_of g p)) \<and> (\<forall>c\<in>set (caps_of g p). cap_id c < next_capability_id g))
     \<and> (\<forall>p q c d. p \<noteq> q \<and> c \<in> set (caps_of g p) \<and> d \<in> set (caps_of g q) \<longrightarrow> cap_id c \<noteq> cap_id d)"

definition demo_caps :: cap_state where
  "demo_caps = snd (create_capability (init_capability_system cap_boot) 1 CapSendMessage (ResProcess 2) None)"

text \<open>The same state where the owner has marked its capability as delegatable.\<close>

definition demo_delegatable :: cap_state where
  "demo_delegatable =
     demo_caps\<lparr>cap_manager := map_option (\<lambda>m. m\<lparr>process_capabilities := (process_capabilities m)
       (1 := map_option (map make_delegatable) (process_capabilities m 1))\<rparr>) (cap_manager demo_caps)\<rparr>"

section \<open>Effects on the capability sets\<close>

text \<open>The clock stands still, so nothing expires.\<close>

lemma never_expired [simp]: "\<not> cap_is_expired c"
  by (simp add: cap_is_expired_def cap_current_time_ms_def split: option.splits)

lemma cap_matches_iff: "cap_matches c ty res \<longleftrightarrow> cap_type c = ty \<and> (cap_resource c = ResAny \<or> cap_resource c = res)"
  by (simp add: cap_matches_def)

lemma caps_of_add:
  "cap_manager g = Some m \<Longrightarrow>
   caps_of (g\<lparr>cap_manager := Some (add_to_process p c m), next_capability_id := n\<rparr>) q =
     (if q = p then caps_of g q @ [c] else caps_of g q)"
  by (auto simp: caps_of_def add_to_process_def Let_def cs_add_def split: option.splits)

lemma create_capability_eq:
  assumes "cap_manager g \<noteq> None"
  obtains g' where "create_capability g p ty res granter = (Ok (next_capability_id g), g')"
    "\<And>q. caps_of g' q = (if q = p then caps_of g q @ [capability_new (next_capability_id g) ty res p granter]
       else caps_of g q)"
    "next_capability_id g' = next_capability_id g + 1" "cap_manager g' \<noteq> None"
proof -
  obtain m where m: "cap_manager g = Some m" using assms by blast
  let ?c = "capability_new (next_capability_id g) ty res p granter"
  let ?g = "g\<lparr>cap_manager := Some (add_to_process p ?c m), next_capability_id := next_capability_id g + 1\<rparr>"
  have "create_capability g p ty res granter = (Ok (next_capability_id g), ?g)"
    by (simp add: create_capability_def grant_capability_def m Let_def) (simp add: capability_new_def)
  with that caps_of_add [OF m] show ?thesis by auto
qed

lemma create_capability_uninit: "cap_manager g = None \<Longrightarrow> create_capability g p ty res granter = (Err CapResourceExhausted, g)"
  by (simp add: create_capability_def)

lemma check_capability_eq:
  "fst (check_capability g q) = permits g q"
  "caps_of (snd (check_capability g q)) = caps_of g"
  "next_capability_id (snd (check_capability g q)) = next_capability_id g"
  "cap_manager (snd (check_capability g q)) = None \<longleftrightarrow> cap_manager g = None"
proof -
  obtain p ty res where q: "q = (p, ty, res)" by (cases q) auto
  show "fst (check_capability g q) = permits g q"
    by (auto simp: q check_capability_def manager_check_def caps_of_def has_capability_def list_ex_iff Let_def
        split: option.splits if_splits prod.splits)
  show "caps_of (snd (check_capability g q)) = caps_of g"
    by (rule ext) (auto simp: q check_capability_def manager_check_def caps_of_def Let_def
        split: option.splits if_splits prod.splits)
  show "next_capability_id (snd (check_capability g q)) = next_capability_id g"
    "cap_manager (snd (check_capability g q)) = None \<longleftrightarrow> cap_manager g = None"
    by (auto simp: check_capability_def split: option.splits prod.splits)
qed

lemma check_capability_counts:
  "check_capability g q =
     (permits g q, g\<lparr>cap_manager := map_option (\<lambda>cm. cm\<lparr>checks_performed := checks_performed cm + 1,
         checks_failed := checks_failed cm + (if permits g q then 0 else 1)\<rparr>) (cap_manager g)\<rparr>)"
proof (cases "cap_manager g")
  case None
  then have "g\<lparr>cap_manager := None\<rparr> = g" by simp
  with None show ?thesis by (cases q) (simp add: check_capability_def caps_of_def)
next
  case (Some cm)
  have "fst (check_capability g q) = permits g q" by (rule check_capability_eq)
  with Some show ?thesis
    by (cases q) (auto simp: check_capability_def manager_check_def Let_def simp del: permits.simps
        split: option.splits if_splits prod.splits)
qed

lemma permits_cong: "caps_of g' = caps_of g \<Longrightarrow> permits g' = permits g"
  by (rule ext) (auto simp: split_paired_all)

interpretation caps: permission_check permits check_capability
  by unfold_locales (auto simp: check_capability_eq intro: permits_cong)

lemma delegate_capability_eq:
  assumes "cap_manager g = Some m"
  shows "delegate_capability g a b i =
    (case find (\<lambda>c. cap_id c = i) (caps_of g a) of
       None \<Rightarrow> (Err CapabilityNotFound, g)
     | Some c \<Rightarrow> if cap_delegatable c
         then (Ok (next_capability_id g), g\<lparr>cap_manager := Some (add_to_process b
               \<lparr>cap_id = next_capability_id g, cap_type = cap_type c, cap_resource = cap_resource c, cap_owner = b,
                cap_granter = Some a, cap_delegatable = True, cap_expires_at = cap_expires_at c, cap_created_at = 0\<rparr> m),
               next_capability_id := next_capability_id g + 1\<rparr>)
         else (Err NotDelegatable, g))"
proof -
  have [simp]: "g\<lparr>cap_manager := Some m\<rparr> = g" "g\<lparr>cap_manager := Some m, next_capability_id := next_capability_id g\<rparr> = g"
    using assms by simp_all
  show ?thesis
    by (auto simp: assms delegate_capability_def manager_delegate_def caps_of_def Let_def capability_new_def
        cap_current_time_ms_def split: option.splits)
qed

lemma delegate_capability_Ok:
  assumes "delegate_capability g a b i = (Ok j, g')"
  obtains c where "c \<in> set (caps_of g a)" "cap_id c = i" "cap_delegatable c" "j = next_capability_id g"
    "\<And>q. caps_of g' q = (if q = b then caps_of g q @
        [(capability_new j (cap_type c) (cap_resource c) b (Some a))
           \<lparr>cap_expires_at := cap_expires_at c, cap_delegatable := cap_delegatable c\<rparr>] else caps_of g q)"
    "next_capability_id g' = next_capability_id g + 1" "cap_manager g' \<noteq> None"
proof -
  obtain m where m: "cap_manager g = Some m"
    using assms by (auto simp: delegate_capability_def split: option.splits)
  obtain cs where cs: "process_capabilities m a = Some cs"
    using assms by (auto simp: delegate_capability_def manager_delegate_def m split: option.splits)
  obtain c where c: "find (\<lambda>c. cap_id c = i) cs = Some c"
    using assms by (auto simp: delegate_capability_def manager_delegate_def m cs split: option.splits)
  let ?d = "(capability_new (next_capability_id g) (cap_type c) (cap_resource c) b (Some a))
           \<lparr>cap_expires_at := cap_expires_at c, cap_delegatable := cap_delegatable c\<rparr>"
  have res: "cap_delegatable c" "j = next_capability_id g"
    "g' = g\<lparr>cap_manager := Some (add_to_process b ?d m), next_capability_id := next_capability_id g + 1\<rparr>"
    using assms by (auto simp: delegate_capability_def manager_delegate_def m cs c Let_def capability_new_def split: if_splits)
  have "c \<in> set (caps_of g a)" "cap_id c = i"
    using c by (auto simp: caps_of_def m cs find_Some_iff)
  with that res caps_of_add [OF m] show ?thesis by auto
qed

lemma delegate_capability_Err:
  assumes "delegate_capability g a b i = (Err e, g')"
  shows "g' = g"
  using assms
  by (auto simp: delegate_capability_def manager_delegate_def Let_def split: option.splits if_splits)

lemma revoke_capability_eq:
  assumes "revoke_capability g p i = (r, g')"
  shows "caps_of g' q = (if q = p then snd (cs_remove i (caps_of g p)) else caps_of g q)"
    "next_capability_id g' = next_capability_id g" "cap_manager g' = None \<longleftrightarrow> cap_manager g = None"
    "is_ok r \<longleftrightarrow> (\<exists>c\<in>set (caps_of g p). cap_id c = i)"
proof -
  have rem: "cs_remove i cs = (None, cs) \<and> (\<forall>c\<in>set cs. cap_id c \<noteq> i)
      \<or> (\<exists>c. fst (cs_remove i cs) = Some c) \<and> (\<exists>c\<in>set cs. cap_id c = i)" for cs
    by (cases "position (\<lambda>c. cap_id c = i) cs")
      (simp_all add: cs_remove_def position_SomeD del: position_None_iff, simp)
  have "caps_of g' q = (if q = p then snd (cs_remove i (caps_of g p)) else caps_of g q)
      \<and> next_capability_id g' = next_capability_id g \<and> (cap_manager g' = None \<longleftrightarrow> cap_manager g = None)
      \<and> (is_ok r \<longleftrightarrow> (\<exists>c\<in>set (caps_of g p). cap_id c = i))"
  proof (cases "\<exists>m cs. cap_manager g = Some m \<and> process_capabilities m p = Some cs")
    case True
    then obtain m cs where m: "cap_manager g = Some m" "process_capabilities m p = Some cs" by blast
    then show ?thesis
      using assms rem [of cs]
      by (cases "cs_remove i cs") (auto simp: revoke_capability_def manager_revoke_def caps_of_def split: option.splits)
  next
    case False
    have "snd (cs_remove i []) = []" by (simp add: cs_remove_def)
    with False assms show ?thesis
      by (auto simp: revoke_capability_def manager_revoke_def caps_of_def split: option.splits)
  qed
  then show "caps_of g' q = (if q = p then snd (cs_remove i (caps_of g p)) else caps_of g q)"
    "next_capability_id g' = next_capability_id g" "cap_manager g' = None \<longleftrightarrow> cap_manager g = None"
    "is_ok r \<longleftrightarrow> (\<exists>c\<in>set (caps_of g p). cap_id c = i)" by blast+
qed

lemma cs_remove_filter:
  "distinct (map cap_id cs) \<Longrightarrow> snd (cs_remove i cs) = filter (\<lambda>c. cap_id c \<noteq> i) cs"
proof (induction cs)
  case (Cons c cs)
  have "filter (\<lambda>c. cap_id c \<noteq> i) cs = cs" if "cap_id c = i"
    using Cons.prems that by (auto intro!: filter_True simp: image_iff)
  with Cons show ?case by (auto simp: cs_remove_def split: option.splits dest: position_SomeD)
qed (simp add: cs_remove_def)

lemma cleanup_expired_eq:
  assumes "cleanup_expired_capabilities g = (n, g')"
  shows "caps_of g' = caps_of g" "next_capability_id g' = next_capability_id g" "n = 0"
    "cap_manager g' = None \<longleftrightarrow> cap_manager g = None"
  using assms
  by (auto simp: cleanup_expired_capabilities_def manager_cleanup_expired_def Let_def caps_of_def cs_cleanup_expired_def
      fun_eq_iff split: option.splits)

section \<open>Runs\<close>

lemma cap_step_changes:
  assumes "cap_step g g'" "cap_manager g \<noteq> None"
  shows "cap_manager g' \<noteq> None \<and>
    ((caps_of g' = caps_of g \<and> next_capability_id g' = next_capability_id g)
     \<or> (\<exists>p c. caps_of g' = (caps_of g)(p := caps_of g p @ [c]) \<and> next_capability_id g' = next_capability_id g + 1
          \<and> cap_id c = next_capability_id g \<and> (cap_delegatable c \<longrightarrow> (\<exists>a. \<exists>d\<in>set (caps_of g a). cap_delegatable d)))
     \<or> (\<exists>p i. caps_of g' = (caps_of g)(p := snd (cs_remove i (caps_of g p))) \<and> next_capability_id g' = next_capability_id g))"
  using assms(1)
proof cases
  case (granted p ty res granter r)
  obtain h where h: "create_capability g p ty res granter = (Ok (next_capability_id g), h)"
    "\<And>q. caps_of h q = (if q = p then caps_of g q @ [capability_new (next_capability_id g) ty res p granter]
       else caps_of g q)"
    "next_capability_id h = next_capability_id g + 1" "cap_manager h \<noteq> None"
    using create_capability_eq [OF assms(2)] by metis
  have "caps_of h = (caps_of g)(p := caps_of g p @ [capability_new (next_capability_id g) ty res p granter])"
    by (rule ext) (simp add: h(2))
  moreover have "\<not> cap_delegatable (capability_new (next_capability_id g) ty res p granter)"
    "cap_id (capability_new (next_capability_id g) ty res p granter) = next_capability_id g"
    by (simp_all add: capability_new_def)
  ultimately show ?thesis using granted h(1,3,4) by auto
next
  case (checked q b)
  then show ?thesis using assms(2) check_capability_eq(2-4) [of g q] by simp
next
  case (delegated a b i r)
  show ?thesis
  proof (cases r)
    case (Ok j)
    from delegate_capability_Ok [OF delegated [unfolded Ok]] obtain c where
      c: "c \<in> set (caps_of g a)" "cap_delegatable c" "j = next_capability_id g"
      "\<And>q. caps_of g' q = (if q = b then caps_of g q @
        [(capability_new j (cap_type c) (cap_resource c) b (Some a))
           \<lparr>cap_expires_at := cap_expires_at c, cap_delegatable := cap_delegatable c\<rparr>] else caps_of g q)"
      "next_capability_id g' = next_capability_id g + 1" "cap_manager g' \<noteq> None" by metis
    have "caps_of g' = (caps_of g)(b := caps_of g b @ [(capability_new j (cap_type c) (cap_resource c) b (Some a))
           \<lparr>cap_expires_at := cap_expires_at c, cap_delegatable := cap_delegatable c\<rparr>])"
      by (rule ext) (simp add: c(4))
    moreover have "cap_id ((capability_new j (cap_type c) (cap_resource c) b (Some a))
           \<lparr>cap_expires_at := cap_expires_at c, cap_delegatable := cap_delegatable c\<rparr>) = next_capability_id g"
      by (simp add: capability_new_def c(3))
    ultimately show ?thesis using c by blast
  next
    case (Err e)
    with delegated assms(2) show ?thesis using delegate_capability_Err by blast
  qed
next
  case (revoked p i r)
  have "caps_of g' = (caps_of g)(p := snd (cs_remove i (caps_of g p)))"
    by (rule ext) (simp add: revoke_capability_eq(1) [OF revoked])
  with revoke_capability_eq(2,3) [OF revoked] assms(2) show ?thesis by blast
next
  case (purged n)
  with cleanup_expired_eq [OF purged] assms(2) show ?thesis by simp
qed

lemma cs_remove_subset: "set (snd (cs_remove i cs)) \<subseteq> set cs"
  by (auto simp: cs_remove_def split: option.splits dest: set_vec_remove_subset [THEN subsetD])

lemma cap_run_init: "cap_run n g \<Longrightarrow> cap_manager g \<noteq> None"
proof (induction rule: cap_run.induct)
  case run_start
  then show ?case by (simp add: init_capability_system_def)
next
  case (run_step n g g')
  then show ?case using cap_step_changes by blast
qed

lemma no_delegatable:
  assumes "cap_run n g" "c \<in> set (caps_of g p)"
  shows "\<not> cap_delegatable c"
  using assms
proof (induction arbitrary: c p rule: cap_run.induct)
  case run_start
  then show ?case by (simp add: caps_of_def init_capability_system_def capability_manager_new_def)
next
  case (run_step n g g')
  from cap_step_changes [OF run_step(2) cap_run_init [OF run_step(1)]] run_step.IH run_step.prems
    cs_remove_subset
  show ?case by (fastforce split: if_splits)
qed

lemma ids_fresh_add:
  assumes "ids_fresh g" "caps_of g' = (caps_of g)(p := caps_of g p @ [c])" "cap_id c = next_capability_id g"
    "next_capability_id g < next_capability_id g'"
  shows "ids_fresh g'"
proof -
  have old: "cap_id d < next_capability_id g" if "d \<in> set (caps_of g q)" for d q
    using assms(1) that by (simp add: ids_fresh_def)
  have new: "next_capability_id g \<notin> cap_id ` set (caps_of g q)" for q
    using old by fastforce
  have "distinct (map cap_id (caps_of g q))" for q using assms(1) by (simp add: ids_fresh_def)
  then have "distinct (map cap_id (caps_of g' q))" for q
    using new [of p] by (simp add: assms(2,3))
  moreover have "\<forall>d\<in>set (caps_of g' q). cap_id d < next_capability_id g'" for q
    using old [of _ q] old [of _ p] assms(3,4) by (auto simp: assms(2) dest: less_trans)
  moreover have "cap_id x \<noteq> cap_id y" if "q \<noteq> r" "x \<in> set (caps_of g' q)" "y \<in> set (caps_of g' r)" for q r x y
  proof -
    have "x = c \<and> q = p \<or> x \<in> set (caps_of g q)" "y = c \<and> r = p \<or> y \<in> set (caps_of g r)"
      using that assms(2) by (auto split: if_splits)
    then show ?thesis
      using that(1) old assms(1,3) unfolding ids_fresh_def by (metis less_irrefl)
  qed
  ultimately show ?thesis unfolding ids_fresh_def by blast
qed

lemma ids_fresh_shrink:
  assumes "ids_fresh g" "caps_of g' = (caps_of g)(p := cs)" "set cs \<subseteq> set (caps_of g p)"
    "distinct (map cap_id cs)" "next_capability_id g' = next_capability_id g"
  shows "ids_fresh g'"
proof -
  have sub: "set (caps_of g' q) \<subseteq> set (caps_of g q)" for q using assms(2,3) by simp
  have "distinct (map cap_id (caps_of g' q))" for q using assms(1,2,4) by (simp add: ids_fresh_def)
  moreover have "\<forall>d\<in>set (caps_of g' q). cap_id d < next_capability_id g'" for q
    using assms(1,5) sub [of q] by (auto simp: ids_fresh_def)
  moreover have "cap_id x \<noteq> cap_id y" if "q \<noteq> r" "x \<in> set (caps_of g' q)" "y \<in> set (caps_of g' r)" for q r x y
    using that sub [of q] sub [of r] assms(1) unfolding ids_fresh_def by blast
  ultimately show ?thesis unfolding ids_fresh_def by blast
qed

lemma cap_run_fresh:
  assumes "cap_run n g" "n < 2 ^ 64 - 1"
  shows "ids_fresh g \<and> unat (next_capability_id g) \<le> n + 1"
  using assms
proof (induction rule: cap_run.induct)
  case run_start
  have "caps_of (init_capability_system cap_boot) p = []" for p
    by (simp add: caps_of_def init_capability_system_def capability_manager_new_def)
  then show ?case by (simp add: ids_fresh_def) (simp add: init_capability_system_def cap_boot_def)
next
  case (run_step n g g')
  then have IH: "ids_fresh g" "unat (next_capability_id g) \<le> n + 1" by simp_all
  have inc: "unat (next_capability_id g + 1) = Suc (unat (next_capability_id g))"
    using IH(2) run_step.prems by (intro unat_inc) simp
  from cap_step_changes [OF run_step(2) cap_run_init [OF run_step(1)]]
  consider "caps_of g' = caps_of g" "next_capability_id g' = next_capability_id g"
    | p c where "caps_of g' = (caps_of g)(p := caps_of g p @ [c])" "next_capability_id g' = next_capability_id g + 1"
        "cap_id c = next_capability_id g"
    | p i where "caps_of g' = (caps_of g)(p := snd (cs_remove i (caps_of g p)))" "next_capability_id g' = next_capability_id g"
    by blast
  then show ?case
  proof cases
    case 1
    with IH show ?thesis by (simp add: ids_fresh_def)
  next
    case (2 p c)
    then have "ids_fresh g'"
      using IH(1) inc by (intro ids_fresh_add [of g g' p c]) (simp_all add: word_less_nat_alt)
    with 2 IH(2) inc show ?thesis by simp
  next
    case (3 p i)
    have "distinct (map cap_id (caps_of g p))" using IH(1) by (simp add: ids_fresh_def)
    then have "distinct (map cap_id (snd (cs_remove i (caps_of g p))))"
      by (simp add: cs_remove_filter distinct_map_filter)
    with 3 IH show ?thesis using ids_fresh_shrink [OF IH(1) 3(1) cs_remove_subset] by simp
  qed
qed

lemma demo_caps_run: "cap_run 1 demo_caps"
proof -
  have "cap_step (init_capability_system cap_boot) demo_caps"
    unfolding demo_caps_def by (rule cap_step.granted) (rule prod.collapse [symmetric])
  from cap_run.run_step [OF cap_run.run_start this] show ?thesis by simp
qed

lemma demo_caps_of: "caps_of demo_caps 1 = [capability_new 1 CapSendMessage (ResProcess 2) 1 None]"
  by (simp add: demo_caps_def create_capability_def init_capability_system_def cap_boot_def grant_capability_def
      add_to_process_def capability_manager_new_def cs_add_def caps_of_def Let_def)

lemma demo_delegatable_caps:
  "cap_manager demo_delegatable \<noteq> None" "next_capability_id demo_delegatable = 2"
  "caps_of demo_delegatable = (\<lambda>_. [])(1 := [make_delegatable (capability_new 1 CapSendMessage (ResProcess 2) 1 None)])"
  by (simp_all add: demo_delegatable_def demo_caps_def create_capability_def init_capability_system_def cap_boot_def
      grant_capability_def add_to_process_def capability_manager_new_def cs_add_def caps_of_def Let_def fun_eq_iff)

section \<open>Properties\<close>

text \<open>
  C22: a grant gives exactly the right it names. After a capability is granted, the process holds
  the rights it held and those the new capability matches, no other process gains or loses a
  right, and revoking the capability by the number the grant returned brings back the rights
  of before.
\<close>

theorem grant_revoke:
  assumes "cap_run n g" "n < 2 ^ 64 - 1"
  shows "\<exists>i g1 g2. create_capability g p ty res granter = (Ok i, g1)
    \<and> (\<forall>q t r. permits g1 (q, t, r) \<longleftrightarrow> permits g (q, t, r) \<or> q = p \<and> t = ty \<and> (res = ResAny \<or> res = r))
    \<and> revoke_capability g1 p i = (Ok (), g2) \<and> permits g2 = permits g"
proof -
  let ?c = "capability_new (next_capability_id g) ty res p granter"
  obtain g1 where g1: "create_capability g p ty res granter = (Ok (next_capability_id g), g1)"
    and caps: "\<And>q. caps_of g1 q = (if q = p then caps_of g q @ [?c] else caps_of g q)"
    using create_capability_eq [OF cap_run_init [OF assms(1)]] by metis
  have gain: "\<forall>q t r. permits g1 (q, t, r) \<longleftrightarrow> permits g (q, t, r) \<or> q = p \<and> t = ty \<and> (res = ResAny \<or> res = r)"
    by (auto simp: caps cap_matches_iff capability_new_def split: if_splits)
  obtain r g2 where g2: "revoke_capability g1 p (next_capability_id g) = (r, g2)" by fastforce
  have fresh: "ids_fresh g" using cap_run_fresh [OF assms] by blast
  have rest: "cap_id d \<noteq> next_capability_id g" if "d \<in> set (caps_of g p)" for d
    using fresh that unfolding ids_fresh_def by (metis less_irrefl)
  then have "next_capability_id g \<notin> cap_id ` set (caps_of g p)" by (metis imageE)
  moreover have "distinct (map cap_id (caps_of g p))" using fresh by (simp add: ids_fresh_def)
  ultimately have "distinct (map cap_id (caps_of g p @ [?c]))" by (simp add: capability_new_def)
  from cs_remove_filter [OF this, of "next_capability_id g"]
  have "snd (cs_remove (next_capability_id g) (caps_of g1 p)) = caps_of g p"
    using rest by (simp add: caps capability_new_def)
  then have restored: "permits g2 = permits g"
    using revoke_capability_eq(1) [OF g2] by (intro permits_cong) (auto simp: fun_eq_iff caps)
  have "is_ok r"
    unfolding revoke_capability_eq(4) [OF g2] by (auto simp: caps capability_new_def)
  then have "r = Ok ()" by (cases r) auto
  then show ?thesis using g1 g2 gain restored by blast
qed

theorem grant_revoke_witness:
  "\<exists>i g1 g2. create_capability demo_caps 3 CapRead (ResFile ''log'') None = (Ok i, g1)
     \<and> permits g1 (3, CapRead, ResFile ''log'') \<and> revoke_capability g1 3 i = (Ok (), g2)
     \<and> \<not> permits g2 (3, CapRead, ResFile ''log'')"
proof -
  have no: "\<not> permits demo_caps (3, CapRead, ResFile ''log'')"
    by (simp add: demo_caps_def create_capability_def init_capability_system_def cap_boot_def grant_capability_def
      add_to_process_def capability_manager_new_def cs_add_def caps_of_def Let_def)
  obtain i g1 g2 where g: "create_capability demo_caps 3 CapRead (ResFile ''log'') None = (Ok i, g1)"
    "revoke_capability g1 3 i = (Ok (), g2)" "permits g2 = permits demo_caps"
    and gain: "\<forall>q t r. permits g1 (q, t, r) \<longleftrightarrow>
      permits demo_caps (q, t, r) \<or> q = 3 \<and> t = CapRead \<and> (ResFile ''log'' = ResAny \<or> ResFile ''log'' = r)"
    using grant_revoke [OF demo_caps_run, of 3 CapRead "ResFile ''log''" None] by auto
  from gain have "permits g1 (3, CapRead, ResFile ''log'')" by blast
  with g no show ?thesis by metis
qed

text \<open>
  C23: what a delegation does. The source must hold a capability of the number, or the answer is
  that there is none, and the capability must be delegatable, or that is the answer; nothing
  changes then. Otherwise the target gets a new capability of the same type, resource and
  expiration, again delegatable, granted by the source, and the rights afterwards are those of
  before and exactly those of the delegated capability for the target, none of which the source
  lacks. In the states the kernel reaches no capability is delegatable, since nothing the module
  offers marks one in a set, so there every delegation is refused, and this is the error.
  Expiration never refuses one: the clock of the module stands still.
\<close>

theorem delegation_decision:
  assumes "cap_manager g = Some m"
  shows "(case find (\<lambda>c. cap_id c = i) (caps_of g a) of
      None \<Rightarrow> delegate_capability g a b i = (Err CapabilityNotFound, g)
    | Some c \<Rightarrow>
        if cap_delegatable c
        then (\<exists>g'. delegate_capability g a b i = (Ok (next_capability_id g), g')
          \<and> caps_of g' = (caps_of g)(b := caps_of g b @
              [\<lparr>cap_id = next_capability_id g, cap_type = cap_type c, cap_resource = cap_resource c, cap_owner = b,
                cap_granter = Some a, cap_delegatable = True, cap_expires_at = cap_expires_at c, cap_created_at = 0\<rparr>])
          \<and> next_capability_id g' = next_capability_id g + 1
          \<and> (\<forall>q t r. permits g' (q, t, r) \<longleftrightarrow>
               permits g (q, t, r) \<or> q = b \<and> t = cap_type c \<and> (cap_resource c = ResAny \<or> cap_resource c = r))
          \<and> (\<forall>t r. permits g' (b, t, r) \<longrightarrow> permits g (b, t, r) \<or> permits g (a, t, r)))
        else delegate_capability g a b i = (Err NotDelegatable, g))
    \<and> (cap_run n g \<longrightarrow> delegate_capability g a b i =
         (Err (if \<exists>c\<in>set (caps_of g a). cap_id c = i then NotDelegatable else CapabilityNotFound), g))"
proof (cases "find (\<lambda>c. cap_id c = i) (caps_of g a)")
  case None
  then have "\<not> (\<exists>c\<in>set (caps_of g a). cap_id c = i)" by (simp add: find_None_iff)
  with None show ?thesis by (simp add: delegate_capability_eq [OF assms])
next
  case (Some c)
  then have c: "c \<in> set (caps_of g a)" "cap_id c = i" by (auto simp: find_Some_iff)
  show ?thesis
  proof (cases "cap_delegatable c")
    case True
    with c(1) have "\<not> cap_run n g" using no_delegatable by blast
    moreover have "caps_of (snd (delegate_capability g a b i)) = (caps_of g)(b := caps_of g b @
              [\<lparr>cap_id = next_capability_id g, cap_type = cap_type c, cap_resource = cap_resource c, cap_owner = b,
                cap_granter = Some a, cap_delegatable = True, cap_expires_at = cap_expires_at c, cap_created_at = 0\<rparr>])"
      by (rule ext) (simp add: delegate_capability_eq [OF assms] Some True caps_of_add [OF assms])
    ultimately show ?thesis
      using c(1) True by (auto simp: delegate_capability_eq [OF assms] Some cap_matches_iff)
  next
    case False
    with c show ?thesis by (auto simp: delegate_capability_eq [OF assms] Some)
  qed
qed

theorem delegation_decision_witness:
  "fst (delegate_capability demo_delegatable 1 3 1) = Ok 2
   \<and> permits (snd (delegate_capability demo_delegatable 1 3 1)) (3, CapSendMessage, ResProcess 2)
   \<and> \<not> permits (snd (delegate_capability demo_delegatable 1 3 1)) (3, CapSendMessage, ResProcess 1)
   \<and> delegate_capability demo_delegatable 3 1 1 = (Err CapabilityNotFound, demo_delegatable)
   \<and> delegate_capability demo_caps 1 3 1 = (Err NotDelegatable, demo_caps)"
proof -
  obtain m m' where m: "cap_manager demo_delegatable = Some m" "cap_manager demo_caps = Some m'"
    using demo_delegatable_caps(1) cap_run_init [OF demo_caps_run] by blast
  from delegation_decision [OF m(1), of 1 3 1 0] obtain g' where
    "delegate_capability demo_delegatable 1 3 1 = (Ok 2, g')"
    "\<forall>q t r. permits g' (q, t, r) \<longleftrightarrow> permits demo_delegatable (q, t, r)
       \<or> q = 3 \<and> t = CapSendMessage \<and> (ResProcess 2 = ResAny \<or> ResProcess 2 = r)"
    by (auto simp: demo_delegatable_caps make_delegatable_def capability_new_def simp del: permits.simps)
  moreover have "\<not> permits demo_delegatable (3, CapSendMessage, ResProcess 1)" by (simp add: demo_delegatable_caps)
  moreover have "delegate_capability demo_delegatable 3 1 1 = (Err CapabilityNotFound, demo_delegatable)"
    using delegation_decision [OF m(1), of 3 1 1] by (simp add: demo_delegatable_caps)
  moreover have "delegate_capability demo_caps 1 3 1 = (Err NotDelegatable, demo_caps)"
    using delegation_decision [OF m(2), of 1 3 1 1] demo_caps_run by (simp add: demo_caps_of capability_new_def)
  ultimately show ?thesis by (simp del: permits.simps)
qed

text \<open>
  A check answers whether some capability of the process matches, counts itself, and changes
  no right, so the answers of a sequence of checks do not depend on their order.
\<close>

theorem checks_are_pure:
  "fst (check_capability g q) = permits g q
   \<and> fst (check_capability (snd (check_capability g q')) q) = permits g q
   \<and> fst (check_any check_capability g qs) = (\<exists>q\<in>set qs. permits g q)"
  by (simp add: caps.check_answer caps.check_keeps caps.check_any_answer)

theorem checks_are_pure_witness:
  "fst (check_any check_capability demo_caps [(1, CapRead, ResAny), (1, CapSendMessage, ResProcess 2)])"
proof -
  have "permits demo_caps (1, CapSendMessage, ResProcess 2)"
    by (simp add: demo_caps_of cap_matches_iff capability_new_def)
  with checks_are_pure [of demo_caps _ _ "[(1, CapRead, ResAny), (1, CapSendMessage, ResProcess 2)]"]
  show ?thesis by simp
qed

end
