(* ===== verification/Security_Policy.thy ===== *)
theory Security_Policy
  imports Capabilities
begin

text \<open>
  The security policy, from \<^verbatim>\<open>ipc/security.rs\<close>: the default rights of system and user processes,
  the restricted operations, and the validation of capability requests, which asks the
  capability manager. Its results rest on the permission-check contract.
\<close>

section \<open>The policy\<close>

record security_policy =
  system_capabilities :: "(capability_type \<times> resource_id) list"
  user_capabilities :: "(capability_type \<times> resource_id) list"
  restricted_operations :: "capability_type list"

definition security_policy_new :: security_policy where
  "security_policy_new =
     \<lparr>system_capabilities =
        [(CapSendMessage, ResAny), (CapReceiveMessage, ResAny), (CapSystemCall, ResAny),
         (CapMemoryManagement, ResAny), (CapProcessManagement, ResAny), (CapFileSystem, ResAny)],
      user_capabilities =
        [(CapSendMessage, ResSystem ''services''), (CapReceiveMessage, ResAny),
         (CapSystemCall, ResSystem ''user_syscalls'')],
      restricted_operations = [CapAdmin, CapDeviceAccess, CapProcessManagement, CapMemoryManagement]\<rparr>"

text \<open>The loop of \<^verbatim>\<open>grant_system_capabilities\<close> and \<^verbatim>\<open>grant_user_capabilities\<close>.\<close>

fun grant_all ::
    "process_id \<Rightarrow> (capability_type \<times> resource_id) list \<Rightarrow> capability_id list \<Rightarrow> cap_state
      \<Rightarrow> (capability_id list, capability_error) result \<times> cap_state" where
  "grant_all p [] granted_ids g = (Ok granted_ids, g)"
| "grant_all p ((ty, res) # rest) granted_ids g =
     (case create_capability g p ty res None of
        (Ok i, g') \<Rightarrow> grant_all p rest (granted_ids @ [i]) g'
      | (Err e, g') \<Rightarrow> (Err e, g'))"

definition grant_system_capabilities ::
    "security_policy \<Rightarrow> process_id \<Rightarrow> cap_state \<Rightarrow> (capability_id list, capability_error) result \<times> cap_state" where
  "grant_system_capabilities pol p g = grant_all p (system_capabilities pol) [] g"

definition grant_user_capabilities ::
    "security_policy \<Rightarrow> process_id \<Rightarrow> cap_state \<Rightarrow> (capability_id list, capability_error) result \<times> cap_state" where
  "grant_user_capabilities pol p g = grant_all p (user_capabilities pol) [] g"

definition policy_is_restricted :: "security_policy \<Rightarrow> capability_type \<Rightarrow> bool" where
  "policy_is_restricted pol ty \<longleftrightarrow> ty \<in> set (restricted_operations pol)"

definition policy_validate ::
    "security_policy \<Rightarrow> process_id \<Rightarrow> capability_type \<Rightarrow> resource_id \<Rightarrow> cap_state \<Rightarrow> bool \<times> cap_state" where
  "policy_validate pol p ty res g =
     (if policy_is_restricted pol ty then check_capability g (p, CapAdmin, ResAny)
      else case ty of
        CapSendMessage \<Rightarrow> check_any check_capability g [(p, CapSendMessage, res), (p, CapSendMessage, ResAny)]
      | CapReceiveMessage \<Rightarrow> (True, g)
      | CapSystemCall \<Rightarrow> check_any check_capability g [(p, CapSystemCall, res), (p, CapSystemCall, ResAny)]
      | _ \<Rightarrow> check_capability g (p, ty, res))"

section \<open>The global policy\<close>

type_synonym policy_state = "security_policy option"

definition init_security_policy :: policy_state where
  "init_security_policy = Some security_policy_new"

definition grant_system_process_capabilities ::
    "policy_state \<Rightarrow> process_id \<Rightarrow> cap_state \<Rightarrow> (capability_id list, capability_error) result \<times> cap_state" where
  "grant_system_process_capabilities sp p g =
     (case sp of None \<Rightarrow> (Err CapResourceExhausted, g) | Some pol \<Rightarrow> grant_system_capabilities pol p g)"

definition grant_user_process_capabilities ::
    "policy_state \<Rightarrow> process_id \<Rightarrow> cap_state \<Rightarrow> (capability_id list, capability_error) result \<times> cap_state" where
  "grant_user_process_capabilities sp p g =
     (case sp of None \<Rightarrow> (Err CapResourceExhausted, g) | Some pol \<Rightarrow> grant_user_capabilities pol p g)"

definition validate_capability_request ::
    "policy_state \<Rightarrow> process_id \<Rightarrow> capability_type \<Rightarrow> resource_id \<Rightarrow> cap_state \<Rightarrow> bool \<times> cap_state" where
  "validate_capability_request sp p ty res g =
     (case sp of None \<Rightarrow> (False, g) | Some pol \<Rightarrow> policy_validate pol p ty res g)"

definition is_restricted_operation :: "policy_state \<Rightarrow> capability_type \<Rightarrow> bool" where
  "is_restricted_operation sp ty = (case sp of None \<Rightarrow> True | Some pol \<Rightarrow> policy_is_restricted pol ty)"

definition create_secure_ipc_channel ::
    "process_id \<Rightarrow> process_id \<Rightarrow> cap_state \<Rightarrow> (unit, capability_error) result \<times> cap_state" where
  "create_secure_ipc_channel a b g =
     (case create_capability g a CapSendMessage (ResProcess b) None of
        (Err e, g1) \<Rightarrow> (Err e, g1)
      | (Ok _, g1) \<Rightarrow>
          (case create_capability g1 b CapSendMessage (ResProcess a) None of
             (Err e, g2) \<Rightarrow> (Err e, g2)
           | (Ok _, g2) \<Rightarrow> (Ok (), g2)))"

definition revoke_process_capabilities ::
    "process_id \<Rightarrow> cap_state \<Rightarrow> (unit, capability_error) result \<times> cap_state" where
  "revoke_process_capabilities p g = (Ok (), g)"

section \<open>Granting\<close>

lemma permits_create:
  assumes "cap_manager g \<noteq> None"
  obtains i g' where "create_capability g p ty res granter = (Ok i, g')" "cap_manager g' \<noteq> None"
    "\<And>q t r. permits g' (q, t, r) \<longleftrightarrow> permits g (q, t, r) \<or> q = p \<and> t = ty \<and> (res = ResAny \<or> res = r)"
proof -
  let ?c = "capability_new (next_capability_id g) ty res p granter"
  obtain g1 where g1: "create_capability g p ty res granter = (Ok (next_capability_id g), g1)"
    and caps: "\<And>q. caps_of g1 q = (if q = p then caps_of g q @ [?c] else caps_of g q)"
    and "cap_manager g1 \<noteq> None"
    using create_capability_eq [OF assms] by metis
  moreover have "permits g1 (q, t, r) \<longleftrightarrow> permits g (q, t, r) \<or> q = p \<and> t = ty \<and> (res = ResAny \<or> res = r)" for q t r
    by (auto simp: caps cap_matches_iff capability_new_def split: if_splits)
  ultimately show ?thesis using that by blast
qed

lemma grant_all_Ok:
  assumes "cap_manager g \<noteq> None"
  shows "\<exists>ids g'. grant_all p rights acc g = (Ok ids, g') \<and> cap_manager g' \<noteq> None
    \<and> length ids = length acc + length rights
    \<and> (\<forall>q t r. permits g' (q, t, r) \<longleftrightarrow>
         permits g (q, t, r) \<or> q = p \<and> (\<exists>res. (t, res) \<in> set rights \<and> (res = ResAny \<or> res = r)))"
  using assms
proof (induction rights arbitrary: acc g)
  case Nil
  then show ?case by simp
next
  case (Cons x rights)
  obtain ty res where x: "x = (ty, res)" by (cases x)
  obtain i g1 where g1: "create_capability g p ty res None = (Ok i, g1)" "cap_manager g1 \<noteq> None"
    "\<And>q t r. permits g1 (q, t, r) \<longleftrightarrow> permits g (q, t, r) \<or> q = p \<and> t = ty \<and> (res = ResAny \<or> res = r)"
    using permits_create [OF Cons.prems] by metis
  from Cons.IH [OF g1(2), of "acc @ [i]"] obtain ids g' where
    g': "grant_all p rights (acc @ [i]) g1 = (Ok ids, g')" "cap_manager g' \<noteq> None"
    "length ids = length acc + length (x # rights)"
    "\<And>q t r. permits g' (q, t, r) \<longleftrightarrow>
         permits g1 (q, t, r) \<or> q = p \<and> (\<exists>res. (t, res) \<in> set rights \<and> (res = ResAny \<or> res = r))" by auto
  have "permits g' (q, t, r) \<longleftrightarrow>
         permits g (q, t, r) \<or> q = p \<and> (\<exists>res. (t, res) \<in> set (x # rights) \<and> (res = ResAny \<or> res = r))" for q t r
    unfolding g'(4) g1(3) x by auto
  with g' g1 x show ?case by auto
qed

lemma permits_any: "permits g (p, ty, ResAny) \<Longrightarrow> permits g (p, ty, res)"
  by (auto simp: cap_matches_iff)

lemma restricted_new:
  "policy_is_restricted security_policy_new ty \<longleftrightarrow>
     ty = CapAdmin \<or> ty = CapDeviceAccess \<or> ty = CapProcessManagement \<or> ty = CapMemoryManagement"
  by (auto simp: policy_is_restricted_def security_policy_new_def)

lemma policy_validate_new:
  "fst (policy_validate security_policy_new p ty res g) =
     (if policy_is_restricted security_policy_new ty then permits g (p, CapAdmin, ResAny)
      else ty = CapReceiveMessage \<or> permits g (p, ty, res))"
  using permits_any [of g p ty res]
  by (cases ty) (auto simp: policy_validate_def restricted_new caps.check_answer caps.check_any_answer
      simp del: permits.simps check_any.simps)

lemma user_rights:
  assumes "cap_manager g \<noteq> None"
  shows "\<exists>ids g'. grant_user_process_capabilities init_security_policy p g = (Ok ids, g') \<and> length ids = 3
    \<and> (\<forall>q t r. permits g' (q, t, r) \<longleftrightarrow> permits g (q, t, r) \<or> q = p \<and>
         (t = CapReceiveMessage \<or> t = CapSendMessage \<and> r = ResSystem ''services''
          \<or> t = CapSystemCall \<and> r = ResSystem ''user_syscalls''))"
proof -
  from grant_all_Ok [OF assms, of p "user_capabilities security_policy_new" "[]"] obtain ids g' where
    g: "grant_all p (user_capabilities security_policy_new) [] g = (Ok ids, g')" "length ids = 3"
    "\<And>q t r. permits g' (q, t, r) \<longleftrightarrow>
         permits g (q, t, r) \<or> q = p \<and> (\<exists>res. (t, res) \<in> set (user_capabilities security_policy_new) \<and> (res = ResAny \<or> res = r))"
    by (auto simp: security_policy_new_def)
  have "(\<exists>res. (t, res) \<in> set (user_capabilities security_policy_new) \<and> (res = ResAny \<or> res = r)) \<longleftrightarrow>
      t = CapReceiveMessage \<or> t = CapSendMessage \<and> r = ResSystem ''services''
          \<or> t = CapSystemCall \<and> r = ResSystem ''user_syscalls''" for t r
    by (auto simp: security_policy_new_def)
  with g show ?thesis
    by (auto simp: grant_user_process_capabilities_def init_security_policy_def grant_user_capabilities_def
        simp del: permits.simps)
qed

lemma channel_rights:
  assumes "cap_manager g \<noteq> None"
  shows "\<exists>g'. create_secure_ipc_channel a b g = (Ok (), g')
    \<and> (\<forall>q t r. permits g' (q, t, r) \<longleftrightarrow> permits g (q, t, r)
         \<or> t = CapSendMessage \<and> (q = a \<and> r = ResProcess b \<or> q = b \<and> r = ResProcess a))"
proof -
  obtain i g1 where g1: "create_capability g a CapSendMessage (ResProcess b) None = (Ok i, g1)" "cap_manager g1 \<noteq> None"
    "\<And>q t r. permits g1 (q, t, r) \<longleftrightarrow> permits g (q, t, r) \<or> q = a \<and> t = CapSendMessage \<and> (ResProcess b = ResAny \<or> ResProcess b = r)"
    using permits_create [OF assms] by metis
  obtain j g2 where g2: "create_capability g1 b CapSendMessage (ResProcess a) None = (Ok j, g2)"
    "\<And>q t r. permits g2 (q, t, r) \<longleftrightarrow> permits g1 (q, t, r) \<or> q = b \<and> t = CapSendMessage \<and> (ResProcess a = ResAny \<or> ResProcess a = r)"
    using permits_create [OF g1(2)] by metis
  have "permits g2 (q, t, r) \<longleftrightarrow> permits g (q, t, r)
         \<or> t = CapSendMessage \<and> (q = a \<and> r = ResProcess b \<or> q = b \<and> r = ResProcess a)" for q t r
    unfolding g2(2) g1(3) by auto
  with g1(1) g2(1) show ?thesis by (auto simp: create_secure_ipc_channel_def simp del: permits.simps)
qed

lemma cap_start_rights: "\<not> permits (init_capability_system cap_boot) q"
  by (cases q) (auto simp: init_capability_system_def caps_of_def capability_manager_new_def)

section \<open>Properties\<close>

text \<open>
  C24: what the policy allows. A restricted operation is allowed exactly to holders of the
  administrative right on every resource, receiving is always allowed, and every other
  operation exactly to the holders of a capability for it; the second check that the code
  makes for sending and for system calls, on every resource, never changes the answer. No
  validation changes a right.
\<close>

theorem validation_decision:
  "fst (validate_capability_request init_security_policy p ty res g) =
     (if ty \<in> {CapAdmin, CapDeviceAccess, CapProcessManagement, CapMemoryManagement}
      then permits g (p, CapAdmin, ResAny)
      else ty = CapReceiveMessage \<or> permits g (p, ty, res))
   \<and> permits (snd (validate_capability_request init_security_policy p ty res g)) = permits g"
proof -
  have "permits (snd (policy_validate security_policy_new p ty res g)) = permits g"
    by (cases ty) (simp_all add: policy_validate_def caps.check_keeps caps.check_any_keeps del: check_any.simps)
  with policy_validate_new [of p ty res g] restricted_new [of ty] show ?thesis
    by (simp add: validate_capability_request_def init_security_policy_def del: permits.simps)
qed

theorem validation_decision_witness:
  "\<not> fst (validate_capability_request init_security_policy 1 CapAdmin ResAny (init_capability_system cap_boot))"
  using validation_decision [of 1 CapAdmin ResAny "init_capability_system cap_boot"] cap_start_rights
  by (simp del: permits.simps)

text \<open>
  Granting the defaults of the policy gives the process exactly the listed rights on top of
  those it had, and one number for each.
\<close>

theorem default_rights:
  assumes "cap_manager g \<noteq> None"
  shows "\<exists>ids g'. grant_user_process_capabilities init_security_policy p g = (Ok ids, g') \<and> length ids = 3
    \<and> (\<forall>q t r. permits g' (q, t, r) \<longleftrightarrow> permits g (q, t, r) \<or> q = p \<and>
         (t = CapReceiveMessage \<or> t = CapSendMessage \<and> r = ResSystem ''services''
          \<or> t = CapSystemCall \<and> r = ResSystem ''user_syscalls''))"
  by (rule user_rights [OF assms])

theorem default_rights_witness:
  "\<exists>ids g'. grant_user_process_capabilities init_security_policy 5 (init_capability_system cap_boot) = (Ok ids, g')
     \<and> permits g' (5, CapSendMessage, ResSystem ''services'') \<and> \<not> permits g' (5, CapSendMessage, ResProcess 1)"
proof -
  have "cap_manager (init_capability_system cap_boot) \<noteq> None" by (simp add: init_capability_system_def)
  from default_rights [OF this, of 5] obtain ids g' where
    "grant_user_process_capabilities init_security_policy 5 (init_capability_system cap_boot) = (Ok ids, g')"
    "\<And>q t r. permits g' (q, t, r) \<longleftrightarrow> permits (init_capability_system cap_boot) (q, t, r) \<or> q = 5 \<and>
         (t = CapReceiveMessage \<or> t = CapSendMessage \<and> r = ResSystem ''services''
          \<or> t = CapSystemCall \<and> r = ResSystem ''user_syscalls'')" by metis
  then show ?thesis using cap_start_rights by (auto simp del: permits.simps)
qed

text \<open>
  A secure channel between two processes adds exactly the right of each to send to the other.
\<close>

theorem secure_channel_rights:
  assumes "cap_manager g \<noteq> None"
  shows "\<exists>g'. create_secure_ipc_channel a b g = (Ok (), g')
    \<and> (\<forall>q t r. permits g' (q, t, r) \<longleftrightarrow> permits g (q, t, r)
         \<or> t = CapSendMessage \<and> (q = a \<and> r = ResProcess b \<or> q = b \<and> r = ResProcess a))"
  by (rule channel_rights [OF assms])

theorem secure_channel_rights_witness:
  "\<exists>g'. create_secure_ipc_channel 1 2 (init_capability_system cap_boot) = (Ok (), g')
     \<and> permits g' (1, CapSendMessage, ResProcess 2) \<and> permits g' (2, CapSendMessage, ResProcess 1)"
proof -
  have "cap_manager (init_capability_system cap_boot) \<noteq> None" by (simp add: init_capability_system_def)
  from secure_channel_rights [OF this, of 1 2] show ?thesis by (auto simp del: permits.simps)
qed

text \<open>
  A default system process holds the right to manage processes and memory, yet the policy
  refuses its requests for them: the defaults do not include the administrative right that
  restricted operations ask for.
\<close>

theorem system_process_refused:
  assumes "cap_manager g \<noteq> None" "\<not> permits g (p, CapAdmin, ResAny)"
    "ty = CapProcessManagement \<or> ty = CapMemoryManagement"
  shows "\<exists>ids g'. grant_system_process_capabilities init_security_policy p g = (Ok ids, g')
    \<and> permits g' (p, ty, res) \<and> \<not> fst (validate_capability_request init_security_policy p ty res g')"
proof -
  from grant_all_Ok [OF assms(1), of p "system_capabilities security_policy_new" "[]"] obtain ids g' where
    g: "grant_all p (system_capabilities security_policy_new) [] g = (Ok ids, g')"
    "\<And>q t r. permits g' (q, t, r) \<longleftrightarrow>
         permits g (q, t, r) \<or> q = p \<and> (\<exists>res. (t, res) \<in> set (system_capabilities security_policy_new) \<and> (res = ResAny \<or> res = r))"
    by metis
  have "\<not> permits g' (p, CapAdmin, ResAny)"
    using assms(2) g(2) by (auto simp: security_policy_new_def simp del: permits.simps)
  moreover have "permits g' (p, ty, res)"
    using assms(3) g(2) by (auto simp: security_policy_new_def simp del: permits.simps)
  moreover have "policy_is_restricted security_policy_new ty"
    using assms(3) by (auto simp: restricted_new)
  ultimately show ?thesis
    using g(1) policy_validate_new [of p ty res g']
    by (simp add: grant_system_process_capabilities_def init_security_policy_def grant_system_capabilities_def
        validate_capability_request_def del: permits.simps)
qed

theorem system_process_refused_witness:
  "\<exists>ids g'. grant_system_process_capabilities init_security_policy 1 (init_capability_system cap_boot) = (Ok ids, g')
     \<and> permits g' (1, CapProcessManagement, ResProcess 2)
     \<and> \<not> fst (validate_capability_request init_security_policy 1 CapProcessManagement (ResProcess 2) g')"
proof -
  have "cap_manager (init_capability_system cap_boot) \<noteq> None" by (simp add: init_capability_system_def)
  from system_process_refused [OF this cap_start_rights,
      where p = 1 and ty = CapProcessManagement and res = "ResProcess 2"]
  show ?thesis by blast
qed

end
