(* ===== verification/Prio_Fifo.thy ===== *)
theory Prio_Fifo
  imports Kosh_Prelude
begin

text \<open>
  The contract of a bounded priority queue that is first-in first-out within each priority:
  its contents are one list per level, an accepted element is appended to its level's list,
  and a removal takes the head of the lowest level that is not empty. What its clients rely on -
  nothing lost, duplicated or overtaken - is proved here once.
\<close>

section \<open>Traces\<close>

text \<open>
  From \<open>s0\<close> to \<open>s\<close> by insertions of elements that satisfy \<open>ok\<close> and by removals: the elements
  that were accepted, and the elements that came out, in order.
\<close>

inductive pf_trace ::
    "('m \<Rightarrow> bool) \<Rightarrow> ('s \<Rightarrow> 'm \<Rightarrow> bool \<times> 's) \<Rightarrow> ('s \<Rightarrow> 'm option \<times> 's) \<Rightarrow> 's \<Rightarrow> 's \<Rightarrow> 'm list \<Rightarrow> 'm list \<Rightarrow> bool"
  for ok put get s0 where
  no_ops: "pf_trace ok put get s0 s0 [] []"
| accepted: "pf_trace ok put get s0 s ins outs \<Longrightarrow> ok m \<Longrightarrow> put s m = (True, s') \<Longrightarrow>
     pf_trace ok put get s0 s' (ins @ [m]) outs"
| refused: "pf_trace ok put get s0 s ins outs \<Longrightarrow> ok m \<Longrightarrow> put s m = (False, s') \<Longrightarrow>
     pf_trace ok put get s0 s' ins outs"
| delivered: "pf_trace ok put get s0 s ins outs \<Longrightarrow> get s = (Some m, s') \<Longrightarrow>
     pf_trace ok put get s0 s' ins (outs @ [m])"
| nothing: "pf_trace ok put get s0 s ins outs \<Longrightarrow> get s = (None, s') \<Longrightarrow>
     pf_trace ok put get s0 s' ins outs"

fun get_many :: "('s \<Rightarrow> 'm option \<times> 's) \<Rightarrow> nat \<Rightarrow> 's \<Rightarrow> 'm list \<times> 's" where
  "get_many get 0 s = ([], s)"
| "get_many get (Suc n) s =
     (case get s of
        (None, s') \<Rightarrow> ([], s')
      | (Some m, s') \<Rightarrow> (case get_many get n s' of (ms, s'') \<Rightarrow> (m # ms, s'')))"

section \<open>The contract\<close>

locale prio_fifo =
  fixes level :: "'m \<Rightarrow> nat"
    and ok :: "'m \<Rightarrow> bool"
    and inv :: "'s \<Rightarrow> bool"
    and view :: "'s \<Rightarrow> nat \<Rightarrow> 'm list"
    and put :: "'s \<Rightarrow> 'm \<Rightarrow> bool \<times> 's"
    and get :: "'s \<Rightarrow> 'm option \<times> 's"
  assumes put_inv: "inv s \<Longrightarrow> ok m \<Longrightarrow> put s m = (b, s') \<Longrightarrow> inv s'"
    and put_accepted: "inv s \<Longrightarrow> ok m \<Longrightarrow> put s m = (True, s') \<Longrightarrow>
      view s' = (view s)(level m := view s (level m) @ [m])"
    and put_refused: "inv s \<Longrightarrow> ok m \<Longrightarrow> put s m = (False, s') \<Longrightarrow> view s' = view s"
    and get_inv: "inv s \<Longrightarrow> get s = (r, s') \<Longrightarrow> inv s'"
    and get_some: "inv s \<Longrightarrow> get s = (Some m, s') \<Longrightarrow>
      view s = (view s')(level m := m # view s' (level m)) \<and> (\<forall>k<level m. view s k = [])"
    and get_none: "inv s \<Longrightarrow> get s = (None, s') \<Longrightarrow> (\<forall>k. view s k = []) \<and> view s' = view s"
begin

lemma trace_fifo:
  assumes "pf_trace ok put get s0 s ins outs" "inv s0"
  shows "inv s \<and> (\<forall>k. view s0 k @ filter (\<lambda>m. level m = k) ins = filter (\<lambda>m. level m = k) outs @ view s k)"
  using assms(1)
proof induction
  case no_ops
  with assms(2) show ?case by simp
next
  case (accepted s ins outs m s')
  then show ?case using put_inv [of s m True s'] put_accepted [of s m s'] by auto
next
  case (refused s ins outs m s')
  then show ?case using put_inv [of s m False s'] put_refused [of s m s'] by auto
next
  case (delivered s ins outs m s')
  then have "view s = (view s')(level m := m # view s' (level m))" using get_some by blast
  with delivered show ?case using get_inv [of s "Some m" s'] by auto
next
  case (nothing s ins outs s')
  then show ?case using get_inv [of s None s'] get_none [of s s'] by auto
qed

lemma gets_in_order:
  assumes "inv s" "get_many get n s = (ms, s')"
  shows "sorted (map level ms) \<and> inv s' \<and> (\<forall>m\<in>set ms. view s (level m) \<noteq> [])"
  using assms
proof (induction n arbitrary: s ms)
  case 0
  then show ?case by simp
next
  case (Suc n)
  show ?case
  proof (cases "fst (get s)")
    case None
    with Suc.prems get_inv [of s None "snd (get s)"] show ?thesis by (cases "get s") auto
  next
    case (Some m)
    then obtain t rest where t: "get s = (Some m, t)" and more: "get_many get n t = (rest, s')"
      and ms: "ms = m # rest"
      using Suc.prems(2) by (cases "get s") (auto split: prod.splits)
    have step: "view s = (view t)(level m := m # view t (level m))" "\<forall>k<level m. view s k = []"
      using get_some [OF Suc.prems(1) t] by auto
    note IH = Suc.IH [OF get_inv [OF Suc.prems(1) t] more]
    have "level m \<le> level x" if "x \<in> set rest" for x
    proof (rule ccontr)
      assume "\<not> level m \<le> level x"
      then have "view s (level x) = []" "view s (level x) = view t (level x)"
        using step by (auto simp: not_le)
      with IH that show False by auto
    qed
    moreover have "view s (level x) \<noteq> []" if "x \<in> set ms" for x
    proof (cases "level x = level m")
      case True
      then show ?thesis using step(1) by simp
    next
      case False
      then have "view t (level x) \<noteq> []" using IH that by (auto simp: ms)
      with False show ?thesis using step(1) by simp
    qed
    ultimately show ?thesis using IH by (auto simp: ms)
  qed
qed

end

end
