(* ===== verification/Message_Queues.thy ===== *)
theory Message_Queues
  imports Capabilities Prio_Fifo
begin

text \<open>
  Messages and the message queues of the processes, from \<^verbatim>\<open>ipc/message.rs\<close> (the data types and
  their methods) and \<^verbatim>\<open>ipc/queue.rs\<close>. A queue keeps its messages ordered by priority and is
  bounded in number and in bytes; it implements the contract of a first-in first-out queue per
  priority. The sizes in memory of \<^verbatim>\<open>MessageHeader\<close> and \<^verbatim>\<open>Capability\<close>, which the compiler
  chooses, are the parameters \<open>sh\<close> and \<open>sc\<close>.
\<close>

section \<open>Messages\<close>

type_synonym message_id = u64

datatype message_type = MsgSystemCall | DriverRequest | ServiceRequest | Signal | Response | MsgError

datatype message_data =
  DataEmpty
| DataBytes "u8 list"
| DataText string
| DataStructured u32 "u8 list"
| DataSystemCall u32 "u64 list"
| DataError u32 string

fun message_data_size :: "message_data \<Rightarrow> usize" where
  "message_data_size DataEmpty = 0"
| "message_data_size (DataBytes bs) = of_nat (length bs)"
| "message_data_size (DataText t) = of_nat (length t)"
| "message_data_size (DataStructured i bs) = of_nat (length bs) + 4"
| "message_data_size (DataSystemCall i args) = 4 + 6 * 8"
| "message_data_size (DataError c t) = 4 + of_nat (length t)"

fun message_data_is_empty :: "message_data \<Rightarrow> bool" where
  "message_data_is_empty DataEmpty = True"
| "message_data_is_empty _ = False"

record message_flags =
  synchronous :: bool
  no_queue :: bool
  has_caps :: bool
  broadcast :: bool

definition message_flags_default :: message_flags where
  "message_flags_default = \<lparr>synchronous = False, no_queue = False, has_caps = False, broadcast = False\<rparr>"

record message_header =
  message_id_of :: message_id
  sender :: process_id
  receiver :: process_id
  message_type_of :: message_type
  msg_priority :: u8
  timestamp :: u64
  reply_to :: "message_id option"
  msg_flags :: message_flags

record message =
  header :: message_header
  data :: message_data
  msg_capabilities :: capability_set

definition msg_current_time_ms :: u64 where
  "msg_current_time_ms = 0"

text \<open>The counter of message numbers: its value, then its next value.\<close>

definition generate_message_id :: "u64 \<Rightarrow> message_id \<times> u64" where
  "generate_message_id n = (n, n + 1)"

definition message_new :: "u64 \<Rightarrow> process_id \<Rightarrow> process_id \<Rightarrow> message_type \<Rightarrow> message_data \<Rightarrow> message \<times> u64" where
  "message_new n from_p to_p ty d =
     (case generate_message_id n of (i, n') \<Rightarrow>
        (\<lparr>header = \<lparr>message_id_of = i, sender = from_p, receiver = to_p, message_type_of = ty,
            msg_priority = 128, timestamp = msg_current_time_ms, reply_to = None,
            msg_flags = message_flags_default\<lparr>has_caps := False\<rparr>\<rparr>,
          data = d, msg_capabilities = []\<rparr>, n'))"

definition create_reply :: "u64 \<Rightarrow> message \<Rightarrow> process_id \<Rightarrow> message_data \<Rightarrow> message \<times> u64" where
  "create_reply n m from_p d =
     (case generate_message_id n of (i, n') \<Rightarrow>
        (\<lparr>header = \<lparr>message_id_of = i, sender = from_p, receiver = sender (header m),
            message_type_of = Response, msg_priority = msg_priority (header m),
            timestamp = msg_current_time_ms, reply_to = Some (message_id_of (header m)),
            msg_flags = message_flags_default\<rparr>,
          data = d, msg_capabilities = []\<rparr>, n'))"

definition set_priority :: "u8 \<Rightarrow> message \<Rightarrow> message" where
  "set_priority p m = m\<lparr>header := (header m)\<lparr>msg_priority := p\<rparr>\<rparr>"

definition set_synchronous :: "bool \<Rightarrow> message \<Rightarrow> message" where
  "set_synchronous b m = m\<lparr>header := (header m)\<lparr>msg_flags := (msg_flags (header m))\<lparr>synchronous := b\<rparr>\<rparr>\<rparr>"

definition add_capabilities :: "capability_set \<Rightarrow> message \<Rightarrow> message" where
  "add_capabilities cs m =
     m\<lparr>msg_capabilities := cs,
       header := (header m)\<lparr>msg_flags := (msg_flags (header m))\<lparr>has_caps := cs \<noteq> []\<rparr>\<rparr>\<rparr>"

definition total_size :: "usize \<Rightarrow> usize \<Rightarrow> message \<Rightarrow> usize" where
  "total_size sh sc m = sh + message_data_size (data m) + cs_size sc (msg_capabilities m)"

definition is_reply :: "message \<Rightarrow> bool" where
  "is_reply m \<longleftrightarrow> reply_to (header m) \<noteq> None"

definition is_synchronous :: "message \<Rightarrow> bool" where
  "is_synchronous m = synchronous (msg_flags (header m))"

datatype message_error =
  InvalidMessage | SenderNotFound | ReceiverNotFound | QueueFull | NoMessage | MsgPermissionDenied
| MessageTooLarge | Timeout | MsgResourceExhausted

section \<open>The queue of one process\<close>

definition MAX_MESSAGES_PER_QUEUE :: nat where "MAX_MESSAGES_PER_QUEUE = 256"
definition MAX_QUEUE_SIZE_BYTES :: usize where "MAX_QUEUE_SIZE_BYTES = 64 * 1024"

record message_queue =
  mq_process :: process_id
  messages :: "message list"
  mq_total_size :: usize
  max_messages :: nat
  mq_max_size :: usize
  messages_received :: u64
  messages_sent :: u64
  queue_full_count :: u64

definition message_queue_new :: "process_id \<Rightarrow> message_queue" where
  "message_queue_new p =
     \<lparr>mq_process = p, messages = [], mq_total_size = 0, max_messages = MAX_MESSAGES_PER_QUEUE,
      mq_max_size = MAX_QUEUE_SIZE_BYTES, messages_received = 0, messages_sent = 0, queue_full_count = 0\<rparr>"

definition can_accept_message :: "usize \<Rightarrow> usize \<Rightarrow> message_queue \<Rightarrow> message \<Rightarrow> bool" where
  "can_accept_message sh sc q m =
     (let message_size = total_size sh sc m in
      if length (messages q) \<ge> max_messages q then False
      else if mq_total_size q + message_size > mq_max_size q then False
      else True)"

definition enqueue :: "usize \<Rightarrow> usize \<Rightarrow> message_queue \<Rightarrow> message \<Rightarrow> (unit, message_error) result \<times> message_queue" where
  "enqueue sh sc q m =
     (if \<not> can_accept_message sh sc q m then (Err QueueFull, q\<lparr>queue_full_count := queue_full_count q + 1\<rparr>)
      else let insert_pos = (case position (\<lambda>x. msg_priority (header x) > msg_priority (header m)) (messages q) of
                               Some k \<Rightarrow> k | None \<Rightarrow> length (messages q))
           in (Ok (), q\<lparr>messages := vec_insert insert_pos m (messages q),
                        mq_total_size := mq_total_size q + total_size sh sc m,
                        messages_received := messages_received q + 1\<rparr>))"

definition dequeue :: "usize \<Rightarrow> usize \<Rightarrow> message_queue \<Rightarrow> (message, message_error) result \<times> message_queue" where
  "dequeue sh sc q =
     (case messages q of
        m # rest \<Rightarrow> (Ok m, q\<lparr>messages := rest,
                              mq_total_size := saturating_sub (mq_total_size q) (total_size sh sc m)\<rparr>)
      | [] \<Rightarrow> (Err NoMessage, q))"

definition peek :: "message_queue \<Rightarrow> message option" where
  "peek q = (case messages q of m # _ \<Rightarrow> Some m | [] \<Rightarrow> None)"

definition mq_is_full :: "message_queue \<Rightarrow> bool" where
  "mq_is_full q \<longleftrightarrow> length (messages q) \<ge> max_messages q \<or> mq_total_size q \<ge> mq_max_size q"

definition mq_clear :: "message_queue \<Rightarrow> message_queue" where
  "mq_clear q = q\<lparr>messages := [], mq_total_size := 0\<rparr>"

record message_queue_statistics =
  mqs_process_id :: process_id
  mqs_pending_messages :: nat
  mqs_total_size_bytes :: usize
  mqs_messages_received :: u64
  mqs_messages_sent :: u64
  mqs_queue_full_count :: u64
  mqs_max_messages :: nat
  mqs_max_size_bytes :: usize

definition mq_statistics :: "message_queue \<Rightarrow> message_queue_statistics" where
  "mq_statistics q =
     \<lparr>mqs_process_id = mq_process q, mqs_pending_messages = length (messages q),
      mqs_total_size_bytes = mq_total_size q, mqs_messages_received = messages_received q,
      mqs_messages_sent = messages_sent q, mqs_queue_full_count = queue_full_count q,
      mqs_max_messages = max_messages q, mqs_max_size_bytes = mq_max_size q\<rparr>"

section \<open>The manager of the queues\<close>

datatype message_queue_error = QueueNotFound | QueueAlreadyExists | MqResourceExhausted | InvalidProcessId

record queue_manager =
  queues :: "process_id \<rightharpoonup> message_queue"
  total_messages :: u64
  total_queues_created :: u64

definition queue_manager_new :: queue_manager where
  "queue_manager_new = \<lparr>queues = Map.empty, total_messages = 0, total_queues_created = 0\<rparr>"

definition create_queue :: "queue_manager \<Rightarrow> process_id \<Rightarrow> (unit, message_queue_error) result \<times> queue_manager" where
  "create_queue qm p =
     (if queues qm p \<noteq> None then (Err QueueAlreadyExists, qm)
      else (Ok (), qm\<lparr>queues := (queues qm)(p \<mapsto> message_queue_new p),
                      total_queues_created := total_queues_created qm + 1\<rparr>))"

definition get_or_create_queue :: "queue_manager \<Rightarrow> process_id \<Rightarrow> message_queue \<times> queue_manager" where
  "get_or_create_queue qm p =
     (let qm' = (if queues qm p = None then snd (create_queue qm p) else qm) in (the (queues qm' p), qm'))"

definition remove_queue :: "queue_manager \<Rightarrow> process_id \<Rightarrow> (message_queue, message_queue_error) result \<times> queue_manager" where
  "remove_queue qm p =
     (case queues qm p of
        Some q \<Rightarrow> (Ok q, qm\<lparr>queues := (queues qm)(p := None)\<rparr>)
      | None \<Rightarrow> (Err QueueNotFound, qm))"

definition manager_enqueue ::
    "usize \<Rightarrow> usize \<Rightarrow> queue_manager \<Rightarrow> process_id \<Rightarrow> message \<Rightarrow> (unit, message_error) result \<times> queue_manager" where
  "manager_enqueue sh sc qm p m =
     (case get_or_create_queue qm p of (q, qm1) \<Rightarrow>
        (case enqueue sh sc q m of
           (Err e, q') \<Rightarrow> (Err e, qm1\<lparr>queues := (queues qm1)(p \<mapsto> q')\<rparr>)
         | (Ok _, q') \<Rightarrow> (Ok (), qm1\<lparr>queues := (queues qm1)(p \<mapsto> q'),
                                       total_messages := total_messages qm1 + 1\<rparr>)))"

definition manager_dequeue ::
    "usize \<Rightarrow> usize \<Rightarrow> queue_manager \<Rightarrow> process_id \<Rightarrow> (message, message_error) result \<times> queue_manager" where
  "manager_dequeue sh sc qm p =
     (case queues qm p of
        None \<Rightarrow> (Err ReceiverNotFound, qm)
      | Some q \<Rightarrow>
          (case dequeue sh sc q of
             (Err e, q') \<Rightarrow> (Err e, qm\<lparr>queues := (queues qm)(p \<mapsto> q')\<rparr>)
           | (Ok m, q') \<Rightarrow> (Ok m, qm\<lparr>queues := (queues qm)(p \<mapsto> q'),
                                       total_messages := saturating_sub (total_messages qm) 1\<rparr>)))"

record global_queue_statistics =
  gqs_active_queues :: nat
  gqs_total_pending_messages :: nat
  gqs_total_messages_sent :: u64
  gqs_total_messages_received :: u64
  gqs_total_queue_full_events :: u64
  gqs_total_queues_created :: u64

definition manager_global_statistics :: "queue_manager \<Rightarrow> global_queue_statistics" where
  "manager_global_statistics qm =
     (let qs = queues qm in
      \<lparr>gqs_active_queues = card (dom qs),
       gqs_total_pending_messages = (\<Sum>p\<in>dom qs. length (messages (the (qs p)))),
       gqs_total_messages_sent = (\<Sum>p\<in>dom qs. messages_sent (the (qs p))),
       gqs_total_messages_received = (\<Sum>p\<in>dom qs. messages_received (the (qs p))),
       gqs_total_queue_full_events = (\<Sum>p\<in>dom qs. queue_full_count (the (qs p))),
       gqs_total_queues_created = total_queues_created qm\<rparr>)"

section \<open>The global manager\<close>

type_synonym queue_state = "queue_manager option"

definition init_message_queues :: queue_state where
  "init_message_queues = Some queue_manager_new"

definition create_message_queue :: "queue_state \<Rightarrow> process_id \<Rightarrow> (unit, message_queue_error) result \<times> queue_state" where
  "create_message_queue g p =
     (case g of None \<Rightarrow> (Err MqResourceExhausted, None) | Some qm \<Rightarrow> map_prod id Some (create_queue qm p))"

definition get_message_queue :: "queue_state \<Rightarrow> process_id \<Rightarrow> message_queue_statistics option" where
  "get_message_queue g p = (case g of None \<Rightarrow> None | Some qm \<Rightarrow> map_option mq_statistics (queues qm p))"

definition enqueue_message ::
    "usize \<Rightarrow> usize \<Rightarrow> queue_state \<Rightarrow> process_id \<Rightarrow> message \<Rightarrow> (unit, message_error) result \<times> queue_state" where
  "enqueue_message sh sc g p m =
     (case g of None \<Rightarrow> (Err MsgResourceExhausted, None)
      | Some qm \<Rightarrow> map_prod id Some (manager_enqueue sh sc qm p m))"

definition dequeue_message ::
    "usize \<Rightarrow> usize \<Rightarrow> queue_state \<Rightarrow> process_id \<Rightarrow> (message, message_error) result \<times> queue_state" where
  "dequeue_message sh sc g p =
     (case g of None \<Rightarrow> (Err MsgResourceExhausted, None)
      | Some qm \<Rightarrow> map_prod id Some (manager_dequeue sh sc qm p))"

definition remove_message_queue :: "queue_state \<Rightarrow> process_id \<Rightarrow> (unit, message_queue_error) result \<times> queue_state" where
  "remove_message_queue g p =
     (case g of None \<Rightarrow> (Err MqResourceExhausted, None)
      | Some qm \<Rightarrow>
          (case remove_queue qm p of
             (Ok _, qm') \<Rightarrow> (Ok (), Some qm')
           | (Err e, qm') \<Rightarrow> (Err e, Some qm')))"

definition get_queue_statistics :: "queue_state \<Rightarrow> global_queue_statistics" where
  "get_queue_statistics g =
     (case g of
        Some qm \<Rightarrow> manager_global_statistics qm
      | None \<Rightarrow> \<lparr>gqs_active_queues = 0, gqs_total_pending_messages = 0, gqs_total_messages_sent = 0,
                  gqs_total_messages_received = 0, gqs_total_queue_full_events = 0, gqs_total_queues_created = 0\<rparr>)"

section \<open>Invariant and abstract view\<close>

definition prio_of :: "message \<Rightarrow> nat" where
  "prio_of m = unat (msg_priority (header m))"

text \<open>A message that fits in half of the address space, as every object in memory does.\<close>

definition msg_fits :: "usize \<Rightarrow> usize \<Rightarrow> message \<Rightarrow> bool" where
  "msg_fits sh sc m \<longleftrightarrow> unat (total_size sh sc m) < 2 ^ 63"

definition mq_wf :: "usize \<Rightarrow> usize \<Rightarrow> message_queue \<Rightarrow> bool" where
  "mq_wf sh sc q \<longleftrightarrow> sorted (map prio_of (messages q)) \<and> length (messages q) \<le> max_messages q
     \<and> unat (mq_total_size q) = sum_list (map (\<lambda>m. unat (total_size sh sc m)) (messages q))
     \<and> mq_total_size q \<le> mq_max_size q \<and> unat (mq_max_size q) < 2 ^ 63"

definition by_priority :: "message_queue \<Rightarrow> nat \<Rightarrow> message list" where
  "by_priority q k = filter (\<lambda>m. prio_of m = k) (messages q)"

definition put_message :: "usize \<Rightarrow> usize \<Rightarrow> message_queue \<Rightarrow> message \<Rightarrow> bool \<times> message_queue" where
  "put_message sh sc q m = map_prod is_ok id (enqueue sh sc q m)"

definition take_message :: "usize \<Rightarrow> usize \<Rightarrow> message_queue \<Rightarrow> message option \<times> message_queue" where
  "take_message sh sc q =
     map_prod (\<lambda>r. case r of Ok m \<Rightarrow> Some m | Err _ \<Rightarrow> None) id (dequeue sh sc q)"

definition demo_message :: "u8 \<Rightarrow> message" where
  "demo_message prio = set_priority prio (fst (message_new 1 2 1 ServiceRequest (DataText ''hi'')))"

section \<open>One queue\<close>

lemma prio_less: "msg_priority (header x) > msg_priority (header m) \<longleftrightarrow> \<not> prio_of x \<le> prio_of m"
  by (auto simp: prio_of_def word_less_nat_alt)

lemma enqueue_cases:
  "enqueue sh sc q m = (if can_accept_message sh sc q m
     then (Ok (), q\<lparr>messages := takeWhile (\<lambda>x. prio_of x \<le> prio_of m) (messages q) @ m #
                      dropWhile (\<lambda>x. prio_of x \<le> prio_of m) (messages q),
                    mq_total_size := mq_total_size q + total_size sh sc m,
                    messages_received := messages_received q + 1\<rparr>)
     else (Err QueueFull, q\<lparr>queue_full_count := queue_full_count q + 1\<rparr>))"
  by (simp add: enqueue_def prio_less vec_insert_position)

lemma no_wrap:
  assumes "mq_wf sh sc q" "msg_fits sh sc m"
  shows "unat (mq_total_size q + total_size sh sc m) = unat (mq_total_size q) + unat (total_size sh sc m)"
proof -
  have "unat (mq_total_size q) < 2 ^ 63" using assms(1) by (auto simp: mq_wf_def word_le_nat_alt)
  with assms(2) show ?thesis by (simp add: msg_fits_def unat_word_ariths)
qed

lemma can_accept_iff:
  assumes "mq_wf sh sc q" "msg_fits sh sc m"
  shows "can_accept_message sh sc q m \<longleftrightarrow> length (messages q) < max_messages q
    \<and> sum_list (map (\<lambda>m. unat (total_size sh sc m)) (messages q)) + unat (total_size sh sc m) \<le> unat (mq_max_size q)"
  using no_wrap [OF assms] assms(1)
  by (auto simp: can_accept_message_def Let_def word_less_nat_alt mq_wf_def)

lemma enqueue_wf:
  assumes wf: "mq_wf sh sc q" and fits: "msg_fits sh sc m" and enq: "enqueue sh sc q m = (r, q')"
  shows "mq_wf sh sc q'"
proof (cases "can_accept_message sh sc q m")
  case True
  have acc: "length (messages q) < max_messages q"
    "mq_total_size q + total_size sh sc m \<le> mq_max_size q"
    using True by (auto simp: can_accept_message_def Let_def split: if_splits)
  have q': "q' = q\<lparr>messages := takeWhile (\<lambda>x. prio_of x \<le> prio_of m) (messages q) @ m #
                      dropWhile (\<lambda>x. prio_of x \<le> prio_of m) (messages q),
                    mq_total_size := mq_total_size q + total_size sh sc m,
                    messages_received := messages_received q + 1\<rparr>"
    using enq True by (simp add: enqueue_cases)
  have "sorted (map prio_of (messages q'))"
    using wf sorted_insert_middle [of prio_of "messages q" m] by (simp add: q' mq_wf_def)
  moreover have "length (messages q') \<le> max_messages q'"
    using acc(1) length_split [of "\<lambda>x. prio_of x \<le> prio_of m" "messages q" m] by (simp add: q')
  moreover have "unat (mq_total_size q') = sum_list (map (\<lambda>m. unat (total_size sh sc m)) (messages q'))"
    using no_wrap [OF wf fits] wf
      sum_list_split [of "\<lambda>m. unat (total_size sh sc m)" "\<lambda>x. prio_of x \<le> prio_of m" "messages q" m]
    by (simp add: q' mq_wf_def)
  ultimately show ?thesis using wf acc(2) by (simp add: mq_wf_def q')
next
  case False
  with wf enq show ?thesis by (auto simp: enqueue_cases mq_wf_def)
qed

lemma enqueue_view:
  assumes wf: "mq_wf sh sc q" and acc: "can_accept_message sh sc q m" and enq: "enqueue sh sc q m = (r, q')"
  shows "by_priority q' = (by_priority q)(prio_of m := by_priority q (prio_of m) @ [m])"
proof
  fix k
  let ?P = "\<lambda>x. prio_of x \<le> prio_of m"
  have q': "messages q' = takeWhile ?P (messages q) @ m # dropWhile ?P (messages q)"
    using enq acc by (auto simp: enqueue_cases)
  have split: "filter (\<lambda>x. prio_of x = j) (messages q) = filter (\<lambda>x. prio_of x = j) (takeWhile ?P (messages q))
      @ filter (\<lambda>x. prio_of x = j) (dropWhile ?P (messages q))" for j
    by (metis filter_append takeWhile_dropWhile_id)
  have "sorted (map prio_of (messages q))" using wf by (simp add: mq_wf_def)
  note gt = sorted_dropWhile_gt [OF this]
  have "filter (\<lambda>x. prio_of x = prio_of m) (dropWhile ?P (messages q)) = []"
    unfolding filter_empty_conv using gt by (metis less_irrefl)
  then show "by_priority q' k = ((by_priority q)(prio_of m := by_priority q (prio_of m) @ [m])) k"
    by (simp add: by_priority_def q' split)
qed

lemma dequeue_wf:
  assumes wf: "mq_wf sh sc q" and deq: "dequeue sh sc q = (r, q')"
  shows "mq_wf sh sc q'"
proof (cases "messages q")
  case Nil
  with assms show ?thesis by (simp add: dequeue_def)
next
  case (Cons m rest)
  then have q': "q' = q\<lparr>messages := rest, mq_total_size := saturating_sub (mq_total_size q) (total_size sh sc m)\<rparr>"
    using deq by (simp add: dequeue_def)
  have "saturating_sub (mq_total_size q) (total_size sh sc m) \<le> mq_max_size q"
    using wf saturating_sub_le order_trans unfolding mq_wf_def by blast
  then show ?thesis
    using wf Cons by (auto simp: q' mq_wf_def unat_saturating_sub)
qed

lemma dequeue_view:
  assumes "mq_wf sh sc q" "dequeue sh sc q = (Ok m, q')"
  shows "by_priority q = (by_priority q')(prio_of m := m # by_priority q' (prio_of m)) \<and> (\<forall>k<prio_of m. by_priority q k = [])"
proof (cases "messages q")
  case Nil
  with assms show ?thesis by (simp add: dequeue_def)
next
  case (Cons m' rest)
  with assms(2) have m: "messages q = m # rest" "messages q' = rest" by (auto simp: dequeue_def)
  have "\<forall>x\<in>set rest. prio_of m \<le> prio_of x" using assms(1) m by (auto simp: mq_wf_def)
  then show ?thesis by (auto simp: by_priority_def m fun_eq_iff filter_empty_conv)
qed

interpretation mq: prio_fifo prio_of "msg_fits sh sc" "mq_wf sh sc" by_priority
  "put_message sh sc" "take_message sh sc" for sh sc
proof
  fix s m b s'
  assume wf: "mq_wf sh sc s" and ok: "msg_fits sh sc m"
  { assume "put_message sh sc s m = (b, s')"
    then show "mq_wf sh sc s'"
      using enqueue_wf [OF wf ok] by (cases "enqueue sh sc s m") (auto simp: put_message_def) }
  { assume put: "put_message sh sc s m = (True, s')"
    then have acc: "can_accept_message sh sc s m"
      by (cases "can_accept_message sh sc s m") (auto simp: put_message_def enqueue_cases)
    have "enqueue sh sc s m = (Ok (), s')"
      using put acc by (simp add: put_message_def enqueue_cases)
    from enqueue_view [OF wf acc this]
    show "by_priority s' = (by_priority s)(prio_of m := by_priority s (prio_of m) @ [m])" . }
  { assume "put_message sh sc s m = (False, s')"
    then show "by_priority s' = by_priority s"
      by (cases "can_accept_message sh sc s m") (auto simp: put_message_def enqueue_cases by_priority_def fun_eq_iff) }
next
  fix s r s' m
  assume wf: "mq_wf sh sc s"
  { assume "take_message sh sc s = (r, s')"
    then show "mq_wf sh sc s'"
      using dequeue_wf [OF wf] by (cases "dequeue sh sc s") (auto simp: take_message_def) }
  { assume "take_message sh sc s = (Some m, s')"
    then have "dequeue sh sc s = (Ok m, s')"
      by (cases "dequeue sh sc s") (auto simp: take_message_def split: result.splits)
    then show "by_priority s = (by_priority s')(prio_of m := m # by_priority s' (prio_of m)) \<and>
        (\<forall>k<prio_of m. by_priority s k = [])"
      by (rule dequeue_view [OF wf]) }
  { assume "take_message sh sc s = (None, s')"
    then have "messages s = []" "s' = s"
      by (auto simp: take_message_def dequeue_def split: list.splits)
    then show "(\<forall>k. by_priority s k = []) \<and> by_priority s' = by_priority s"
      by (simp add: by_priority_def) }
qed

lemma message_queue_new_wf: "mq_wf sh sc (message_queue_new p)"
  by (simp add: mq_wf_def message_queue_new_def MAX_QUEUE_SIZE_BYTES_def)

lemma message_queue_new_view: "by_priority (message_queue_new p) k = []"
  by (simp add: by_priority_def message_queue_new_def)

lemma enqueue_keeps_limits:
  assumes "enqueue sh sc q m = (r, q')"
  shows "max_messages q' = max_messages q" "mq_max_size q' = mq_max_size q" "mq_process q' = mq_process q"
  using assms by (auto simp: enqueue_cases split: if_splits)

lemma dequeue_keeps_limits:
  assumes "dequeue sh sc q = (r, q')"
  shows "max_messages q' = max_messages q" "mq_max_size q' = mq_max_size q" "mq_process q' = mq_process q"
  using assms by (auto simp: dequeue_def split: list.splits)

lemma trace_keeps_limits:
  assumes "pf_trace (msg_fits sh sc) (put_message sh sc) (take_message sh sc) q0 q ins outs"
  shows "max_messages q = max_messages q0 \<and> mq_max_size q = mq_max_size q0"
  using assms
proof induction
  case (accepted s ins outs m s')
  then show ?case
    by (cases "enqueue sh sc s m") (auto simp: put_message_def dest: enqueue_keeps_limits)
next
  case (refused s ins outs m s')
  then show ?case
    by (cases "enqueue sh sc s m") (auto simp: put_message_def dest: enqueue_keeps_limits)
next
  case (delivered s ins outs m s')
  then show ?case
    by (cases "dequeue sh sc s") (auto simp: take_message_def dest: dequeue_keeps_limits)
next
  case (nothing s ins outs s')
  then show ?case
    by (cases "dequeue sh sc s") (auto simp: take_message_def dest: dequeue_keeps_limits)
qed simp

lemma trace_delivery:
  assumes "pf_trace (msg_fits sh sc) (put_message sh sc) (take_message sh sc) (message_queue_new p) q ins outs"
  shows "filter (\<lambda>m. prio_of m = k) ins =
      filter (\<lambda>m. prio_of m = k) outs @ filter (\<lambda>m. prio_of m = k) (messages q)"
    "length (messages q) \<le> MAX_MESSAGES_PER_QUEUE"
    "sum_list (map (\<lambda>m. unat (total_size sh sc m)) (messages q)) \<le> unat MAX_QUEUE_SIZE_BYTES"
    "mq_wf sh sc q" "max_messages q = MAX_MESSAGES_PER_QUEUE" "mq_max_size q = MAX_QUEUE_SIZE_BYTES"
proof -
  note t = mq.trace_fifo [OF assms message_queue_new_wf]
  show wf: "mq_wf sh sc q" using t by blast
  show lim: "max_messages q = MAX_MESSAGES_PER_QUEUE" "mq_max_size q = MAX_QUEUE_SIZE_BYTES"
    using trace_keeps_limits [OF assms] by (simp_all add: message_queue_new_def)
  have "by_priority (message_queue_new p) k @ filter (\<lambda>m. prio_of m = k) ins =
      filter (\<lambda>m. prio_of m = k) outs @ by_priority q k" using t by blast
  then show "filter (\<lambda>m. prio_of m = k) ins =
      filter (\<lambda>m. prio_of m = k) outs @ filter (\<lambda>m. prio_of m = k) (messages q)"
    unfolding message_queue_new_view by (simp add: by_priority_def)
  show "length (messages q) \<le> MAX_MESSAGES_PER_QUEUE"
    "sum_list (map (\<lambda>m. unat (total_size sh sc m)) (messages q)) \<le> unat MAX_QUEUE_SIZE_BYTES"
    using wf lim by (simp_all add: mq_wf_def word_le_nat_alt)
qed

lemma demo_message_facts [simp]:
  "total_size sh sc (demo_message p) = sh + 2" "prio_of (demo_message p) = unat p"
  by (simp_all add: demo_message_def set_priority_def message_new_def generate_message_id_def total_size_def
      cs_size_def prio_of_def)

lemma demo_put:
  "put_message 80 72 (message_queue_new 1) (demo_message 200) =
     (True, (message_queue_new 1)\<lparr>messages := [demo_message 200], mq_total_size := 82, messages_received := 1\<rparr>)"
  by (simp add: put_message_def enqueue_cases can_accept_message_def Let_def message_queue_new_def
      MAX_MESSAGES_PER_QUEUE_def MAX_QUEUE_SIZE_BYTES_def)

lemma demo_put_urgent:
  "put_message 80 72 ((message_queue_new 1)\<lparr>messages := [demo_message 200], mq_total_size := 82, messages_received := 1\<rparr>)
       (demo_message 50) =
     (True, (message_queue_new 1)\<lparr>messages := [demo_message 50, demo_message 200], mq_total_size := 164, messages_received := 2\<rparr>)"
  by (simp add: put_message_def enqueue_cases can_accept_message_def Let_def message_queue_new_def
      MAX_MESSAGES_PER_QUEUE_def MAX_QUEUE_SIZE_BYTES_def)

lemma demo_fits: "msg_fits 80 72 (demo_message p)"
  by (simp add: msg_fits_def)

lemma demo_trace:
  "pf_trace (msg_fits 80 72) (put_message 80 72) (take_message 80 72) (message_queue_new 1)
     ((message_queue_new 1)\<lparr>messages := [demo_message 50, demo_message 200], mq_total_size := 164, messages_received := 2\<rparr>)
     [demo_message 200, demo_message 50] []"
proof -
  let ?tr = "pf_trace (msg_fits 80 72) (put_message 80 72) (take_message 80 72) (message_queue_new 1)"
  have "?tr ((message_queue_new 1)\<lparr>messages := [demo_message 200], mq_total_size := 82, messages_received := 1\<rparr>)
      ([] @ [demo_message 200]) []"
    by (rule pf_trace.accepted [where put = "put_message 80 72" and ok = "msg_fits 80 72"])
      (rule pf_trace.no_ops demo_fits demo_put)+
  then have "?tr ((message_queue_new 1)\<lparr>messages := [demo_message 50, demo_message 200], mq_total_size := 164, messages_received := 2\<rparr>)
      (([] @ [demo_message 200]) @ [demo_message 50]) []"
    by (rule pf_trace.accepted [where put = "put_message 80 72" and ok = "msg_fits 80 72"])
      (rule demo_fits demo_put_urgent)+
  then show ?thesis by simp
qed

section \<open>Properties of one queue\<close>

text \<open>
  C1: a queue loses, duplicates and overtakes nothing. After any sequence of insertions and
  removals, the messages of each priority that were accepted are those that were delivered
  followed by those still waiting, in this order; and the queue never holds more messages or
  more bytes than its limits allow.
\<close>

theorem queue_delivery:
  assumes "pf_trace (msg_fits sh sc) (put_message sh sc) (take_message sh sc) (message_queue_new p) q ins outs"
  shows "filter (\<lambda>m. prio_of m = k) ins =
      filter (\<lambda>m. prio_of m = k) outs @ filter (\<lambda>m. prio_of m = k) (messages q)
    \<and> length (messages q) \<le> MAX_MESSAGES_PER_QUEUE
    \<and> sum_list (map (\<lambda>m. unat (total_size sh sc m)) (messages q)) \<le> unat MAX_QUEUE_SIZE_BYTES"
  using trace_delivery(1-3) [OF assms] by blast

theorem queue_delivery_witness:
  "filter (\<lambda>m. prio_of m = 50) [demo_message 200, demo_message 50] =
     filter (\<lambda>m. prio_of m = 50) [] @ filter (\<lambda>m. prio_of m = 50) [demo_message 50, demo_message 200]"
  using queue_delivery [OF demo_trace, of 50] by simp

text \<open>
  C4: messages come out by priority. From any queue that insertions and removals can lead to,
  the messages taken in a row have non-decreasing priority numbers: nothing urgent waits
  behind something less urgent.
\<close>

theorem queue_priority_order:
  assumes "pf_trace (msg_fits sh sc) (put_message sh sc) (take_message sh sc) (message_queue_new p) q ins outs"
    "get_many (take_message sh sc) n q = (ms, q')"
  shows "sorted (map (\<lambda>m. msg_priority (header m)) ms) \<and> mq_wf sh sc q'"
proof -
  from mq.gets_in_order [OF trace_delivery(4) [OF assms(1)] assms(2)] show ?thesis
    by (simp add: sorted_map prio_of_def word_le_nat_alt)
qed

theorem queue_priority_order_witness:
  "\<exists>ms q'. get_many (take_message 80 72) 2
     ((message_queue_new 1)\<lparr>messages := [demo_message 50, demo_message 200], mq_total_size := 164, messages_received := 2\<rparr>) = (ms, q')
     \<and> length ms = 2 \<and> sorted (map (\<lambda>m. msg_priority (header m)) ms)"
proof -
  obtain ms q' where ms: "get_many (take_message 80 72) 2
     ((message_queue_new 1)\<lparr>messages := [demo_message 50, demo_message 200], mq_total_size := 164, messages_received := 2\<rparr>) = (ms, q')"
    by fastforce
  moreover have "length ms = 2"
    using ms by (auto simp: numeral_2_eq_2 take_message_def dequeue_def)
  ultimately show ?thesis using queue_priority_order [OF demo_trace ms] by blast
qed

end
