(* ===== verification/Ipc.thy ===== *)
theory Ipc
  imports Security_Policy Message_Queues
begin

text \<open>
  Message passing, from the second half of \<^verbatim>\<open>ipc/message.rs\<close> and from \<^verbatim>\<open>ipc/mod.rs\<close>: sending,
  receiving and replying, which put the process table, the capability manager and the message
  queues together. The globals these functions use are the fields of one record.
\<close>

section \<open>State\<close>

record ipc_state =
  ipc_table :: "process_table option"
  ipc_caps :: cap_state
  ipc_policy :: policy_state
  ipc_queues :: queue_state
  next_message_id :: u64

section \<open>Messages between processes\<close>

definition create_message ::
    "ipc_state \<Rightarrow> process_id \<Rightarrow> process_id \<Rightarrow> message_type \<Rightarrow> message_data \<Rightarrow> message \<times> ipc_state" where
  "create_message st from_p to_p ty d =
     (case message_new (next_message_id st) from_p to_p ty d of
        (m, n) \<Rightarrow> (m, st\<lparr>next_message_id := n\<rparr>))"

definition send_message ::
    "usize \<Rightarrow> usize \<Rightarrow> ipc_state \<Rightarrow> message \<Rightarrow> (unit, message_error) result \<times> ipc_state" where
  "send_message sh sc st m =
     (let from_p = sender (header m); to_p = receiver (header m) in
      if global_get_process (ipc_table st) from_p = None then (Err SenderNotFound, st)
      else if global_get_process (ipc_table st) to_p = None then (Err ReceiverNotFound, st)
      else case check_capability (ipc_caps st) (from_p, CapSendMessage, ResProcess to_p) of
        (False, caps) \<Rightarrow> (Err MsgPermissionDenied, st\<lparr>ipc_caps := caps\<rparr>)
      | (True, caps) \<Rightarrow>
          (case enqueue_message sh sc (ipc_queues st) to_p m of
             (r, qs) \<Rightarrow> (r, st\<lparr>ipc_caps := caps, ipc_queues := qs\<rparr>)))"

definition receive_message ::
    "usize \<Rightarrow> usize \<Rightarrow> ipc_state \<Rightarrow> process_id \<Rightarrow> (message, message_error) result \<times> ipc_state" where
  "receive_message sh sc st p =
     (if global_get_process (ipc_table st) p = None then (Err ReceiverNotFound, st)
      else case dequeue_message sh sc (ipc_queues st) p of
        (r, qs) \<Rightarrow> (r, st\<lparr>ipc_queues := qs\<rparr>))"

definition reply_message ::
    "usize \<Rightarrow> usize \<Rightarrow> ipc_state \<Rightarrow> message \<Rightarrow> process_id \<Rightarrow> message_data \<Rightarrow> (unit, message_error) result \<times> ipc_state" where
  "reply_message sh sc st original from_p d =
     (case create_reply (next_message_id st) original from_p d of
        (m, n) \<Rightarrow> send_message sh sc (st\<lparr>next_message_id := n\<rparr>) m)"

section \<open>The IPC system\<close>

definition init_ipc_system :: "ipc_state \<Rightarrow> (unit, string) result \<times> ipc_state" where
  "init_ipc_system st =
     (Ok (), st\<lparr>ipc_queues := init_message_queues,
               ipc_caps := init_capability_system (ipc_caps st),
               ipc_policy := init_security_policy\<rparr>)"

record ipc_statistics =
  ipcs_total_messages_sent :: u64
  ipcs_total_messages_received :: u64
  ipcs_active_message_queues :: nat
  ipcs_total_capabilities :: nat
  ipcs_capability_checks_performed :: u64
  ipcs_capability_checks_failed :: u64

definition get_ipc_statistics :: "ipc_state \<Rightarrow> ipc_statistics" where
  "get_ipc_statistics st =
     (let qs = get_queue_statistics (ipc_queues st); cs = get_capability_statistics (ipc_caps st) in
      \<lparr>ipcs_total_messages_sent = gqs_total_messages_sent qs,
       ipcs_total_messages_received = gqs_total_messages_received qs,
       ipcs_active_message_queues = gqs_active_queues qs,
       ipcs_total_capabilities = cst_total_capabilities cs,
       ipcs_capability_checks_performed = cst_checks_performed cs,
       ipcs_capability_checks_failed = cst_checks_failed cs\<rparr>)"

section \<open>Runs\<close>

text \<open>
  Runs of the IPC system: sends and receives by any process, interleaved with anything that
  changes the process table, the capabilities, the policy or the counter. The lists record,
  for each process, the messages accepted for it and the messages it received.
\<close>

inductive ipc_run ::
    "usize \<Rightarrow> usize \<Rightarrow> ipc_state \<Rightarrow> (process_id \<Rightarrow> message list) \<Rightarrow> (process_id \<Rightarrow> message list) \<Rightarrow> bool"
  for sh sc where
  start: "ipc_queues st = init_message_queues \<Longrightarrow> ipc_run sh sc st (\<lambda>_. []) (\<lambda>_. [])"
| sent: "ipc_run sh sc st acc got \<Longrightarrow> msg_fits sh sc m \<Longrightarrow> send_message sh sc st m = (Ok (), st') \<Longrightarrow>
     ipc_run sh sc st' (acc(receiver (header m) := acc (receiver (header m)) @ [m])) got"
| not_sent: "ipc_run sh sc st acc got \<Longrightarrow> msg_fits sh sc m \<Longrightarrow> send_message sh sc st m = (Err e, st') \<Longrightarrow>
     ipc_run sh sc st' acc got"
| received: "ipc_run sh sc st acc got \<Longrightarrow> receive_message sh sc st p = (Ok m, st') \<Longrightarrow>
     ipc_run sh sc st' acc (got(p := got p @ [m]))"
| not_received: "ipc_run sh sc st acc got \<Longrightarrow> receive_message sh sc st p = (Err e, st') \<Longrightarrow>
     ipc_run sh sc st' acc got"
| other: "ipc_run sh sc st acc got \<Longrightarrow> ipc_queues st' = ipc_queues st \<Longrightarrow> ipc_run sh sc st' acc got"

text \<open>The queue of a process; a process without one has nothing waiting.\<close>

definition queue_of :: "queue_state \<Rightarrow> process_id \<Rightarrow> message_queue" where
  "queue_of g p = (case g of None \<Rightarrow> message_queue_new p
     | Some qm \<Rightarrow> (case queues qm p of None \<Rightarrow> message_queue_new p | Some q \<Rightarrow> q))"

definition waiting :: "ipc_state \<Rightarrow> process_id \<Rightarrow> message list" where
  "waiting st p = messages (queue_of (ipc_queues st) p)"

definition demo_ipc :: ipc_state where
  "demo_ipc = snd (init_ipc_system \<lparr>ipc_table = Some demo_table, ipc_caps = cap_boot, ipc_policy = None,
     ipc_queues = None, next_message_id = 1\<rparr>)"

definition send_verdict :: "usize \<Rightarrow> usize \<Rightarrow> ipc_state \<Rightarrow> message \<Rightarrow> (unit, message_error) result" where
  "send_verdict sh sc st m =
     (let from_p = sender (header m); to_p = receiver (header m) in
      if global_get_process (ipc_table st) from_p = None then Err SenderNotFound
      else if global_get_process (ipc_table st) to_p = None then Err ReceiverNotFound
      else if \<not> permits (ipc_caps st) (from_p, CapSendMessage, ResProcess to_p) then Err MsgPermissionDenied
      else if ipc_queues st = None then Err MsgResourceExhausted
      else if can_accept_message sh sc (queue_of (ipc_queues st) to_p) m then Ok () else Err QueueFull)"

abbreviation mq_trace :: "usize \<Rightarrow> usize \<Rightarrow> process_id \<Rightarrow> message_queue \<Rightarrow> message list \<Rightarrow> message list \<Rightarrow> bool" where
  "mq_trace sh sc p \<equiv> pf_trace (msg_fits sh sc) (put_message sh sc) (take_message sh sc) (message_queue_new p)"

section \<open>The queues of all processes\<close>

lemma enqueue_message_Some:
  "enqueue_message sh sc (Some qm) p m =
     (fst (enqueue sh sc (queue_of (Some qm) p) m),
      Some (snd (manager_enqueue sh sc qm p m)))"
  by (auto simp: enqueue_message_def manager_enqueue_def get_or_create_queue_def create_queue_def queue_of_def
      Let_def split: prod.splits result.splits option.splits)

lemma queue_of_enqueue:
  "queue_of (Some (snd (manager_enqueue sh sc qm p m))) =
     (queue_of (Some qm))(p := snd (enqueue sh sc (queue_of (Some qm) p) m))"
  by (rule ext) (auto simp: manager_enqueue_def get_or_create_queue_def create_queue_def queue_of_def
      Let_def split: prod.splits result.splits option.splits)

lemma dequeue_new: "dequeue sh sc (message_queue_new p) = (Err NoMessage, message_queue_new p)"
  by (simp add: dequeue_def message_queue_new_def)

lemma dequeue_message_Some:
  obtains r q' qm' where "dequeue_message sh sc (Some qm) p = (r, Some qm')"
    "take_message sh sc (queue_of (Some qm) p) = (case r of Ok m \<Rightarrow> Some m | Err _ \<Rightarrow> None, q')"
    "queue_of (Some qm') = (queue_of (Some qm))(p := q')"
proof -
  obtain r q' where d: "dequeue sh sc (queue_of (Some qm) p) = (r, q')" by fastforce
  show ?thesis
  proof (cases "queues qm p")
    case None
    then have "dequeue_message sh sc (Some qm) p = (Err ReceiverNotFound, Some qm)"
      by (simp add: dequeue_message_def manager_dequeue_def)
    moreover have "take_message sh sc (queue_of (Some qm) p) = (None, queue_of (Some qm) p)"
      using None by (simp add: take_message_def queue_of_def dequeue_new)
    ultimately show ?thesis by (intro that) auto
  next
    case (Some q)
    then have q: "queue_of (Some qm) p = q" by (simp add: queue_of_def)
    obtain qm' where qm': "dequeue_message sh sc (Some qm) p = (r, Some qm')" "queues qm' = (queues qm)(p \<mapsto> q')"
      using d Some q by (cases r) (auto simp: dequeue_message_def manager_dequeue_def)
    have "queue_of (Some qm') = (queue_of (Some qm))(p := q')"
      by (rule ext) (simp add: queue_of_def qm'(2))
    with that [OF qm'(1)] d show ?thesis by (simp add: take_message_def)
  qed
qed

section \<open>Sending and receiving\<close>

lemma check_capability_split:
  obtains caps where "check_capability g q = (permits g q, caps)" "permits caps = permits g"
  by (rule that [of "snd (check_capability g q)"]) (simp_all only: prod_eq_iff caps.check_answer caps.check_keeps fst_conv snd_conv)

lemma send_message_eq:
  obtains caps qs where
    "permits caps = permits (ipc_caps st)"
    "send_message sh sc st m = (send_verdict sh sc st m, st\<lparr>ipc_caps := caps, ipc_queues := qs\<rparr>)" "qs = None \<longleftrightarrow> ipc_queues st = None"
    "queue_of qs = (if send_verdict sh sc st m \<in> {Ok (), Err QueueFull}
       then (queue_of (ipc_queues st))(receiver (header m) :=
               snd (enqueue sh sc (queue_of (ipc_queues st) (receiver (header m))) m))
       else queue_of (ipc_queues st))"
proof -
  let ?f = "sender (header m)" and ?t = "receiver (header m)"
  obtain caps where c: "check_capability (ipc_caps st) (?f, CapSendMessage, ResProcess ?t) =
      (permits (ipc_caps st) (?f, CapSendMessage, ResProcess ?t), caps)" "permits caps = permits (ipc_caps st)"
    by (rule check_capability_split)
  consider (miss) "global_get_process (ipc_table st) ?f = None \<or> global_get_process (ipc_table st) ?t = None"
    | (found) "global_get_process (ipc_table st) ?f \<noteq> None" "global_get_process (ipc_table st) ?t \<noteq> None"
    by blast
  then show ?thesis
  proof cases
    case miss
    then have "send_message sh sc st m = (send_verdict sh sc st m, st)" "send_verdict sh sc st m \<notin> {Ok (), Err QueueFull}"
      by (auto simp: send_message_def send_verdict_def Let_def)
    then show ?thesis using that [of "ipc_caps st" "ipc_queues st"] by simp
  next
    case found
    show ?thesis
    proof (cases "permits (ipc_caps st) (?f, CapSendMessage, ResProcess ?t)")
      case False
      with found c have "send_message sh sc st m = (send_verdict sh sc st m, st\<lparr>ipc_caps := caps, ipc_queues := ipc_queues st\<rparr>)"
        "send_verdict sh sc st m \<notin> {Ok (), Err QueueFull}"
        by (auto simp: send_message_def send_verdict_def Let_def simp del: permits.simps)
      with c(2) show ?thesis using that [of caps "ipc_queues st"] by simp
    next
      case True
      show ?thesis
      proof (cases "ipc_queues st")
        case None
        then have "send_message sh sc st m = (send_verdict sh sc st m, st\<lparr>ipc_caps := caps, ipc_queues := None\<rparr>)"
          "send_verdict sh sc st m \<notin> {Ok (), Err QueueFull}"
          using found c True
          by (auto simp: send_message_def send_verdict_def Let_def enqueue_message_def simp del: permits.simps)
        with c(2) None show ?thesis using that [of caps None] by simp
      next
        case (Some qm)
        let ?qs = "Some (snd (manager_enqueue sh sc qm ?t m))"
        have "send_message sh sc st m = (send_verdict sh sc st m, st\<lparr>ipc_caps := caps, ipc_queues := ?qs\<rparr>)"
          "send_verdict sh sc st m \<in> {Ok (), Err QueueFull}"
          using found c True Some
          by (auto simp: send_message_def send_verdict_def Let_def enqueue_message_Some enqueue_cases simp del: permits.simps)
        with c(2) Some show ?thesis using that [of caps ?qs] by (simp add: queue_of_enqueue)
      qed
    qed
  qed
qed

lemma receive_message_eq:
  assumes "ipc_queues st \<noteq> None"
  obtains (missing) "global_get_process (ipc_table st) p = None" "receive_message sh sc st p = (Err ReceiverNotFound, st)"
  | (taken) r q' qs where "global_get_process (ipc_table st) p \<noteq> None"
      "receive_message sh sc st p = (r, st\<lparr>ipc_queues := qs\<rparr>)" "qs \<noteq> None"
      "take_message sh sc (queue_of (ipc_queues st) p) = (case r of Ok m \<Rightarrow> Some m | Err _ \<Rightarrow> None, q')"
      "queue_of qs = (queue_of (ipc_queues st))(p := q')"
proof (cases "global_get_process (ipc_table st) p")
  case None
  then show ?thesis by (intro missing) (simp_all add: receive_message_def)
next
  case (Some i)
  obtain qm where qm: "ipc_queues st = Some qm" using assms by blast
  obtain r q' qm' where d: "dequeue_message sh sc (Some qm) p = (r, Some qm')"
    "take_message sh sc (queue_of (Some qm) p) = (case r of Ok m \<Rightarrow> Some m | Err _ \<Rightarrow> None, q')"
    "queue_of (Some qm') = (queue_of (Some qm))(p := q')"
    by (rule dequeue_message_Some)
  have "receive_message sh sc st p = (r, st\<lparr>ipc_queues := Some qm'\<rparr>)"
    using Some qm d(1) by (simp add: receive_message_def)
  then show ?thesis using taken [of r "Some qm'" q'] d(2,3) qm Some by simp
qed

lemma put_message_enqueue: "put_message sh sc q m = (can_accept_message sh sc q m, snd (enqueue sh sc q m))"
  by (simp add: put_message_def enqueue_cases)

lemma trace_put:
  assumes "mq_trace sh sc p q ins outs" "msg_fits sh sc m"
  shows "mq_trace sh sc p (snd (enqueue sh sc q m)) (if can_accept_message sh sc q m then ins @ [m] else ins) outs"
proof (cases "can_accept_message sh sc q m")
  case True
  then show ?thesis
    using pf_trace.accepted [where put = "put_message sh sc" and ok = "msg_fits sh sc", OF assms]
    by (simp add: put_message_enqueue)
next
  case False
  then show ?thesis
    using pf_trace.refused [where put = "put_message sh sc" and ok = "msg_fits sh sc", OF assms]
    by (simp add: put_message_enqueue)
qed

lemma trace_take:
  assumes "mq_trace sh sc p q ins outs" "take_message sh sc q = (r, q')"
  shows "mq_trace sh sc p q' ins (case r of Some m \<Rightarrow> outs @ [m] | None \<Rightarrow> outs)"
  using assms pf_trace.delivered [where get = "take_message sh sc", OF assms(1)]
    pf_trace.nothing [where get = "take_message sh sc", OF assms(1)]
  by (cases r) simp_all

lemma send_verdict_queue:
  "send_verdict sh sc st m = Ok () \<Longrightarrow> can_accept_message sh sc (queue_of (ipc_queues st) (receiver (header m))) m"
  "send_verdict sh sc st m = Err QueueFull \<Longrightarrow> \<not> can_accept_message sh sc (queue_of (ipc_queues st) (receiver (header m))) m"
  by (auto simp: send_verdict_def Let_def split: if_splits)

lemma send_trace:
  assumes "ipc_queues st \<noteq> None" "msg_fits sh sc m" "send_message sh sc st m = (r, st')"
    and "\<forall>p. mq_trace sh sc p (queue_of (ipc_queues st) p) (acc p) (got p)"
  shows "ipc_queues st' \<noteq> None \<and> (\<forall>p. mq_trace sh sc p (queue_of (ipc_queues st') p)
      ((if r = Ok () then acc(receiver (header m) := acc (receiver (header m)) @ [m]) else acc) p) (got p))"
proof -
  let ?t = "receiver (header m)"
  obtain caps qs where s: "send_message sh sc st m = (send_verdict sh sc st m, st\<lparr>ipc_caps := caps, ipc_queues := qs\<rparr>)"
    "qs = None \<longleftrightarrow> ipc_queues st = None"
    "queue_of qs = (if send_verdict sh sc st m \<in> {Ok (), Err QueueFull}
       then (queue_of (ipc_queues st))(?t := snd (enqueue sh sc (queue_of (ipc_queues st) ?t) m))
       else queue_of (ipc_queues st))" by (rule send_message_eq) (rule that)
  have st': "st' = st\<lparr>ipc_caps := caps, ipc_queues := qs\<rparr>" and r: "r = send_verdict sh sc st m"
    using assms(3) s(1) by auto
  have "mq_trace sh sc ?t (queue_of (ipc_queues st) ?t) (acc ?t) (got ?t)" using assms(4) by blast
  note put = trace_put [OF this assms(2)]
  show ?thesis
  proof (cases "r \<in> {Ok (), Err QueueFull}")
    case True
    then show ?thesis using put send_verdict_queue [of sh sc st m] assms(1,4) s(2,3) by (auto simp: st' r)
  next
    case False
    then show ?thesis using assms(1,4) s(2,3) by (auto simp: st' r)
  qed
qed

lemma ipc_run_trace:
  assumes "ipc_run sh sc st acc got"
  shows "ipc_queues st \<noteq> None \<and> (\<forall>p. mq_trace sh sc p (queue_of (ipc_queues st) p) (acc p) (got p))"
  using assms
proof induction
  case (start st)
  then show ?case
    by (simp add: init_message_queues_def queue_manager_new_def queue_of_def pf_trace.no_ops)
next
  case (sent st acc got m st')
  then show ?case using send_trace [of st sh sc m "Ok ()" st' acc got] by simp
next
  case (not_sent st acc got m e st')
  then show ?case using send_trace [of st sh sc m "Err e" st' acc got] by simp
next
  case (received st acc got p m st')
  then have "ipc_queues st \<noteq> None" by blast
  then show ?case
  proof (cases rule: receive_message_eq [where sh = sh and sc = sc and p = p])
    case missing
    with received.hyps show ?thesis by simp
  next
    case (taken r q' qs)
    with received.hyps have m: "r = Ok m" "st' = st\<lparr>ipc_queues := qs\<rparr>" by auto
    have "mq_trace sh sc p q' (acc p) (got p @ [m])"
      using received.IH trace_take [OF _ taken(4)] m(1) by fastforce
    with received.IH taken(3,5) show ?thesis by (auto simp: m(2))
  qed
next
  case (not_received st acc got p e st')
  then have "ipc_queues st \<noteq> None" by blast
  then show ?case
  proof (cases rule: receive_message_eq [where sh = sh and sc = sc and p = p])
    case missing
    with not_received show ?thesis by simp
  next
    case (taken r q' qs)
    with not_received.hyps have m: "r = Err e" "st' = st\<lparr>ipc_queues := qs\<rparr>" by auto
    have "mq_trace sh sc p q' (acc p) (got p)"
      using not_received.IH trace_take [OF _ taken(4)] m(1) by fastforce
    with not_received.IH taken(3,5) show ?thesis by (auto simp: m(2))
  qed
next
  case (other st acc got st')
  then show ?case by simp
qed

lemma send_message_waiting:
  obtains st' where "send_message sh sc st m = (send_verdict sh sc st m, st')"
    "permits (ipc_caps st') = permits (ipc_caps st)" "ipc_table st' = ipc_table st"
    "ipc_queues st' = None \<longleftrightarrow> ipc_queues st = None" "next_message_id st' = next_message_id st"
    "\<And>p. waiting st' p =
       (if send_verdict sh sc st m = Ok () \<and> p = receiver (header m)
        then takeWhile (\<lambda>x. prio_of x \<le> prio_of m) (waiting st p) @ m # dropWhile (\<lambda>x. prio_of x \<le> prio_of m) (waiting st p)
        else waiting st p)"
proof -
  obtain caps qs where s: "permits caps = permits (ipc_caps st)"
    "send_message sh sc st m = (send_verdict sh sc st m, st\<lparr>ipc_caps := caps, ipc_queues := qs\<rparr>)"
    "qs = None \<longleftrightarrow> ipc_queues st = None"
    "queue_of qs = (if send_verdict sh sc st m \<in> {Ok (), Err QueueFull}
       then (queue_of (ipc_queues st))(receiver (header m) :=
               snd (enqueue sh sc (queue_of (ipc_queues st) (receiver (header m))) m))
       else queue_of (ipc_queues st))" by (rule send_message_eq)
  show ?thesis
  proof (rule that [OF s(2)])
    fix p
    show "waiting (st\<lparr>ipc_caps := caps, ipc_queues := qs\<rparr>) p =
       (if send_verdict sh sc st m = Ok () \<and> p = receiver (header m)
        then takeWhile (\<lambda>x. prio_of x \<le> prio_of m) (waiting st p) @ m # dropWhile (\<lambda>x. prio_of x \<le> prio_of m) (waiting st p)
        else waiting st p)"
      using send_verdict_queue [of sh sc st m] by (auto simp: waiting_def s(4) enqueue_cases)
  qed (simp_all add: s)
qed

lemma receive_message_waiting:
  assumes "ipc_queues st \<noteq> None" "global_get_process (ipc_table st) p \<noteq> None" "waiting st p = m # ms"
  obtains st' where "receive_message sh sc st p = (Ok m, st')" "ipc_queues st' \<noteq> None"
    "ipc_table st' = ipc_table st" "ipc_caps st' = ipc_caps st" "next_message_id st' = next_message_id st"
    "waiting st' = (waiting st)(p := ms)"
  using assms(1)
proof (cases rule: receive_message_eq [where sh = sh and sc = sc and p = p])
  case missing
  with assms(2) show ?thesis by simp
next
  case (taken r q' qs)
  from taken(4) assms(3) have "r = Ok m" "messages q' = ms"
    by (auto simp: take_message_def dequeue_def waiting_def split: result.splits)
  then show ?thesis
    using that [OF taken(2) [unfolded \<open>r = Ok m\<close>]] taken(3,5) by (auto simp: waiting_def fun_eq_iff)
qed

lemma empty_accepts:
  assumes "ipc_run sh sc st acc got" "waiting st p = []" "total_size sh sc m \<le> MAX_QUEUE_SIZE_BYTES"
  shows "can_accept_message sh sc (queue_of (ipc_queues st) p) m" "msg_fits sh sc m"
proof -
  have "mq_trace sh sc p (queue_of (ipc_queues st) p) (acc p) (got p)" using ipc_run_trace [OF assms(1)] by blast
  note t = trace_delivery(4-6) [OF this]
  show fits: "msg_fits sh sc m"
    using assms(3) by (simp add: msg_fits_def MAX_QUEUE_SIZE_BYTES_def word_le_nat_alt)
  show "can_accept_message sh sc (queue_of (ipc_queues st) p) m"
    using assms(2,3) t(2,3) unfolding can_accept_iff [OF t(1) fits]
    by (simp add: waiting_def word_le_nat_alt MAX_MESSAGES_PER_QUEUE_def)
qed

lemma send_to_empty:
  assumes "ipc_run sh sc st acc got" "waiting st (receiver (header m)) = []" "total_size sh sc m \<le> MAX_QUEUE_SIZE_BYTES"
    "global_get_process (ipc_table st) (sender (header m)) \<noteq> None"
    "global_get_process (ipc_table st) (receiver (header m)) \<noteq> None"
    "permits (ipc_caps st) (sender (header m), CapSendMessage, ResProcess (receiver (header m)))"
  obtains st' where "send_message sh sc st m = (Ok (), st')"
    "ipc_run sh sc st' (acc(receiver (header m) := acc (receiver (header m)) @ [m])) got"
    "permits (ipc_caps st') = permits (ipc_caps st)" "ipc_table st' = ipc_table st"
    "next_message_id st' = next_message_id st"
    "waiting st' = (waiting st)(receiver (header m) := [m])"
proof -
  have q: "ipc_queues st \<noteq> None" using ipc_run_trace [OF assms(1)] by blast
  note acc = empty_accepts [OF assms(1-3)]
  have v: "send_verdict sh sc st m = Ok ()"
    using q acc assms(4-6) by (simp add: send_verdict_def Let_def del: permits.simps)
  obtain st' where s: "send_message sh sc st m = (send_verdict sh sc st m, st')"
    "permits (ipc_caps st') = permits (ipc_caps st)" "ipc_table st' = ipc_table st"
    "next_message_id st' = next_message_id st"
    "\<And>p. waiting st' p =
       (if send_verdict sh sc st m = Ok () \<and> p = receiver (header m)
        then takeWhile (\<lambda>x. prio_of x \<le> prio_of m) (waiting st p) @ m # dropWhile (\<lambda>x. prio_of x \<le> prio_of m) (waiting st p)
        else waiting st p)"
    by (rule send_message_waiting [of sh sc st m]) (rule that)
  have "ipc_run sh sc st' (acc(receiver (header m) := acc (receiver (header m)) @ [m])) got"
    using ipc_run.sent [OF assms(1) acc(2)] s(1) v by simp
  moreover have "waiting st' = (waiting st)(receiver (header m) := [m])"
    using s(5) v assms(2) by (simp add: fun_eq_iff)
  ultimately show ?thesis using that s v by simp
qed

lemma manager_enqueue_eq:
  "manager_enqueue sh sc qm p m =
     (let q = queue_of (Some qm) p; created = total_queues_created qm + (if queues qm p = None then 1 else 0) in
      if can_accept_message sh sc q m
      then (Ok (), qm\<lparr>queues := (queues qm)(p \<mapsto> q\<lparr>
               messages := takeWhile (\<lambda>x. prio_of x \<le> prio_of m) (messages q) @ m #
                 dropWhile (\<lambda>x. prio_of x \<le> prio_of m) (messages q),
               mq_total_size := mq_total_size q + total_size sh sc m,
               messages_received := messages_received q + 1\<rparr>),
             total_messages := total_messages qm + 1, total_queues_created := created\<rparr>)
      else (Err QueueFull, qm\<lparr>queues := (queues qm)(p \<mapsto> q\<lparr>queue_full_count := queue_full_count q + 1\<rparr>),
             total_queues_created := created\<rparr>))"
  by (cases "queues qm p")
    (simp_all add: queue_of_def manager_enqueue_def get_or_create_queue_def create_queue_def
      enqueue_cases Let_def)

section \<open>An example system\<close>

lemma demo_ipc_facts:
  "ipc_queues demo_ipc = init_message_queues" "ipc_caps demo_ipc = init_capability_system cap_boot"
  "ipc_policy demo_ipc = init_security_policy" "ipc_table demo_ipc = Some demo_table"
  "next_message_id demo_ipc = 1"
  by (simp_all add: demo_ipc_def init_ipc_system_def)

lemma demo_ipc_processes:
  "global_get_process (ipc_table demo_ipc) 1 \<noteq> None" "global_get_process (ipc_table demo_ipc) 2 \<noteq> None"
  by (simp_all add: demo_ipc_facts global_get_process_def demo_table_def create_process_def Let_def
      process_table_new_def with_process_mut_def get_process_def process_new_def set_state_def add_child_def)

lemma demo_ipc_waiting: "waiting demo_ipc p = []"
  by (simp add: waiting_def queue_of_def demo_ipc_facts init_message_queues_def queue_manager_new_def
      message_queue_new_def)

lemma demo_ipc_run: "ipc_run sh sc demo_ipc (\<lambda>_. []) (\<lambda>_. [])"
  by (rule ipc_run.start) (simp add: demo_ipc_facts)

lemma demo_ipc_caps: "cap_manager (ipc_caps demo_ipc) \<noteq> None"
  by (simp add: demo_ipc_facts init_capability_system_def)

lemma demo_ipc_sent:
  obtains st where "ipc_run 80 72 st ((\<lambda>_. [])(2 := [fst (message_new 1 1 2 ServiceRequest (DataText ''hi''))])) (\<lambda>_. [])"
proof -
  let ?m = "fst (message_new 1 1 2 ServiceRequest (DataText ''hi''))"
  let ?st = "demo_ipc\<lparr>ipc_caps := snd (create_secure_ipc_channel 1 2 (ipc_caps demo_ipc))\<rparr>"
  have m: "sender (header ?m) = 1" "receiver (header ?m) = 2" "total_size 80 72 ?m = 82"
    by (simp_all add: message_new_def generate_message_id_def total_size_def cs_size_def)
  have run: "ipc_run 80 72 ?st (\<lambda>_. []) (\<lambda>_. [])" by (rule ipc_run.other [OF demo_ipc_run]) simp
  have w: "waiting ?st = waiting demo_ipc" by (simp add: waiting_def fun_eq_iff)
  have p: "permits (ipc_caps ?st) (1, CapSendMessage, ResProcess 2)"
    using channel_rights [OF demo_ipc_caps, of 1 2] by (auto simp del: permits.simps)
  obtain st where "ipc_run 80 72 st ((\<lambda>_. [])(receiver (header ?m) := (\<lambda>_. []) (receiver (header ?m)) @ [?m])) (\<lambda>_. [])"
    by (rule send_to_empty [OF run, of ?m])
      (use w p in \<open>simp_all only: m demo_ipc_waiting demo_ipc_processes ipc_state.simps not_False_eq_True\<close>,
       use demo_ipc_processes in \<open>simp_all add: MAX_QUEUE_SIZE_BYTES_def\<close>)
  then show ?thesis using that m(2) by simp
qed

section \<open>Properties\<close>

text \<open>
  C6: sending a message decides on the sender, the receiver, the right to send, the queue
  system and the room in the receiver's queue, in this order, and this is the whole new state
  on each branch. Nothing changes where a process is missing. Otherwise the check is counted,
  as failed where the right is missing. A full queue counts the refusal. An accepted message
  stands behind the waiting messages of its priority and before those of the later ones, its
  size is added to the size of the queue, and it is counted. The queue is created where there
  was none. No other queue, no right, no process, no policy and no message number changes.
\<close>

theorem send_message_outcome:
  "let f = sender (header m); t = receiver (header m); q = queue_of (ipc_queues st) t;
       checked = \<lambda>refused. st\<lparr>ipc_caps := (ipc_caps st)\<lparr>cap_manager := map_option (\<lambda>cm. cm\<lparr>
           checks_performed := checks_performed cm + 1, checks_failed := checks_failed cm + refused\<rparr>)
         (cap_manager (ipc_caps st))\<rparr>\<rparr>
   in send_message sh sc st m =
     (if global_get_process (ipc_table st) f = None then (Err SenderNotFound, st)
      else if global_get_process (ipc_table st) t = None then (Err ReceiverNotFound, st)
      else if \<not> permits (ipc_caps st) (f, CapSendMessage, ResProcess t) then (Err MsgPermissionDenied, checked 1)
      else case ipc_queues st of
        None \<Rightarrow> (Err MsgResourceExhausted, checked 0)
      | Some qm \<Rightarrow>
          (let created = total_queues_created qm + (if queues qm t = None then 1 else 0) in
           if length (messages q) < max_messages q \<and> mq_total_size q + total_size sh sc m \<le> mq_max_size q
           then (Ok (), (checked 0)\<lparr>ipc_queues := Some (qm\<lparr>
               queues := (queues qm)(t \<mapsto> q\<lparr>
                 messages := takeWhile (\<lambda>x. prio_of x \<le> prio_of m) (messages q) @ m #
                   dropWhile (\<lambda>x. prio_of x \<le> prio_of m) (messages q),
                 mq_total_size := mq_total_size q + total_size sh sc m,
                 messages_received := messages_received q + 1\<rparr>),
               total_messages := total_messages qm + 1, total_queues_created := created\<rparr>)\<rparr>)
           else (Err QueueFull, (checked 0)\<lparr>ipc_queues := Some (qm\<lparr>
               queues := (queues qm)(t \<mapsto> q\<lparr>queue_full_count := queue_full_count q + 1\<rparr>),
               total_queues_created := created\<rparr>)\<rparr>)))
   \<and> permits (ipc_caps (snd (send_message sh sc st m))) = permits (ipc_caps st)
   \<and> (\<forall>p. waiting (snd (send_message sh sc st m)) p =
       (if fst (send_message sh sc st m) = Ok () \<and> p = t
        then takeWhile (\<lambda>x. prio_of x \<le> prio_of m) (waiting st p) @ m # dropWhile (\<lambda>x. prio_of x \<le> prio_of m) (waiting st p)
        else waiting st p))"
  (is "let f = _; t = _; q = _; checked = _ in ?eq f t q checked \<and> _")
proof -
  let ?t = "receiver (header m)" and ?q = "queue_of (ipc_queues st) (receiver (header m))"
  have acc: "can_accept_message sh sc ?q m \<longleftrightarrow>
      length (messages ?q) < max_messages ?q \<and> mq_total_size ?q + total_size sh sc m \<le> mq_max_size ?q"
    by (auto simp: can_accept_message_def Let_def)
  have eq: "let f = sender (header m); t = ?t; q = ?q; checked = \<lambda>refused. st\<lparr>ipc_caps := (ipc_caps st)\<lparr>cap_manager := map_option (\<lambda>cm. cm\<lparr>
           checks_performed := checks_performed cm + 1, checks_failed := checks_failed cm + refused\<rparr>)
         (cap_manager (ipc_caps st))\<rparr>\<rparr> in ?eq f t q checked"
  proof (cases "ipc_queues st")
    case None
    then show ?thesis
      by (simp add: send_message_def check_capability_counts enqueue_message_def Let_def del: permits.simps)
  next
    case (Some qm)
    show ?thesis
      using acc
      by (simp add: send_message_def check_capability_counts enqueue_message_def manager_enqueue_eq Some Let_def
          del: permits.simps)
  qed
  obtain st' where s: "send_message sh sc st m = (send_verdict sh sc st m, st')"
    "permits (ipc_caps st') = permits (ipc_caps st)"
    "\<And>p. waiting st' p =
       (if send_verdict sh sc st m = Ok () \<and> p = ?t
        then takeWhile (\<lambda>x. prio_of x \<le> prio_of m) (waiting st p) @ m # dropWhile (\<lambda>x. prio_of x \<le> prio_of m) (waiting st p)
        else waiting st p)"
    by (rule send_message_waiting [of sh sc st m]) (rule that)
  have "\<forall>p. waiting (snd (send_message sh sc st m)) p =
       (if fst (send_message sh sc st m) = Ok () \<and> p = ?t
        then takeWhile (\<lambda>x. prio_of x \<le> prio_of m) (waiting st p) @ m # dropWhile (\<lambda>x. prio_of x \<le> prio_of m) (waiting st p)
        else waiting st p)"
    "permits (ipc_caps (snd (send_message sh sc st m))) = permits (ipc_caps st)" using s by simp_all
  with eq show ?thesis unfolding Let_def by blast
qed

text \<open>
  C2: message passing is reliable and ordered. In every run of the system, whoever sends and
  receives and whatever happens to processes and rights in between, the messages of each
  priority accepted for a process are those it received followed by those waiting for it, in
  the order they were sent; and no process has more waiting than its queue may hold.
\<close>

theorem ipc_delivery:
  assumes "ipc_run sh sc st acc got"
  shows "filter (\<lambda>m. prio_of m = k) (acc p) =
      filter (\<lambda>m. prio_of m = k) (got p) @ filter (\<lambda>m. prio_of m = k) (waiting st p)
    \<and> length (waiting st p) \<le> MAX_MESSAGES_PER_QUEUE"
proof -
  have "mq_trace sh sc p (queue_of (ipc_queues st) p) (acc p) (got p)" using ipc_run_trace [OF assms] by blast
  from trace_delivery(1,2) [OF this] show ?thesis by (simp add: waiting_def)
qed

theorem ipc_delivery_witness:
  "\<exists>st acc. ipc_run 80 72 st acc (\<lambda>_. []) \<and> acc 2 = [fst (message_new 1 1 2 ServiceRequest (DataText ''hi''))]
     \<and> filter (\<lambda>m. prio_of m = 128) (acc 2) = filter (\<lambda>m. prio_of m = 128) (waiting st 2)"
proof -
  define acc :: "process_id \<Rightarrow> message list"
    where "acc = (\<lambda>_. [])(2 := [fst (message_new 1 1 2 ServiceRequest (DataText ''hi''))])"
  obtain st where run: "ipc_run 80 72 st acc (\<lambda>_. [])" unfolding acc_def by (rule demo_ipc_sent)
  from ipc_delivery [OF run, of 128 2]
  have "filter (\<lambda>m. prio_of m = 128) (acc 2) = filter (\<lambda>m. prio_of m = 128) (waiting st 2)" by simp
  moreover have "acc 2 = [fst (message_new 1 1 2 ServiceRequest (DataText ''hi''))]" by (simp add: acc_def)
  ultimately show ?thesis using run by blast
qed

text \<open>
  C5: a request is answered. Over a secure channel between two processes with nothing waiting,
  a request is accepted, received by its addressee, and the reply to it is accepted and
  received by the one who asked, with the number of the request and the data of the reply.
\<close>

theorem request_reply:
  assumes run: "ipc_run sh sc st0 acc got" "waiting st0 a = []" "waiting st0 b = []"
    and exist: "global_get_process (ipc_table st0) a \<noteq> None" "global_get_process (ipc_table st0) b \<noteq> None"
    and caps: "cap_manager (ipc_caps st0) \<noteq> None"
    and small: "sh + message_data_size d \<le> MAX_QUEUE_SIZE_BYTES" "sh + message_data_size d' \<le> MAX_QUEUE_SIZE_BYTES"
    and request: "create_message (st0\<lparr>ipc_caps := snd (create_secure_ipc_channel a b (ipc_caps st0))\<rparr>) a b ty d = (m, st1)"
  shows "\<exists>st2 st3 st4 st5 x. send_message sh sc st1 m = (Ok (), st2)
    \<and> receive_message sh sc st2 b = (Ok m, st3)
    \<and> reply_message sh sc st3 m b d' = (Ok (), st4)
    \<and> receive_message sh sc st4 a = (Ok x, st5)
    \<and> data x = d' \<and> sender (header x) = b \<and> reply_to (header x) = Some (message_id_of (header m))"
proof -
  define g where "g = snd (create_secure_ipc_channel a b (ipc_caps st0))"
  have rights: "permits g (a, CapSendMessage, ResProcess b)" "permits g (b, CapSendMessage, ResProcess a)"
    using channel_rights [OF caps, of a b] unfolding g_def by auto
  have m: "header m = header (fst (message_new (next_message_id st0) a b ty d))" "total_size sh sc m = sh + message_data_size d"
    and st1: "st1 = st0\<lparr>ipc_caps := g, next_message_id := next_message_id st0 + 1\<rparr>"
    using request by (auto simp: create_message_def g_def message_new_def generate_message_id_def total_size_def cs_size_def)
  then have hm: "sender (header m) = a" "receiver (header m) = b"
    by (simp_all add: message_new_def generate_message_id_def)
  have run1: "ipc_run sh sc st1 acc got" using ipc_run.other [OF run(1)] by (simp add: st1)
  have w1: "waiting st1 = waiting st0" by (simp add: waiting_def st1 fun_eq_iff)
  define acc2 where "acc2 = acc(receiver (header m) := acc (receiver (header m)) @ [m])"
  obtain st2 where s2: "send_message sh sc st1 m = (Ok (), st2)" "ipc_run sh sc st2 acc2 got"
    "permits (ipc_caps st2) = permits (ipc_caps st1)" "ipc_table st2 = ipc_table st1"
    "waiting st2 = (waiting st1)(receiver (header m) := [m])"
    unfolding acc2_def by (rule send_to_empty [OF run1, of m])
      (use w1 run(3) m(2) small(1) exist rights(1) hm st1 in \<open>simp_all del: permits.simps\<close>)
  have "ipc_queues st2 \<noteq> None" using ipc_run_trace [OF s2(2)] by blast
  then obtain st3 where s3: "receive_message sh sc st2 b = (Ok m, st3)" "ipc_caps st3 = ipc_caps st2"
    "ipc_table st3 = ipc_table st2" "waiting st3 = (waiting st2)(b := [])"
    by (rule receive_message_waiting [of st2 b m "[]" sh sc]) (use s2(4,5) exist hm st1 in auto)
  have run3: "ipc_run sh sc st3 acc2 (got(b := got b @ [m]))" by (rule ipc_run.received [OF s2(2) s3(1)])
  obtain x n where x: "create_reply (next_message_id st3) m b d' = (x, n)" by fastforce
  then have hx: "sender (header x) = b" "receiver (header x) = a" "data x = d'" "total_size sh sc x = sh + message_data_size d'"
    "reply_to (header x) = Some (message_id_of (header m))"
    using hm by (auto simp: create_reply_def generate_message_id_def total_size_def cs_size_def)
  define st3' where "st3' = st3\<lparr>next_message_id := n\<rparr>"
  have run3': "ipc_run sh sc st3' acc2 (got(b := got b @ [m]))"
    using ipc_run.other [OF run3] by (simp add: st3'_def)
  have w3: "waiting st3' = waiting st3" by (simp add: waiting_def st3'_def fun_eq_iff)
  obtain st4 where s4: "send_message sh sc st3' x = (Ok (), st4)"
    "ipc_run sh sc st4 (acc2(receiver (header x) := acc2 (receiver (header x)) @ [x])) (got(b := got b @ [m]))"
    "ipc_table st4 = ipc_table st3'"
    "waiting st4 = (waiting st3')(receiver (header x) := [x])"
    by (rule send_to_empty [OF run3', of x])
      (use w3 w1 s3 s2 run(2) hx small(2) exist rights(2) hm in \<open>simp_all add: st3'_def st1 del: permits.simps\<close>)
  have "ipc_queues st4 \<noteq> None" using ipc_run_trace [OF s4(2)] by blast
  then obtain st5 where s5: "receive_message sh sc st4 a = (Ok x, st5)"
    by (rule receive_message_waiting [of st4 a x "[]" sh sc]) (use s4(3,4) s3(3) s2(4) st1 hx exist in \<open>auto simp: st3'_def\<close>)
  have "reply_message sh sc st3 m b d' = (Ok (), st4)"
    using x s4(1) by (simp add: reply_message_def st3'_def)
  with s2(1) s3(1) s5 hx show ?thesis by (intro exI conjI)
qed

theorem request_reply_witness:
  "\<exists>m st1 st2 st3 st4 st5 x.
     create_message (demo_ipc\<lparr>ipc_caps := snd (create_secure_ipc_channel 1 2 (ipc_caps demo_ipc))\<rparr>) 1 2 ServiceRequest (DataText ''hi'') = (m, st1)
     \<and> send_message 80 72 st1 m = (Ok (), st2) \<and> receive_message 80 72 st2 2 = (Ok m, st3)
     \<and> reply_message 80 72 st3 m 2 (DataText ''ok'') = (Ok (), st4)
     \<and> receive_message 80 72 st4 1 = (Ok x, st5) \<and> data x = DataText ''ok''"
proof -
  obtain m st1 where m: "create_message (demo_ipc\<lparr>ipc_caps := snd (create_secure_ipc_channel 1 2 (ipc_caps demo_ipc))\<rparr>) 1 2 ServiceRequest (DataText ''hi'') = (m, st1)"
    by fastforce
  have small: "80 + message_data_size (DataText ''hi'') \<le> MAX_QUEUE_SIZE_BYTES"
    "80 + message_data_size (DataText ''ok'') \<le> MAX_QUEUE_SIZE_BYTES"
    by (simp_all add: MAX_QUEUE_SIZE_BYTES_def)
  note reply = request_reply [OF demo_ipc_run demo_ipc_waiting demo_ipc_waiting demo_ipc_processes demo_ipc_caps small m,
      of 72]
  obtain st2 st3 st4 st5 x where "send_message 80 72 st1 m = (Ok (), st2)" "receive_message 80 72 st2 2 = (Ok m, st3)"
    "reply_message 80 72 st3 m 2 (DataText ''ok'') = (Ok (), st4)" "receive_message 80 72 st4 1 = (Ok x, st5)"
    "data x = DataText ''ok''" using reply by (elim exE conjE)
  with m show ?thesis by (intro exI conjI)
qed

text \<open>
  C11: a process that holds only the default rights of a user process cannot send a message to
  any process: its right to send names the system resource "services", which no message is
  ever checked against.
\<close>

theorem user_process_cannot_send:
  assumes "cap_manager (ipc_caps st) \<noteq> None" "\<not> permits (ipc_caps st) (p, CapSendMessage, ResProcess (receiver (header m)))"
    "global_get_process (ipc_table st) p \<noteq> None" "global_get_process (ipc_table st) (receiver (header m)) \<noteq> None"
    "sender (header m) = p"
  shows "\<exists>ids g. grant_user_process_capabilities init_security_policy p (ipc_caps st) = (Ok ids, g)
    \<and> fst (send_message sh sc (st\<lparr>ipc_caps := g\<rparr>) m) = Err MsgPermissionDenied"
proof -
  obtain ids g where g: "grant_user_process_capabilities init_security_policy p (ipc_caps st) = (Ok ids, g)"
    "\<forall>q t r. permits g (q, t, r) \<longleftrightarrow> permits (ipc_caps st) (q, t, r) \<or> q = p \<and>
         (t = CapReceiveMessage \<or> t = CapSendMessage \<and> r = ResSystem ''services''
          \<or> t = CapSystemCall \<and> r = ResSystem ''user_syscalls'')"
    using user_rights [OF assms(1), of p] by (elim exE conjE)
  obtain st' where "send_message sh sc (st\<lparr>ipc_caps := g\<rparr>) m = (send_verdict sh sc (st\<lparr>ipc_caps := g\<rparr>) m, st')"
    by (rule send_message_waiting) (rule that)
  moreover have "send_verdict sh sc (st\<lparr>ipc_caps := g\<rparr>) m = Err MsgPermissionDenied"
    using assms g(2) by (simp add: send_verdict_def Let_def del: permits.simps)
  ultimately show ?thesis using g(1) by auto
qed

theorem user_process_cannot_send_witness:
  "\<exists>ids g. grant_user_process_capabilities init_security_policy 2 (ipc_caps demo_ipc) = (Ok ids, g)
    \<and> fst (send_message 80 72 (demo_ipc\<lparr>ipc_caps := g\<rparr>) (fst (message_new 1 2 1 ServiceRequest (DataText ''hi'')))) = Err MsgPermissionDenied"
proof (rule user_process_cannot_send)
  show "\<not> permits (ipc_caps demo_ipc) (2, CapSendMessage,
      ResProcess (receiver (header (fst (message_new 1 2 1 ServiceRequest (DataText ''hi''))))))"
    unfolding demo_ipc_facts by (rule cap_start_rights)
qed (use demo_ipc_processes demo_ipc_caps in \<open>simp_all add: message_new_def generate_message_id_def\<close>)

end
