(* ===== verification/Syscall_Interface.thy ===== *)
theory Syscall_Interface
  imports Ipc
begin

text \<open>
  The interface of the system calls, from \<^verbatim>\<open>syscall/numbers.rs\<close>, \<^verbatim>\<open>syscall/error.rs\<close> and
  \<^verbatim>\<open>syscall/validation.rs\<close>: their numbers and names, the errors and their errno values, and
  the validation of the arguments. What the sources compile only in debug builds is under the
  flag \<open>debug\<close>.
\<close>

section \<open>Numbers\<close>

definition SYS_EXIT :: u64 where "SYS_EXIT = 1"
definition SYS_FORK :: u64 where "SYS_FORK = 2"
definition SYS_EXEC :: u64 where "SYS_EXEC = 3"
definition SYS_WAIT :: u64 where "SYS_WAIT = 4"
definition SYS_GETPID :: u64 where "SYS_GETPID = 5"
definition SYS_GETPPID :: u64 where "SYS_GETPPID = 6"
definition SYS_KILL :: u64 where "SYS_KILL = 7"
definition SYS_MMAP :: u64 where "SYS_MMAP = 10"
definition SYS_MUNMAP :: u64 where "SYS_MUNMAP = 11"
definition SYS_MPROTECT :: u64 where "SYS_MPROTECT = 12"
definition SYS_BRK :: u64 where "SYS_BRK = 13"
definition SYS_SBRK :: u64 where "SYS_SBRK = 14"
definition SYS_OPEN :: u64 where "SYS_OPEN = 20"
definition SYS_CLOSE :: u64 where "SYS_CLOSE = 21"
definition SYS_READ :: u64 where "SYS_READ = 22"
definition SYS_WRITE :: u64 where "SYS_WRITE = 23"
definition SYS_LSEEK :: u64 where "SYS_LSEEK = 24"
definition SYS_STAT :: u64 where "SYS_STAT = 25"
definition SYS_FSTAT :: u64 where "SYS_FSTAT = 26"
definition SYS_MKDIR :: u64 where "SYS_MKDIR = 27"
definition SYS_RMDIR :: u64 where "SYS_RMDIR = 28"
definition SYS_UNLINK :: u64 where "SYS_UNLINK = 29"
definition SYS_SEND_MESSAGE :: u64 where "SYS_SEND_MESSAGE = 30"
definition SYS_RECEIVE_MESSAGE :: u64 where "SYS_RECEIVE_MESSAGE = 31"
definition SYS_REPLY_MESSAGE :: u64 where "SYS_REPLY_MESSAGE = 32"
definition SYS_CREATE_CHANNEL :: u64 where "SYS_CREATE_CHANNEL = 33"
definition SYS_DESTROY_CHANNEL :: u64 where "SYS_DESTROY_CHANNEL = 34"
definition SYS_DRIVER_REGISTER :: u64 where "SYS_DRIVER_REGISTER = 40"
definition SYS_DRIVER_UNREGISTER :: u64 where "SYS_DRIVER_UNREGISTER = 41"
definition SYS_DRIVER_REQUEST :: u64 where "SYS_DRIVER_REQUEST = 42"
definition SYS_DRIVER_RESPONSE :: u64 where "SYS_DRIVER_RESPONSE = 43"
definition SYS_UNAME :: u64 where "SYS_UNAME = 50"
definition SYS_SYSINFO :: u64 where "SYS_SYSINFO = 51"
definition SYS_TIME :: u64 where "SYS_TIME = 52"
definition SYS_CLOCK_GETTIME :: u64 where "SYS_CLOCK_GETTIME = 53"
definition SYS_GRANT_CAPABILITY :: u64 where "SYS_GRANT_CAPABILITY = 60"
definition SYS_REVOKE_CAPABILITY :: u64 where "SYS_REVOKE_CAPABILITY = 61"
definition SYS_CHECK_CAPABILITY :: u64 where "SYS_CHECK_CAPABILITY = 62"
definition SYS_LIST_CAPABILITIES :: u64 where "SYS_LIST_CAPABILITIES = 63"
definition SYS_DEBUG_PRINT :: u64 where "SYS_DEBUG_PRINT = 100"
definition SYS_DEBUG_DUMP :: u64 where "SYS_DEBUG_DUMP = 101"

definition MAX_SYSCALL_NUMBER :: "bool \<Rightarrow> u64" where
  "MAX_SYSCALL_NUMBER debug = (if debug then 101 else 63)"

definition is_valid_syscall_number :: "bool \<Rightarrow> u64 \<Rightarrow> bool" where
  "is_valid_syscall_number debug n \<longleftrightarrow> n > 0 \<and> n \<le> MAX_SYSCALL_NUMBER debug"

definition syscall_name :: "bool \<Rightarrow> u64 \<Rightarrow> string" where
  "syscall_name debug n =
     (if n = SYS_EXIT then ''exit''
      else if n = SYS_FORK then ''fork''
      else if n = SYS_EXEC then ''exec''
      else if n = SYS_WAIT then ''wait''
      else if n = SYS_GETPID then ''getpid''
      else if n = SYS_GETPPID then ''getppid''
      else if n = SYS_KILL then ''kill''
      else if n = SYS_MMAP then ''mmap''
      else if n = SYS_MUNMAP then ''munmap''
      else if n = SYS_MPROTECT then ''mprotect''
      else if n = SYS_BRK then ''brk''
      else if n = SYS_SBRK then ''sbrk''
      else if n = SYS_OPEN then ''open''
      else if n = SYS_CLOSE then ''close''
      else if n = SYS_READ then ''read''
      else if n = SYS_WRITE then ''write''
      else if n = SYS_LSEEK then ''lseek''
      else if n = SYS_STAT then ''stat''
      else if n = SYS_FSTAT then ''fstat''
      else if n = SYS_MKDIR then ''mkdir''
      else if n = SYS_RMDIR then ''rmdir''
      else if n = SYS_UNLINK then ''unlink''
      else if n = SYS_SEND_MESSAGE then ''send_message''
      else if n = SYS_RECEIVE_MESSAGE then ''receive_message''
      else if n = SYS_REPLY_MESSAGE then ''reply_message''
      else if n = SYS_CREATE_CHANNEL then ''create_channel''
      else if n = SYS_DESTROY_CHANNEL then ''destroy_channel''
      else if n = SYS_DRIVER_REGISTER then ''driver_register''
      else if n = SYS_DRIVER_UNREGISTER then ''driver_unregister''
      else if n = SYS_DRIVER_REQUEST then ''driver_request''
      else if n = SYS_DRIVER_RESPONSE then ''driver_response''
      else if n = SYS_UNAME then ''uname''
      else if n = SYS_SYSINFO then ''sysinfo''
      else if n = SYS_TIME then ''time''
      else if n = SYS_CLOCK_GETTIME then ''clock_gettime''
      else if n = SYS_GRANT_CAPABILITY then ''grant_capability''
      else if n = SYS_REVOKE_CAPABILITY then ''revoke_capability''
      else if n = SYS_CHECK_CAPABILITY then ''check_capability''
      else if n = SYS_LIST_CAPABILITIES then ''list_capabilities''
      else if debug \<and> n = SYS_DEBUG_PRINT then ''debug_print''
      else if debug \<and> n = SYS_DEBUG_DUMP then ''debug_dump''
      else ''unknown'')"

section \<open>Errors\<close>

datatype syscall_error =
  InvalidSyscall
| InvalidArgument
| SysPermissionDenied
| NotFound
| SysProcessNotFound
| AlreadyExists
| NotSupported
| SysOutOfMemory
| WouldBlock
| Interrupted
| BadFileDescriptor
| BrokenPipe
| AddressInUse
| ConnectionRefused
| TimedOut
| SysResourceExhausted
| InternalError

type_synonym syscall_result = "(u64, syscall_error) result"

fun to_errno :: "syscall_error \<Rightarrow> i32" where
  "to_errno InvalidSyscall = - 1"
| "to_errno InvalidArgument = - 22"
| "to_errno SysPermissionDenied = - 13"
| "to_errno NotFound = - 2"
| "to_errno SysProcessNotFound = - 3"
| "to_errno AlreadyExists = - 17"
| "to_errno NotSupported = - 95"
| "to_errno SysOutOfMemory = - 12"
| "to_errno WouldBlock = - 11"
| "to_errno Interrupted = - 4"
| "to_errno BadFileDescriptor = - 9"
| "to_errno BrokenPipe = - 32"
| "to_errno AddressInUse = - 98"
| "to_errno ConnectionRefused = - 111"
| "to_errno TimedOut = - 110"
| "to_errno SysResourceExhausted = - 105"
| "to_errno InternalError = - 5"

fun error_description :: "syscall_error \<Rightarrow> string" where
  "error_description InvalidSyscall = ''Invalid system call number''"
| "error_description InvalidArgument = ''Invalid argument''"
| "error_description SysPermissionDenied = ''Permission denied''"
| "error_description NotFound = ''Resource not found''"
| "error_description SysProcessNotFound = ''Process not found''"
| "error_description AlreadyExists = ''Resource already exists''"
| "error_description NotSupported = ''Operation not supported''"
| "error_description SysOutOfMemory = ''Out of memory''"
| "error_description WouldBlock = ''Resource temporarily unavailable''"
| "error_description Interrupted = ''Operation interrupted''"
| "error_description BadFileDescriptor = ''Bad file descriptor''"
| "error_description BrokenPipe = ''Broken pipe''"
| "error_description AddressInUse = ''Address already in use''"
| "error_description ConnectionRefused = ''Connection refused''"
| "error_description TimedOut = ''Operation timed out''"
| "error_description SysResourceExhausted = ''System resource exhausted''"
| "error_description InternalError = ''Internal kernel error''"

fun from_message_error :: "message_error \<Rightarrow> syscall_error" where
  "from_message_error InvalidMessage = InvalidArgument"
| "from_message_error SenderNotFound = NotFound"
| "from_message_error ReceiverNotFound = NotFound"
| "from_message_error QueueFull = SysResourceExhausted"
| "from_message_error NoMessage = WouldBlock"
| "from_message_error MsgPermissionDenied = SysPermissionDenied"
| "from_message_error MessageTooLarge = InvalidArgument"
| "from_message_error Timeout = TimedOut"
| "from_message_error MsgResourceExhausted = SysResourceExhausted"

fun from_process_error :: "process_error \<Rightarrow> syscall_error" where
  "from_process_error ProcessNotFound = NotFound"
| "from_process_error ProcessTableFull = SysResourceExhausted"
| "from_process_error InvalidStateTransition = InvalidArgument"
| "from_process_error ProcessTerminated = InvalidArgument"
| "from_process_error OutOfMemory = SysOutOfMemory"
| "from_process_error InvalidPid = InvalidArgument"

section \<open>Validation of arguments\<close>

record syscall_args =
  arg0 :: u64
  arg1 :: u64
  arg2 :: u64
  arg3 :: u64
  arg4 :: u64
  arg5 :: u64

type_synonym validation = "(unit, syscall_error) result"

definition validate_user_pointer :: "process_id \<Rightarrow> u64 \<Rightarrow> usize \<Rightarrow> validation" where
  "validate_user_pointer p ptr sz = (if ptr = 0 then Err InvalidArgument else Ok ())"

definition validate_user_string :: "process_id \<Rightarrow> u64 \<Rightarrow> usize \<Rightarrow> validation" where
  "validate_user_string p ptr max_len = (if ptr = 0 then Err InvalidArgument else Ok ())"

definition validate_file_descriptor :: "u64 \<Rightarrow> validation" where
  "validate_file_descriptor fd = (if fd > 1024 then Err BadFileDescriptor else Ok ())"

definition validate_exit_args :: "syscall_args \<Rightarrow> validation" where
  "validate_exit_args a = Ok ()"

definition validate_fork_args :: "syscall_args \<Rightarrow> validation" where
  "validate_fork_args a = Ok ()"

definition validate_exec_args :: "process_id \<Rightarrow> syscall_args \<Rightarrow> validation" where
  "validate_exec_args p a = try_unit (validate_user_string p (arg0 a) 4096)
     (try_unit (if arg1 a \<noteq> 0 then validate_user_pointer p (arg1 a) 8 else Ok ())
       (if arg2 a \<noteq> 0 then validate_user_pointer p (arg2 a) 8 else Ok ()))"

definition validate_wait_args :: "syscall_args \<Rightarrow> validation" where
  "validate_wait_args a = Ok ()"

definition validate_no_args :: "syscall_args \<Rightarrow> validation" where
  "validate_no_args a = Ok ()"

definition validate_kill_args :: "syscall_args \<Rightarrow> validation" where
  "validate_kill_args a = (if arg0 a = 0 then Err InvalidArgument else if arg1 a > 64 then Err InvalidArgument else Ok ())"

definition validate_mmap_args :: "syscall_args \<Rightarrow> validation" where
  "validate_mmap_args a = (if arg1 a = 0 then Err InvalidArgument
      else if arg2 a > 7 then Err InvalidArgument
      else if arg3 a AND 1 = 0 \<and> arg4 a \<noteq> - 1 then validate_file_descriptor (arg4 a)
      else Ok ())"

definition validate_munmap_args :: "syscall_args \<Rightarrow> validation" where
  "validate_munmap_args a = (if arg0 a = 0 \<or> arg1 a = 0 then Err InvalidArgument else Ok ())"

definition validate_mprotect_args :: "syscall_args \<Rightarrow> validation" where
  "validate_mprotect_args a = (if arg0 a = 0 \<or> arg1 a = 0 then Err InvalidArgument else if arg2 a > 7 then Err InvalidArgument else Ok ())"

definition validate_brk_args :: "syscall_args \<Rightarrow> validation" where
  "validate_brk_args a = Ok ()"

definition validate_open_args :: "process_id \<Rightarrow> syscall_args \<Rightarrow> validation" where
  "validate_open_args p a = try_unit (validate_user_string p (arg0 a) 4096) (if arg1 a > 0xFFFF then Err InvalidArgument else Ok ())"

definition validate_close_args :: "syscall_args \<Rightarrow> validation" where
  "validate_close_args a = validate_file_descriptor (arg0 a)"

definition validate_read_args :: "process_id \<Rightarrow> syscall_args \<Rightarrow> validation" where
  "validate_read_args p a = try_unit (validate_file_descriptor (arg0 a))
     (if arg2 a > 0 then validate_user_pointer p (arg1 a) (arg2 a) else Ok ())"

definition validate_write_args :: "process_id \<Rightarrow> syscall_args \<Rightarrow> validation" where
  "validate_write_args p a = try_unit (validate_file_descriptor (arg0 a))
     (if arg2 a > 0 then validate_user_pointer p (arg1 a) (arg2 a) else Ok ())"

definition validate_lseek_args :: "syscall_args \<Rightarrow> validation" where
  "validate_lseek_args a = try_unit (validate_file_descriptor (arg0 a)) (if arg2 a > 2 then Err InvalidArgument else Ok ())"

definition validate_stat_args :: "process_id \<Rightarrow> syscall_args \<Rightarrow> validation" where
  "validate_stat_args p a = validate_user_pointer p (arg1 a) 144"

definition validate_mkdir_args :: "process_id \<Rightarrow> syscall_args \<Rightarrow> validation" where
  "validate_mkdir_args p a = validate_user_string p (arg0 a) 4096"

definition validate_unlink_args :: "process_id \<Rightarrow> syscall_args \<Rightarrow> validation" where
  "validate_unlink_args p a = validate_user_string p (arg0 a) 4096"

definition validate_send_message_args :: "process_id \<Rightarrow> syscall_args \<Rightarrow> validation" where
  "validate_send_message_args p a = (if arg0 a = 0 then Err InvalidArgument
      else if arg2 a > 0 then validate_user_pointer p (arg1 a) (arg2 a) else Ok ())"

definition validate_receive_message_args :: "syscall_args \<Rightarrow> validation" where
  "validate_receive_message_args a = Ok ()"

definition validate_reply_message_args :: "process_id \<Rightarrow> syscall_args \<Rightarrow> validation" where
  "validate_reply_message_args p a = (if arg0 a = 0 then Err InvalidArgument
      else if arg2 a > 0 then validate_user_pointer p (arg1 a) (arg2 a) else Ok ())"

definition validate_create_channel_args :: "syscall_args \<Rightarrow> validation" where
  "validate_create_channel_args a = (if arg0 a = 0 then Err InvalidArgument else Ok ())"

definition validate_destroy_channel_args :: "syscall_args \<Rightarrow> validation" where
  "validate_destroy_channel_args a = (if arg0 a = 0 then Err InvalidArgument else Ok ())"

definition validate_driver_register_args :: "process_id \<Rightarrow> syscall_args \<Rightarrow> validation" where
  "validate_driver_register_args p a = validate_user_pointer p (arg0 a) 64"

definition validate_driver_unregister_args :: "process_id \<Rightarrow> syscall_args \<Rightarrow> validation" where
  "validate_driver_unregister_args p a = (if arg0 a = 0 then Err InvalidArgument else Ok ())"

definition validate_driver_request_args :: "process_id \<Rightarrow> syscall_args \<Rightarrow> validation" where
  "validate_driver_request_args p a = (if arg0 a = 0 then Err InvalidArgument
      else if arg2 a > 0 then validate_user_pointer p (arg1 a) (arg2 a) else Ok ())"

definition validate_driver_response_args :: "process_id \<Rightarrow> syscall_args \<Rightarrow> validation" where
  "validate_driver_response_args p a = (if arg0 a = 0 then Err InvalidArgument
      else if arg2 a > 0 then validate_user_pointer p (arg1 a) (arg2 a) else Ok ())"

definition validate_info_args :: "syscall_args \<Rightarrow> validation" where
  "validate_info_args a = Ok ()"

definition validate_clock_gettime_args :: "syscall_args \<Rightarrow> validation" where
  "validate_clock_gettime_args a = (if arg0 a > 10 then Err InvalidArgument else Ok ())"

definition validate_grant_capability_args :: "process_id \<Rightarrow> syscall_args \<Rightarrow> validation" where
  "validate_grant_capability_args p a = (if arg0 a = 0 then Err InvalidArgument
      else if arg2 a \<noteq> 0 then validate_user_pointer p (arg2 a) 64 else Ok ())"

definition validate_revoke_capability_args :: "process_id \<Rightarrow> syscall_args \<Rightarrow> validation" where
  "validate_revoke_capability_args p a = (if arg0 a = 0 \<or> arg1 a = 0 then Err InvalidArgument else Ok ())"

definition validate_check_capability_args :: "process_id \<Rightarrow> syscall_args \<Rightarrow> validation" where
  "validate_check_capability_args p a = (if arg1 a \<noteq> 0 then validate_user_pointer p (arg1 a) 64 else Ok ())"

definition validate_list_capabilities_args :: "syscall_args \<Rightarrow> validation" where
  "validate_list_capabilities_args a = Ok ()"

definition validate_debug_print_args :: "syscall_args \<Rightarrow> validation" where
  "validate_debug_print_args a = Ok ()"

definition validate_debug_dump_args :: "syscall_args \<Rightarrow> validation" where
  "validate_debug_dump_args a = Ok ()"

definition validate_syscall_args :: "bool \<Rightarrow> process_id \<Rightarrow> u64 \<Rightarrow> syscall_args \<Rightarrow> validation" where
  "validate_syscall_args debug p n a =
     (if \<not> is_valid_syscall_number debug n then Err InvalidSyscall
      else if n = SYS_EXIT then validate_exit_args a
      else if n = SYS_FORK then validate_fork_args a
      else if n = SYS_EXEC then validate_exec_args p a
      else if n = SYS_WAIT then validate_wait_args a
      else if n = SYS_GETPID \<or> n = SYS_GETPPID then validate_no_args a
      else if n = SYS_KILL then validate_kill_args a
      else if n = SYS_MMAP then validate_mmap_args a
      else if n = SYS_MUNMAP then validate_munmap_args a
      else if n = SYS_MPROTECT then validate_mprotect_args a
      else if n = SYS_BRK \<or> n = SYS_SBRK then validate_brk_args a
      else if n = SYS_OPEN then validate_open_args p a
      else if n = SYS_CLOSE then validate_close_args a
      else if n = SYS_READ then validate_read_args p a
      else if n = SYS_WRITE then validate_write_args p a
      else if n = SYS_LSEEK then validate_lseek_args a
      else if n = SYS_STAT \<or> n = SYS_FSTAT then validate_stat_args p a
      else if n = SYS_MKDIR then validate_mkdir_args p a
      else if n = SYS_RMDIR \<or> n = SYS_UNLINK then validate_unlink_args p a
      else if n = SYS_SEND_MESSAGE then validate_send_message_args p a
      else if n = SYS_RECEIVE_MESSAGE then validate_receive_message_args a
      else if n = SYS_REPLY_MESSAGE then validate_reply_message_args p a
      else if n = SYS_CREATE_CHANNEL then validate_create_channel_args a
      else if n = SYS_DESTROY_CHANNEL then validate_destroy_channel_args a
      else if n = SYS_DRIVER_REGISTER then validate_driver_register_args p a
      else if n = SYS_DRIVER_UNREGISTER then validate_driver_unregister_args p a
      else if n = SYS_DRIVER_REQUEST then validate_driver_request_args p a
      else if n = SYS_DRIVER_RESPONSE then validate_driver_response_args p a
      else if n = SYS_UNAME \<or> n = SYS_SYSINFO \<or> n = SYS_TIME then validate_info_args a
      else if n = SYS_CLOCK_GETTIME then validate_clock_gettime_args a
      else if n = SYS_GRANT_CAPABILITY then validate_grant_capability_args p a
      else if n = SYS_REVOKE_CAPABILITY then validate_revoke_capability_args p a
      else if n = SYS_CHECK_CAPABILITY then validate_check_capability_args p a
      else if n = SYS_LIST_CAPABILITIES then validate_list_capabilities_args a
      else if debug \<and> n = SYS_DEBUG_PRINT then validate_debug_print_args a
      else if debug \<and> n = SYS_DEBUG_DUMP then validate_debug_dump_args a
      else Err InvalidSyscall)"

definition known_syscall :: "bool \<Rightarrow> u64 \<Rightarrow> bool" where
  "known_syscall debug n \<longleftrightarrow> n \<in> {1, 2, 3, 4, 5, 6, 7, 10, 11, 12, 13, 14, 20, 21, 22, 23, 24, 25, 26, 27, 28, 29,
     30, 31, 32, 33, 34, 40, 41, 42, 43, 50, 51, 52, 53, 60, 61, 62, 63} \<or> debug \<and> n \<in> {100, 101}"

section \<open>The known calls\<close>

lemmas syscall_numbers =
  SYS_EXIT_def SYS_FORK_def SYS_EXEC_def SYS_WAIT_def SYS_GETPID_def SYS_GETPPID_def SYS_KILL_def
  SYS_MMAP_def SYS_MUNMAP_def SYS_MPROTECT_def SYS_BRK_def SYS_SBRK_def SYS_OPEN_def SYS_CLOSE_def
  SYS_READ_def SYS_WRITE_def SYS_LSEEK_def SYS_STAT_def SYS_FSTAT_def SYS_MKDIR_def SYS_RMDIR_def
  SYS_UNLINK_def SYS_SEND_MESSAGE_def SYS_RECEIVE_MESSAGE_def SYS_REPLY_MESSAGE_def
  SYS_CREATE_CHANNEL_def SYS_DESTROY_CHANNEL_def SYS_DRIVER_REGISTER_def SYS_DRIVER_UNREGISTER_def
  SYS_DRIVER_REQUEST_def SYS_DRIVER_RESPONSE_def SYS_UNAME_def SYS_SYSINFO_def SYS_TIME_def
  SYS_CLOCK_GETTIME_def SYS_GRANT_CAPABILITY_def SYS_REVOKE_CAPABILITY_def SYS_CHECK_CAPABILITY_def
  SYS_LIST_CAPABILITIES_def SYS_DEBUG_PRINT_def SYS_DEBUG_DUMP_def

lemma syscall_name_known: "syscall_name debug n = ''unknown'' \<longleftrightarrow> \<not> known_syscall debug n"
proof (cases "known_syscall debug n")
  case True
  then show ?thesis by (auto simp: syscall_name_def known_syscall_def syscall_numbers)
next
  case False
  then show ?thesis by (auto simp: syscall_name_def known_syscall_def syscall_numbers)
qed

lemma known_valid: "known_syscall debug n \<Longrightarrow> is_valid_syscall_number debug n"
  by (auto simp: known_syscall_def is_valid_syscall_number_def MAX_SYSCALL_NUMBER_def)

lemmas validator_defs =
  validate_exit_args_def validate_fork_args_def validate_exec_args_def validate_wait_args_def
  validate_no_args_def validate_kill_args_def validate_mmap_args_def validate_munmap_args_def
  validate_mprotect_args_def validate_brk_args_def validate_open_args_def validate_close_args_def
  validate_read_args_def validate_write_args_def validate_lseek_args_def validate_stat_args_def
  validate_mkdir_args_def validate_unlink_args_def validate_send_message_args_def
  validate_receive_message_args_def validate_reply_message_args_def validate_create_channel_args_def
  validate_destroy_channel_args_def validate_driver_register_args_def
  validate_driver_unregister_args_def validate_driver_request_args_def
  validate_driver_response_args_def validate_info_args_def validate_clock_gettime_args_def
  validate_grant_capability_args_def validate_revoke_capability_args_def
  validate_check_capability_args_def validate_list_capabilities_args_def
  validate_debug_print_args_def validate_debug_dump_args_def validate_user_pointer_def
  validate_user_string_def validate_file_descriptor_def

lemma validators_not_invalid_syscall [simp]:
  "validate_exit_args a \<noteq> Err InvalidSyscall"
  "validate_fork_args a \<noteq> Err InvalidSyscall"
  "validate_exec_args p a \<noteq> Err InvalidSyscall"
  "validate_wait_args a \<noteq> Err InvalidSyscall"
  "validate_no_args a \<noteq> Err InvalidSyscall"
  "validate_kill_args a \<noteq> Err InvalidSyscall"
  "validate_mmap_args a \<noteq> Err InvalidSyscall"
  "validate_munmap_args a \<noteq> Err InvalidSyscall"
  "validate_mprotect_args a \<noteq> Err InvalidSyscall"
  "validate_brk_args a \<noteq> Err InvalidSyscall"
  "validate_open_args p a \<noteq> Err InvalidSyscall"
  "validate_close_args a \<noteq> Err InvalidSyscall"
  "validate_read_args p a \<noteq> Err InvalidSyscall"
  "validate_write_args p a \<noteq> Err InvalidSyscall"
  "validate_lseek_args a \<noteq> Err InvalidSyscall"
  "validate_stat_args p a \<noteq> Err InvalidSyscall"
  "validate_mkdir_args p a \<noteq> Err InvalidSyscall"
  "validate_unlink_args p a \<noteq> Err InvalidSyscall"
  "validate_send_message_args p a \<noteq> Err InvalidSyscall"
  "validate_receive_message_args a \<noteq> Err InvalidSyscall"
  "validate_reply_message_args p a \<noteq> Err InvalidSyscall"
  "validate_create_channel_args a \<noteq> Err InvalidSyscall"
  "validate_destroy_channel_args a \<noteq> Err InvalidSyscall"
  "validate_driver_register_args p a \<noteq> Err InvalidSyscall"
  "validate_driver_unregister_args p a \<noteq> Err InvalidSyscall"
  "validate_driver_request_args p a \<noteq> Err InvalidSyscall"
  "validate_driver_response_args p a \<noteq> Err InvalidSyscall"
  "validate_info_args a \<noteq> Err InvalidSyscall"
  "validate_clock_gettime_args a \<noteq> Err InvalidSyscall"
  "validate_grant_capability_args p a \<noteq> Err InvalidSyscall"
  "validate_revoke_capability_args p a \<noteq> Err InvalidSyscall"
  "validate_check_capability_args p a \<noteq> Err InvalidSyscall"
  "validate_list_capabilities_args a \<noteq> Err InvalidSyscall"
  "validate_debug_print_args a \<noteq> Err InvalidSyscall"
  "validate_debug_dump_args a \<noteq> Err InvalidSyscall"
  by (simp_all add: validator_defs try_unit_Err_iff)

lemma validate_known: "validate_syscall_args debug p n a = Err InvalidSyscall \<longleftrightarrow> \<not> known_syscall debug n"
proof (cases "known_syscall debug n")
  case True
  then show ?thesis
    using known_valid [OF True] by (auto simp: validate_syscall_args_def known_syscall_def syscall_numbers)
next
  case False
  then show ?thesis by (auto simp: validate_syscall_args_def known_syscall_def syscall_numbers)
qed

end
