(* ===== verification/Syscalls.thy ===== *)
theory Syscalls
  imports Syscall_Interface
begin

text \<open>
  The dispatcher of the system calls, from \<^verbatim>\<open>syscall/dispatcher.rs\<close>, and the entry point of
  \<^verbatim>\<open>syscall/mod.rs\<close>. Most handlers answer that the call is not supported; creating a process
  and passing messages act on the process table, the capabilities and the queues.
\<close>

section \<open>Handlers\<close>

definition sys_exit :: "process_id \<Rightarrow> syscall_args \<Rightarrow> syscall_result" where
  "sys_exit p a = Ok 0"

definition sys_fork :: "ipc_state \<Rightarrow> process_id \<Rightarrow> syscall_args \<Rightarrow> syscall_result \<times> ipc_state" where
  "sys_fork st p a =
     (case global_create_process (ipc_table st) (Some p) (''child_of_'' @ show_dec (unat p)) Normal of
        (Ok child, t) \<Rightarrow> (Ok (ucast child), st\<lparr>ipc_table := t\<rparr>)
      | (Err _, t) \<Rightarrow> (Err SysOutOfMemory, st\<lparr>ipc_table := t\<rparr>))"

definition sys_exec :: "process_id \<Rightarrow> syscall_args \<Rightarrow> syscall_result" where
  "sys_exec p a = Err NotSupported"

definition sys_wait :: "process_id \<Rightarrow> syscall_args \<Rightarrow> syscall_result" where
  "sys_wait p a = Err NotSupported"

definition sys_getpid :: "process_id \<Rightarrow> syscall_args \<Rightarrow> syscall_result" where
  "sys_getpid p a = Ok (ucast p)"

definition sys_getppid :: "process_id \<Rightarrow> syscall_args \<Rightarrow> syscall_result" where
  "sys_getppid p a = Ok 0"

definition sys_kill :: "process_id \<Rightarrow> syscall_args \<Rightarrow> syscall_result" where
  "sys_kill p a = Err NotSupported"

definition sys_mmap :: "process_id \<Rightarrow> syscall_args \<Rightarrow> syscall_result" where
  "sys_mmap p a = (if arg1 a = 0 then Err InvalidArgument else Ok (if arg0 a = 0 then 0x40000000 else arg0 a))"

definition sys_munmap :: "process_id \<Rightarrow> syscall_args \<Rightarrow> syscall_result" where
  "sys_munmap p a = Err NotSupported"

definition sys_mprotect :: "process_id \<Rightarrow> syscall_args \<Rightarrow> syscall_result" where
  "sys_mprotect p a = Err NotSupported"

definition sys_brk :: "process_id \<Rightarrow> syscall_args \<Rightarrow> syscall_result" where
  "sys_brk p a = Err NotSupported"

definition sys_sbrk :: "process_id \<Rightarrow> syscall_args \<Rightarrow> syscall_result" where
  "sys_sbrk p a = Err NotSupported"

definition sys_open :: "process_id \<Rightarrow> syscall_args \<Rightarrow> syscall_result" where
  "sys_open p a = (if arg1 a = 0 \<or> arg1 a = 1 \<or> arg1 a = 2 then Ok 3 else Err InvalidArgument)"

definition sys_close :: "process_id \<Rightarrow> syscall_args \<Rightarrow> syscall_result" where
  "sys_close p a = Err NotSupported"

definition sys_read :: "process_id \<Rightarrow> syscall_args \<Rightarrow> syscall_result" where
  "sys_read p a = (if arg0 a = 0 then Ok 0 else if arg2 a = 0 then Ok 0 else Ok (min (arg2 a) 1024))"

definition sys_write :: "process_id \<Rightarrow> syscall_args \<Rightarrow> syscall_result" where
  "sys_write p a = (if arg0 a = 1 \<or> arg0 a = 2 then Ok (arg2 a) else Err NotSupported)"

definition sys_lseek :: "process_id \<Rightarrow> syscall_args \<Rightarrow> syscall_result" where
  "sys_lseek p a = Err NotSupported"

definition sys_stat :: "process_id \<Rightarrow> syscall_args \<Rightarrow> syscall_result" where
  "sys_stat p a = Err NotSupported"

definition sys_fstat :: "process_id \<Rightarrow> syscall_args \<Rightarrow> syscall_result" where
  "sys_fstat p a = Err NotSupported"

definition sys_mkdir :: "process_id \<Rightarrow> syscall_args \<Rightarrow> syscall_result" where
  "sys_mkdir p a = Err NotSupported"

definition sys_rmdir :: "process_id \<Rightarrow> syscall_args \<Rightarrow> syscall_result" where
  "sys_rmdir p a = Err NotSupported"

definition sys_unlink :: "process_id \<Rightarrow> syscall_args \<Rightarrow> syscall_result" where
  "sys_unlink p a = Err NotSupported"

definition sys_send_message ::
    "usize \<Rightarrow> usize \<Rightarrow> ipc_state \<Rightarrow> process_id \<Rightarrow> syscall_args \<Rightarrow> syscall_result \<times> ipc_state" where
  "sys_send_message sh sc st p a =
     (if arg2 a > 4096 then (Err InvalidArgument, st)
      else let d = DataText (''Message from process '' @ show_dec (unat p) @ '' (len='' @ show_dec (unat (arg2 a)) @ '')'')
           in case create_message st p (ucast (arg0 a)) ServiceRequest d of (m, st1) \<Rightarrow>
             (case send_message sh sc st1 m of
                (Ok _, st2) \<Rightarrow> (Ok 0, st2)
              | (Err e, st2) \<Rightarrow> (Err (from_message_error e), st2)))"

definition sys_receive_message ::
    "usize \<Rightarrow> usize \<Rightarrow> ipc_state \<Rightarrow> process_id \<Rightarrow> syscall_args \<Rightarrow> syscall_result \<times> ipc_state" where
  "sys_receive_message sh sc st p a =
     (case receive_message sh sc st p of
        (Ok m, st') \<Rightarrow> (Ok (message_id_of (header m)), st')
      | (Err e, st') \<Rightarrow> (Err (from_message_error e), st'))"

definition sys_reply_message :: "process_id \<Rightarrow> syscall_args \<Rightarrow> syscall_result" where
  "sys_reply_message p a = Err NotSupported"

definition sys_create_channel :: "process_id \<Rightarrow> syscall_args \<Rightarrow> syscall_result" where
  "sys_create_channel p a = Err NotSupported"

definition sys_destroy_channel :: "process_id \<Rightarrow> syscall_args \<Rightarrow> syscall_result" where
  "sys_destroy_channel p a = Err NotSupported"

definition sys_driver_register :: "process_id \<Rightarrow> syscall_args \<Rightarrow> syscall_result" where
  "sys_driver_register p a = Err NotSupported"

definition sys_driver_unregister :: "process_id \<Rightarrow> syscall_args \<Rightarrow> syscall_result" where
  "sys_driver_unregister p a = Err NotSupported"

definition sys_driver_request :: "process_id \<Rightarrow> syscall_args \<Rightarrow> syscall_result" where
  "sys_driver_request p a = Err NotSupported"

definition sys_driver_response :: "process_id \<Rightarrow> syscall_args \<Rightarrow> syscall_result" where
  "sys_driver_response p a = Err NotSupported"

definition sys_uname :: "process_id \<Rightarrow> syscall_args \<Rightarrow> syscall_result" where
  "sys_uname p a = Err NotSupported"

definition sys_sysinfo :: "process_id \<Rightarrow> syscall_args \<Rightarrow> syscall_result" where
  "sys_sysinfo p a = Err NotSupported"

definition sys_time :: "process_id \<Rightarrow> syscall_args \<Rightarrow> syscall_result" where
  "sys_time p a = Ok 0"

definition sys_clock_gettime :: "process_id \<Rightarrow> syscall_args \<Rightarrow> syscall_result" where
  "sys_clock_gettime p a = Err NotSupported"

definition sys_grant_capability :: "process_id \<Rightarrow> syscall_args \<Rightarrow> syscall_result" where
  "sys_grant_capability p a = Err NotSupported"

definition sys_revoke_capability :: "process_id \<Rightarrow> syscall_args \<Rightarrow> syscall_result" where
  "sys_revoke_capability p a = Err NotSupported"

definition sys_check_capability :: "process_id \<Rightarrow> syscall_args \<Rightarrow> syscall_result" where
  "sys_check_capability p a = Err NotSupported"

definition sys_list_capabilities :: "process_id \<Rightarrow> syscall_args \<Rightarrow> syscall_result" where
  "sys_list_capabilities p a = Err NotSupported"

definition sys_debug_print :: "process_id \<Rightarrow> syscall_args \<Rightarrow> syscall_result" where
  "sys_debug_print p a = Ok 0"

definition sys_debug_dump :: "process_id \<Rightarrow> syscall_args \<Rightarrow> syscall_result" where
  "sys_debug_dump p a = Ok 0"

section \<open>Dispatch\<close>

definition dispatch_handler ::
    "bool \<Rightarrow> usize \<Rightarrow> usize \<Rightarrow> process_id \<Rightarrow> u64 \<Rightarrow> syscall_args \<Rightarrow> ipc_state \<Rightarrow> syscall_result \<times> ipc_state" where
  "dispatch_handler debug sh sc p n a st =
     (if n = SYS_EXIT then (sys_exit p a, st)
      else if n = SYS_FORK then sys_fork st p a
      else if n = SYS_EXEC then (sys_exec p a, st)
      else if n = SYS_WAIT then (sys_wait p a, st)
      else if n = SYS_GETPID then (sys_getpid p a, st)
      else if n = SYS_GETPPID then (sys_getppid p a, st)
      else if n = SYS_KILL then (sys_kill p a, st)
      else if n = SYS_MMAP then (sys_mmap p a, st)
      else if n = SYS_MUNMAP then (sys_munmap p a, st)
      else if n = SYS_MPROTECT then (sys_mprotect p a, st)
      else if n = SYS_BRK then (sys_brk p a, st)
      else if n = SYS_SBRK then (sys_sbrk p a, st)
      else if n = SYS_OPEN then (sys_open p a, st)
      else if n = SYS_CLOSE then (sys_close p a, st)
      else if n = SYS_READ then (sys_read p a, st)
      else if n = SYS_WRITE then (sys_write p a, st)
      else if n = SYS_LSEEK then (sys_lseek p a, st)
      else if n = SYS_STAT then (sys_stat p a, st)
      else if n = SYS_FSTAT then (sys_fstat p a, st)
      else if n = SYS_MKDIR then (sys_mkdir p a, st)
      else if n = SYS_RMDIR then (sys_rmdir p a, st)
      else if n = SYS_UNLINK then (sys_unlink p a, st)
      else if n = SYS_SEND_MESSAGE then sys_send_message sh sc st p a
      else if n = SYS_RECEIVE_MESSAGE then sys_receive_message sh sc st p a
      else if n = SYS_REPLY_MESSAGE then (sys_reply_message p a, st)
      else if n = SYS_CREATE_CHANNEL then (sys_create_channel p a, st)
      else if n = SYS_DESTROY_CHANNEL then (sys_destroy_channel p a, st)
      else if n = SYS_DRIVER_REGISTER then (sys_driver_register p a, st)
      else if n = SYS_DRIVER_UNREGISTER then (sys_driver_unregister p a, st)
      else if n = SYS_DRIVER_REQUEST then (sys_driver_request p a, st)
      else if n = SYS_DRIVER_RESPONSE then (sys_driver_response p a, st)
      else if n = SYS_UNAME then (sys_uname p a, st)
      else if n = SYS_SYSINFO then (sys_sysinfo p a, st)
      else if n = SYS_TIME then (sys_time p a, st)
      else if n = SYS_CLOCK_GETTIME then (sys_clock_gettime p a, st)
      else if n = SYS_GRANT_CAPABILITY then (sys_grant_capability p a, st)
      else if n = SYS_REVOKE_CAPABILITY then (sys_revoke_capability p a, st)
      else if n = SYS_CHECK_CAPABILITY then (sys_check_capability p a, st)
      else if n = SYS_LIST_CAPABILITIES then (sys_list_capabilities p a, st)
      else if debug \<and> n = SYS_DEBUG_PRINT then (sys_debug_print p a, st)
      else if debug \<and> n = SYS_DEBUG_DUMP then (sys_debug_dump p a, st)
      else (Err InvalidSyscall, st))"

definition dispatch_syscall ::
    "bool \<Rightarrow> usize \<Rightarrow> usize \<Rightarrow> process_id \<Rightarrow> u64 \<Rightarrow> syscall_args \<Rightarrow> ipc_state \<Rightarrow> syscall_result \<times> ipc_state" where
  "dispatch_syscall debug sh sc p n a st =
     (case validate_syscall_args debug p n a of
        Err e \<Rightarrow> (Err e, st)
      | Ok _ \<Rightarrow> dispatch_handler debug sh sc p n a st)"

section \<open>Entry point\<close>

definition syscall_entry ::
    "bool \<Rightarrow> usize \<Rightarrow> usize \<Rightarrow> u64 \<Rightarrow> syscall_args \<Rightarrow> ipc_state \<Rightarrow> u64 \<times> ipc_state" where
  "syscall_entry debug sh sc n a st =
     (case dispatch_syscall debug sh sc 1 n a st of
        (Ok v, st') \<Rightarrow> (v, st')
      | (Err e, st') \<Rightarrow> (signed (to_errno e), st'))"

text \<open>
  Runs of the system: calls by any process, with anything else that does not touch the queues in
  between. The lists record, for each process, the numbers of the messages accepted for it by
  the sending call, and the numbers that its receiving calls returned.
\<close>

definition log_sent ::
    "u64 \<Rightarrow> syscall_args \<Rightarrow> ipc_state \<Rightarrow> syscall_result \<Rightarrow> (process_id \<Rightarrow> u64 list) \<Rightarrow> process_id \<Rightarrow> u64 list" where
  "log_sent n a st r acc =
     (if n = SYS_SEND_MESSAGE \<and> is_ok r
      then acc(ucast (arg0 a) := acc (ucast (arg0 a)) @ [next_message_id st]) else acc)"

definition log_received ::
    "process_id \<Rightarrow> u64 \<Rightarrow> syscall_result \<Rightarrow> (process_id \<Rightarrow> u64 list) \<Rightarrow> process_id \<Rightarrow> u64 list" where
  "log_received p n r got =
     (case r of Ok v \<Rightarrow> if n = SYS_RECEIVE_MESSAGE then got(p := got p @ [v]) else got | Err _ \<Rightarrow> got)"

inductive sys_run ::
    "bool \<Rightarrow> usize \<Rightarrow> usize \<Rightarrow> ipc_state \<Rightarrow> (process_id \<Rightarrow> u64 list) \<Rightarrow> (process_id \<Rightarrow> u64 list) \<Rightarrow> bool"
  for debug sh sc where
  boot: "ipc_queues st = init_message_queues \<Longrightarrow> sys_run debug sh sc st (\<lambda>_. []) (\<lambda>_. [])"
| call: "sys_run debug sh sc st acc got \<Longrightarrow> dispatch_syscall debug sh sc p n a st = (r, st') \<Longrightarrow>
     sys_run debug sh sc st' (log_sent n a st r acc) (log_received p n r got)"
| kernel: "sys_run debug sh sc st acc got \<Longrightarrow> ipc_queues st' = ipc_queues st \<Longrightarrow> sys_run debug sh sc st' acc got"

definition syscall_message :: "ipc_state \<Rightarrow> process_id \<Rightarrow> syscall_args \<Rightarrow> message" where
  "syscall_message st p a = fst (message_new (next_message_id st) p (ucast (arg0 a)) ServiceRequest
     (DataText (''Message from process '' @ show_dec (unat p) @ '' (len='' @ show_dec (unat (arg2 a)) @ '')'')))"

definition logs_match ::
    "(process_id \<Rightarrow> u64 list) \<Rightarrow> (process_id \<Rightarrow> u64 list) \<Rightarrow> (process_id \<Rightarrow> message list) \<Rightarrow> (process_id \<Rightarrow> message list) \<Rightarrow> bool" where
  "logs_match acc got A G \<longleftrightarrow> (\<forall>p. acc p = map (\<lambda>m. message_id_of (header m)) (A p))
    \<and> (\<forall>p. got p = map (\<lambda>m. message_id_of (header m)) (G p)) \<and> (\<forall>p. \<forall>m\<in>set (A p). prio_of m = 128)"

definition demo_args :: syscall_args where
  "demo_args = \<lparr>arg0 = 2, arg1 = 0, arg2 = 0, arg3 = 0, arg4 = 0, arg5 = 0\<rparr>"

definition demo_channel :: ipc_state where
  "demo_channel = demo_ipc\<lparr>ipc_caps := snd (create_secure_ipc_channel 1 2 (ipc_caps demo_ipc))\<rparr>"

lemmas handler_defs =
  sys_exit_def sys_exec_def sys_wait_def sys_getpid_def sys_getppid_def sys_kill_def sys_mmap_def
  sys_munmap_def sys_mprotect_def sys_brk_def sys_sbrk_def sys_open_def sys_close_def sys_read_def
  sys_write_def sys_lseek_def sys_stat_def sys_fstat_def sys_mkdir_def sys_rmdir_def sys_unlink_def
  sys_reply_message_def sys_create_channel_def sys_destroy_channel_def sys_driver_register_def
  sys_driver_unregister_def sys_driver_request_def sys_driver_response_def sys_uname_def
  sys_sysinfo_def sys_time_def sys_clock_gettime_def sys_grant_capability_def
  sys_revoke_capability_def sys_check_capability_def sys_list_capabilities_def sys_debug_print_def
  sys_debug_dump_def

section \<open>Runs of system calls\<close>

section \<open>Dispatch\<close>

lemma from_message_error_valid [simp]: "from_message_error e \<noteq> InvalidSyscall"
  by (cases e) auto

lemma handler_pure:
  assumes "n \<noteq> SYS_FORK" "n \<noteq> SYS_SEND_MESSAGE" "n \<noteq> SYS_RECEIVE_MESSAGE"
  shows "snd (dispatch_handler debug sh sc p n a st) = st"
  using assms by (simp add: dispatch_handler_def)

lemma handler_stateful:
  "dispatch_handler debug sh sc p SYS_FORK a st = sys_fork st p a"
  "dispatch_handler debug sh sc p SYS_SEND_MESSAGE a st = sys_send_message sh sc st p a"
  "dispatch_handler debug sh sc p SYS_RECEIVE_MESSAGE a st = sys_receive_message sh sc st p a"
  by (simp_all add: dispatch_handler_def syscall_numbers)

lemma handler_known: "fst (dispatch_handler debug sh sc p n a st) = Err InvalidSyscall \<longleftrightarrow> \<not> known_syscall debug n"
proof -
  have "fst (sys_fork st p a) \<noteq> Err InvalidSyscall"
    by (auto simp: sys_fork_def split: prod.splits result.splits)
  moreover have "fst (sys_send_message sh sc st p a) \<noteq> Err InvalidSyscall"
    by (auto simp: sys_send_message_def Let_def split: prod.splits result.splits)
  moreover have "fst (sys_receive_message sh sc st p a) \<noteq> Err InvalidSyscall"
    by (auto simp: sys_receive_message_def split: prod.splits result.splits)
  ultimately show ?thesis
    by (cases "known_syscall debug n")
      (auto simp: dispatch_handler_def known_syscall_def syscall_numbers handler_defs)
qed

lemma dispatch_frame:
  assumes "dispatch_syscall debug sh sc p n a st = (r, st')" "n \<noteq> SYS_FORK" "n \<noteq> SYS_SEND_MESSAGE" "n \<noteq> SYS_RECEIVE_MESSAGE"
  shows "st' = st"
  using assms handler_pure [OF assms(2-4), of debug sh sc p a st]
  by (auto simp: dispatch_syscall_def split: result.splits)

lemma dispatch_invalid:
  "validate_syscall_args debug p n a = Err e \<Longrightarrow> dispatch_syscall debug sh sc p n a st = (Err e, st)"
  by (simp add: dispatch_syscall_def)

lemma dispatch_fork: "dispatch_syscall debug sh sc p SYS_FORK a st = sys_fork st p a"
proof -
  have "validate_syscall_args debug p SYS_FORK a = Ok ()"
    by (simp add: validate_syscall_args_def validate_fork_args_def is_valid_syscall_number_def MAX_SYSCALL_NUMBER_def
        syscall_numbers)
  then show ?thesis by (simp add: dispatch_syscall_def handler_stateful)
qed

lemma dispatch_receive: "dispatch_syscall debug sh sc p SYS_RECEIVE_MESSAGE a st = sys_receive_message sh sc st p a"
proof -
  have "validate_syscall_args debug p SYS_RECEIVE_MESSAGE a = Ok ()"
    by (simp add: validate_syscall_args_def validate_receive_message_args_def is_valid_syscall_number_def
        MAX_SYSCALL_NUMBER_def syscall_numbers)
  then show ?thesis by (simp add: dispatch_syscall_def handler_stateful)
qed

lemma dispatch_send:
  "dispatch_syscall debug sh sc p SYS_SEND_MESSAGE a st =
     (if arg0 a = 0 \<or> arg2 a > 0 \<and> arg1 a = 0 then (Err InvalidArgument, st) else sys_send_message sh sc st p a)"
proof -
  have "validate_syscall_args debug p SYS_SEND_MESSAGE a =
      (if arg0 a = 0 \<or> arg2 a > 0 \<and> arg1 a = 0 then Err InvalidArgument else Ok ())"
    by (simp add: validate_syscall_args_def validate_send_message_args_def is_valid_syscall_number_def
        MAX_SYSCALL_NUMBER_def syscall_numbers validate_user_pointer_def)
  then show ?thesis by (simp add: dispatch_syscall_def handler_stateful)
qed

section \<open>Creating a process\<close>

lemma sys_fork_room:
  assumes "ipc_table st = Some t" "pt_wf t" "length (processes t) < max_processes t"
  obtains t' where "sys_fork st p a = (Ok (ucast (next_pid t)), st\<lparr>ipc_table := Some t'\<rparr>)" "pt_wf t'"
    "\<And>j. get_process t' j =
       (if j = next_pid t then Some (new_process t (Some p) (''child_of_'' @ show_dec (unat p)) Normal)
        else if p = j then map_option (add_child (next_pid t)) (get_process t j)
        else get_process t j)"
proof -
  have ok: "pids_ok t" using assms(2) by (simp add: pt_wf_def)
  obtain t' where t': "create_process t (Some p) (''child_of_'' @ show_dec (unat p)) Normal = (Ok (next_pid t), t')"
    "\<And>j. get_process t' j =
       (if j = next_pid t then Some (new_process t (Some p) (''child_of_'' @ show_dec (unat p)) Normal)
        else if Some p = Some j then map_option (add_child (next_pid t)) (get_process t j)
        else get_process t j)"
    by (rule create_process_Ok [OF ok assms(3)]) (rule that)
  have "pt_wf t'" by (rule create_process_wf [OF assms(2) t'(1)])
  then show ?thesis
    using that t' assms(1) by (simp add: sys_fork_def global_create_process_def)
qed

lemma sys_fork_full:
  assumes "ipc_table st = Some t" "\<not> length (processes t) < max_processes t"
  shows "sys_fork st p a = (Err SysOutOfMemory, st)"
  using assms by (simp add: sys_fork_def global_create_process_def create_process_full)

section \<open>Messages\<close>

lemma syscall_message_header [simp]:
  "sender (header (syscall_message st p a)) = p" "receiver (header (syscall_message st p a)) = ucast (arg0 a)"
  "message_id_of (header (syscall_message st p a)) = next_message_id st" "prio_of (syscall_message st p a) = 128"
  by (simp_all add: syscall_message_def message_new_def generate_message_id_def prio_of_def)

lemma syscall_message_fits:
  assumes "unat sh < 2 ^ 62" "arg2 a \<le> 4096"
  shows "msg_fits sh sc (syscall_message st p a)"
proof -
  let ?s = "''Message from process '' @ show_dec (unat p) @ '' (len='' @ show_dec (unat (arg2 a)) @ '')''"
  have "length (show_dec (unat p)) \<le> 2 ^ 32"
    using show_dec_length [of "unat p"] unsigned_less [of p, where ?'a = nat] by simp
  moreover have "length (show_dec (unat (arg2 a))) \<le> 4097"
    using show_dec_length [of "unat (arg2 a)"] assms(2) by (simp add: word_le_nat_alt)
  ultimately have len: "length ?s < 2 ^ 33" by simp
  have size: "total_size sh sc (syscall_message st p a) = sh + of_nat (length ?s)"
    by (simp add: syscall_message_def message_new_def generate_message_id_def total_size_def cs_size_def)
  have "unat (sh + of_nat (length ?s)) \<le> unat sh + length ?s" by (rule unat_add_of_nat_le)
  also have "\<dots> < 2 ^ 63" using len assms(1) by (simp del: length_append)
  finally show ?thesis unfolding msg_fits_def size .
qed

lemma sys_send_message_cases:
  obtains (too_long) "arg2 a > 4096" "sys_send_message sh sc st p a = (Err InvalidArgument, st)"
  | (accepted) st' where "arg2 a \<le> 4096"
      "send_message sh sc (st\<lparr>next_message_id := next_message_id st + 1\<rparr>) (syscall_message st p a) = (Ok (), st')"
      "sys_send_message sh sc st p a = (Ok 0, st')"
  | (refused) e st' where "arg2 a \<le> 4096"
      "send_message sh sc (st\<lparr>next_message_id := next_message_id st + 1\<rparr>) (syscall_message st p a) = (Err e, st')"
      "sys_send_message sh sc st p a = (Err (from_message_error e), st')"
proof (cases "arg2 a > 4096")
  case True
  then show ?thesis using too_long by (simp add: sys_send_message_def)
next
  case False
  obtain r st' where s: "send_message sh sc (st\<lparr>next_message_id := next_message_id st + 1\<rparr>) (syscall_message st p a) = (r, st')"
    by fastforce
  then have "sys_send_message sh sc st p a =
      ((case r of Ok _ \<Rightarrow> Ok 0 | Err e \<Rightarrow> Err (from_message_error e)), st')"
    using False by (auto simp: sys_send_message_def Let_def create_message_def syscall_message_def message_new_def
        generate_message_id_def split: result.splits)
  with s False show ?thesis using accepted refused by (cases r) auto
qed

lemma sys_receive_message_eq:
  assumes "receive_message sh sc st p = (r, st')"
  shows "sys_receive_message sh sc st p a =
     ((case r of Ok m \<Rightarrow> Ok (message_id_of (header m)) | Err e \<Rightarrow> Err (from_message_error e)), st')"
  using assms by (auto simp: sys_receive_message_def split: result.splits)

lemma send_call_run:
  assumes run: "ipc_run sh sc st A G" and logs: "logs_match acc got A G" and sh: "unat sh < 2 ^ 62"
    and call: "dispatch_syscall debug sh sc p SYS_SEND_MESSAGE a st = (r, st')"
  shows "\<exists>A G. ipc_run sh sc st' A G \<and>
    logs_match (log_sent SYS_SEND_MESSAGE a st r acc) (log_received p SYS_SEND_MESSAGE r got) A G"
proof (cases "arg0 a = 0 \<or> arg2 a > 0 \<and> arg1 a = 0")
  case True
  then have "r = Err InvalidArgument" "st' = st" using call by (simp_all add: dispatch_send)
  then show ?thesis using run logs by (auto simp: log_sent_def log_received_def)
next
  case False
  then have s: "sys_send_message sh sc st p a = (r, st')"
    using call by (simp add: dispatch_send del: de_Morgan_disj de_Morgan_conj)
  let ?m = "syscall_message st p a"
  have run1: "ipc_run sh sc (st\<lparr>next_message_id := next_message_id st + 1\<rparr>) A G" by (rule ipc_run.other [OF run]) simp
  show ?thesis
  proof (cases rule: sys_send_message_cases [of a sh sc st p])
    case too_long
    with s have "r = Err InvalidArgument" "st' = st" by simp_all
    then show ?thesis using run logs by (auto simp: log_sent_def log_received_def)
  next
    case (accepted st2)
    with s have r: "r = Ok 0" "st' = st2" by simp_all
    have "ipc_run sh sc st2 (A(receiver (header ?m) := A (receiver (header ?m)) @ [?m])) G"
      by (rule ipc_run.sent [OF run1 syscall_message_fits accepted(2)]) (use sh accepted(1) in simp_all)
    moreover have "logs_match (log_sent SYS_SEND_MESSAGE a st r acc) (log_received p SYS_SEND_MESSAGE r got)
        (A(receiver (header ?m) := A (receiver (header ?m)) @ [?m])) G"
      using logs r by (auto simp: logs_match_def log_sent_def log_received_def syscall_numbers)
    ultimately show ?thesis using r by blast
  next
    case (refused e st2)
    with s have r: "r = Err (from_message_error e)" "st' = st2" by simp_all
    have "ipc_run sh sc st2 A G"
      by (rule ipc_run.not_sent [OF run1 syscall_message_fits refused(2)]) (use sh refused(1) in simp_all)
    then show ?thesis using logs r by (auto simp: log_sent_def log_received_def)
  qed
qed

lemma receive_call_run:
  assumes run: "ipc_run sh sc st A G" and logs: "logs_match acc got A G"
    and call: "dispatch_syscall debug sh sc p SYS_RECEIVE_MESSAGE a st = (r, st')"
  shows "\<exists>A G. ipc_run sh sc st' A G \<and>
    logs_match (log_sent SYS_RECEIVE_MESSAGE a st r acc) (log_received p SYS_RECEIVE_MESSAGE r got) A G"
proof -
  obtain x st2 where x: "receive_message sh sc st p = (x, st2)" by fastforce
  with call have r: "r = (case x of Ok m \<Rightarrow> Ok (message_id_of (header m)) | Err e \<Rightarrow> Err (from_message_error e))"
    "st' = st2" by (simp_all add: dispatch_receive sys_receive_message_eq)
  show ?thesis
  proof (cases x)
    case (Ok m)
    have "ipc_run sh sc st2 A (G(p := G p @ [m]))" by (rule ipc_run.received [OF run x [unfolded Ok]])
    moreover have "logs_match (log_sent SYS_RECEIVE_MESSAGE a st r acc) (log_received p SYS_RECEIVE_MESSAGE r got)
        A (G(p := G p @ [m]))"
      using logs r Ok by (auto simp: logs_match_def log_sent_def log_received_def syscall_numbers)
    ultimately show ?thesis using r by blast
  next
    case (Err e)
    have "ipc_run sh sc st2 A G" by (rule ipc_run.not_received [OF run x [unfolded Err]])
    then show ?thesis using logs r Err by (auto simp: log_sent_def log_received_def)
  qed
qed

lemma other_call_run:
  assumes run: "ipc_run sh sc st A G" and logs: "logs_match acc got A G"
    and call: "dispatch_syscall debug sh sc p n a st = (r, st')" and other: "n \<noteq> SYS_SEND_MESSAGE" "n \<noteq> SYS_RECEIVE_MESSAGE"
  shows "\<exists>A G. ipc_run sh sc st' A G \<and> logs_match (log_sent n a st r acc) (log_received p n r got) A G"
proof -
  have "ipc_queues st' = ipc_queues st"
  proof (cases "n = SYS_FORK")
    case True
    with call show ?thesis by (auto simp: dispatch_fork sys_fork_def split: prod.splits result.splits)
  next
    case False
    with dispatch_frame [OF call] other show ?thesis by simp
  qed
  then have "ipc_run sh sc st' A G" by (rule ipc_run.other [OF run])
  then show ?thesis using logs other by (auto simp: log_sent_def log_received_def split: result.splits)
qed

lemma sys_run_ipc:
  assumes "sys_run debug sh sc st acc got" "unat sh < 2 ^ 62"
  shows "\<exists>A G. ipc_run sh sc st A G \<and> logs_match acc got A G"
  using assms(1)
proof induction
  case (boot st)
  then have "ipc_run sh sc st (\<lambda>_. []) (\<lambda>_. [])" by (rule ipc_run.start)
  moreover have "logs_match (\<lambda>_. []) (\<lambda>_. []) (\<lambda>_. []) (\<lambda>_. [])" by (simp add: logs_match_def)
  ultimately show ?case by blast
next
  case (call st acc got p n a r st')
  then obtain A G where "ipc_run sh sc st A G" "logs_match acc got A G" by blast
  with send_call_run [OF this assms(2)] receive_call_run [OF this] other_call_run [OF this] call.hyps(2)
  show ?case by (cases "n = SYS_SEND_MESSAGE"; cases "n = SYS_RECEIVE_MESSAGE") blast+
next
  case (kernel st acc got st')
  then show ?case using ipc_run.other by blast
qed

lemma run_all_128:
  assumes "ipc_run sh sc st A G" "\<forall>m\<in>set (A p). prio_of m = 128"
  shows "A p = G p @ waiting st p"
proof -
  have "mq_trace sh sc p (queue_of (ipc_queues st) p) (A p) (G p)" using ipc_run_trace [OF assms(1)] by blast
  then have f: "filter (\<lambda>m. prio_of m = k) (A p) =
      filter (\<lambda>m. prio_of m = k) (G p) @ filter (\<lambda>m. prio_of m = k) (waiting st p)" for k
    unfolding waiting_def by (rule trace_delivery(1))
  have other: "filter (\<lambda>m. prio_of m = k) (A p) = []" if "k \<noteq> 128" for k
    using assms(2) that by (auto simp: filter_empty_conv)
  have "prio_of m = 128" if "m \<in> set (G p) \<union> set (waiting st p)" for m
  proof (rule ccontr)
    assume "prio_of m \<noteq> 128"
    with f [of "prio_of m"] other [of "prio_of m"] that show False by (auto simp: filter_empty_conv)
  qed
  then show ?thesis using f [of 128] assms(2) by (simp add: filter_True)
qed

lemma send_message_keeps:
  assumes "send_message sh sc st m = (r, st')"
  shows "permits (ipc_caps st') = permits (ipc_caps st) \<and> ipc_policy st' = ipc_policy st \<and> ipc_table st' = ipc_table st"
proof -
  obtain caps qs where "permits caps = permits (ipc_caps st)"
    "send_message sh sc st m = (send_verdict sh sc st m, st\<lparr>ipc_caps := caps, ipc_queues := qs\<rparr>)"
    by (rule send_message_eq) (rule that)
  with assms show ?thesis by auto
qed

lemma to_errno_inj: "to_errno e = to_errno e' \<longleftrightarrow> e = e'"
  by (cases e; cases e') simp_all

lemma to_errno_bounds: "- 111 \<le> sint (to_errno e)" "sint (to_errno e) < 0"
  by (cases e; simp)+

lemma signed_errno:
  "sint (signed (to_errno e) :: u64) = sint (to_errno e)"
  "(signed (to_errno e) :: u64) = signed (to_errno e') \<longleftrightarrow> e = e'"
  by (cases e; simp) (cases e; cases e'; simp)

lemma handler_small:
  assumes "dispatch_handler debug sh sc p n a st = (Ok v, st')" "n \<notin> {SYS_MMAP, SYS_WRITE, SYS_RECEIVE_MESSAGE}"
  shows "v < 2 ^ 32"
proof (cases "n = SYS_FORK \<or> n = SYS_SEND_MESSAGE")
  case True
  then show ?thesis
    using assms ucast_small
    by (auto simp: handler_stateful sys_fork_def sys_send_message_def Let_def split: prod.splits result.splits if_splits)
next
  case False
  have "min (arg2 a) 1024 < 2 ^ 32" by (simp add: min_def word_less_nat_alt word_le_nat_alt)
  with False assms ucast_small show ?thesis
    by (auto simp: dispatch_handler_def handler_defs split: if_splits)
qed

lemma demo_channel_rights: "permits (ipc_caps demo_channel) (1, CapSendMessage, ResProcess 2)"
  using channel_rights [OF demo_ipc_caps, of 1 2] by (auto simp: demo_channel_def simp del: permits.simps)

lemma demo_send:
  obtains st where "dispatch_syscall False 80 72 1 SYS_SEND_MESSAGE demo_args demo_channel = (Ok 0, st)"
proof -
  let ?st = "demo_channel\<lparr>next_message_id := next_message_id demo_channel + 1\<rparr>"
  let ?m = "syscall_message demo_channel 1 demo_args"
  have run: "ipc_run 80 72 ?st (\<lambda>_. []) (\<lambda>_. [])"
    by (rule ipc_run.other [OF demo_ipc_run]) (simp add: demo_channel_def)
  have w: "waiting ?st = waiting demo_ipc" by (simp add: waiting_def demo_channel_def fun_eq_iff)
  have sz: "total_size 80 72 ?m \<le> MAX_QUEUE_SIZE_BYTES"
    by (simp add: syscall_message_def message_new_def generate_message_id_def total_size_def cs_size_def
        demo_args_def show_dec.simps MAX_QUEUE_SIZE_BYTES_def)
  have tab: "ipc_table ?st = ipc_table demo_ipc" "ipc_caps ?st = ipc_caps demo_channel" by (simp_all add: demo_channel_def)
  have m: "sender (header ?m) = 1" "receiver (header ?m) = 2" by (simp_all add: demo_args_def)
  obtain st' where s: "send_message 80 72 ?st ?m = (Ok (), st')"
    by (rule send_to_empty [OF run, of ?m])
      (use sz demo_channel_rights demo_ipc_processes in \<open>simp_all only: w tab m demo_ipc_waiting ipc_state.simps not_False_eq_True\<close>)
  have "arg2 demo_args \<le> 4096" by (simp add: demo_args_def)
  with s have "sys_send_message 80 72 demo_channel 1 demo_args = (Ok 0, st')"
    by (cases rule: sys_send_message_cases [of demo_args 80 72 demo_channel 1]) auto
  then show ?thesis using that by (simp add: dispatch_send demo_args_def)
qed

text \<open>
  A memory mapping request with a hint near the top of the address space is granted with a value
  that is also the answer to an invalid request.
\<close>

lemma mmap_result_ambiguous:
  "syscall_entry debug sh sc SYS_MMAP \<lparr>arg0 = - 22, arg1 = 4096, arg2 = 3, arg3 = 1, arg4 = 0, arg5 = 0\<rparr> st = (- 22, st)"
  "syscall_entry debug sh sc SYS_MMAP \<lparr>arg0 = 0, arg1 = 0, arg2 = 3, arg3 = 1, arg4 = 0, arg5 = 0\<rparr> st = (- 22, st)"
  by (simp_all add: syscall_entry_def dispatch_syscall_def validate_syscall_args_def validate_mmap_args_def
      is_valid_syscall_number_def MAX_SYSCALL_NUMBER_def dispatch_handler_def sys_mmap_def syscall_numbers)

lemma receive_refused:
  assumes "receive_message sh sc st p = (Err e, st')"
  shows "st' = st"
proof (cases "global_get_process (ipc_table st) p")
  case None
  with assms show ?thesis by (simp add: receive_message_def)
next
  case (Some x)
  then obtain qs where qs: "dequeue_message sh sc (ipc_queues st) p = (Err e, qs)" "st' = st\<lparr>ipc_queues := qs\<rparr>"
    using assms by (auto simp: receive_message_def split: prod.splits)
  have "qs = ipc_queues st"
    using qs(1) by (auto simp: dequeue_message_def manager_dequeue_def dequeue_def fun_upd_idem split: option.splits list.splits)
  with qs(2) show ?thesis by simp
qed

lemma send_refused:
  assumes "send_message sh sc st m = (Err e, st')"
  shows "waiting st' = waiting st \<and> ipc_table st' = ipc_table st"
proof -
  obtain st'' where "send_message sh sc st m = (send_verdict sh sc st m, st'')"
    "\<And>p. waiting st'' p =
       (if send_verdict sh sc st m = Ok () \<and> p = receiver (header m)
        then takeWhile (\<lambda>x. prio_of x \<le> prio_of m) (waiting st p) @ m # dropWhile (\<lambda>x. prio_of x \<le> prio_of m) (waiting st p)
        else waiting st p)"
    by (rule send_message_waiting [of sh sc st m]) (rule that)
  with assms send_message_keeps [OF assms] show ?thesis by (auto simp: fun_eq_iff)
qed

lemma dispatch_refused:
  assumes "dispatch_syscall debug sh sc p n a st = (Err e, st')"
  shows "waiting st' = waiting st \<and> ipc_table st' = ipc_table st \<and> (n = SYS_SEND_MESSAGE \<or> st' = st)"
proof -
  consider (send) "n = SYS_SEND_MESSAGE" | (receive) "n = SYS_RECEIVE_MESSAGE" | (fork) "n = SYS_FORK"
    | (pure) "n \<noteq> SYS_FORK" "n \<noteq> SYS_SEND_MESSAGE" "n \<noteq> SYS_RECEIVE_MESSAGE" by blast
  then show ?thesis
  proof cases
    case send
    show ?thesis
    proof (cases "arg0 a = 0 \<or> arg2 a > 0 \<and> arg1 a = 0")
      case True
      then show ?thesis using assms send by (simp add: dispatch_send)
    next
      case False
      then have s: "sys_send_message sh sc st p a = (Err e, st')"
        using assms send by (simp add: dispatch_send del: de_Morgan_disj de_Morgan_conj)
      have w: "waiting (st\<lparr>next_message_id := i\<rparr>) = waiting st" for i by (simp add: waiting_def fun_eq_iff)
      show ?thesis using s send
        by (cases rule: sys_send_message_cases [of a sh sc st p])
          (auto simp: w dest!: send_refused)
    qed
  next
    case receive
    then show ?thesis
      using assms
      by (auto simp: dispatch_receive sys_receive_message_def dest: receive_refused split: prod.splits result.splits)
  next
    case fork
    have "t' = t" if "global_create_process t q nm prio = (Err x, t')" for t t' q nm prio x
      using that by (auto simp: global_create_process_def create_process_def Let_def split: option.splits if_splits prod.splits)
    with fork have "st' = st"
      using assms by (auto simp: dispatch_fork sys_fork_def split: prod.splits result.splits)
    then show ?thesis by simp
  next
    case pure
    then have "st' = st" using dispatch_frame [OF assms] by blast
    then show ?thesis by simp
  qed
qed

lemma dispatch_receive_frame:
  "dispatch_syscall debug sh sc p SYS_RECEIVE_MESSAGE a st = (r, st') \<Longrightarrow> st' = st\<lparr>ipc_queues := ipc_queues st'\<rparr>"
  by (auto simp: dispatch_receive sys_receive_message_def receive_message_def split: prod.splits result.splits if_splits)

section \<open>Properties\<close>

text \<open>
  C3: passing messages through system calls is reliable and ordered. In every run of system
  calls of any processes, the numbers of the messages accepted for a process are those its
  receiving calls returned followed by those of the messages still waiting, in the order in
  which they were sent.
\<close>

theorem syscall_delivery:
  assumes "sys_run debug sh sc st acc got" "unat sh < 2 ^ 62"
  shows "acc p = got p @ map (\<lambda>m. message_id_of (header m)) (waiting st p)"
proof -
  obtain A G where run: "ipc_run sh sc st A G" and logs: "logs_match acc got A G"
    using sys_run_ipc [OF assms] by blast
  have "A p = G p @ waiting st p"
    by (rule run_all_128 [OF run]) (use logs in \<open>simp add: logs_match_def\<close>)
  with logs show ?thesis by (simp add: logs_match_def)
qed

theorem syscall_delivery_witness:
  "\<exists>st. sys_run False 80 72 st ((\<lambda>_. [])(2 := [1])) (\<lambda>_. []) \<and> map (\<lambda>m. message_id_of (header m)) (waiting st 2) = [1]"
proof -
  obtain st where call: "dispatch_syscall False 80 72 1 SYS_SEND_MESSAGE demo_args demo_channel = (Ok 0, st)"
    by (rule demo_send)
  have "sys_run False 80 72 demo_channel (\<lambda>_. []) (\<lambda>_. [])"
    by (rule sys_run.boot) (simp add: demo_channel_def demo_ipc_facts)
  from sys_run.call [OF this call] have run: "sys_run False 80 72 st ((\<lambda>_. [])(2 := [1])) (\<lambda>_. [])"
    by (simp add: log_sent_def log_received_def syscall_numbers demo_args_def demo_channel_def demo_ipc_facts)
  from syscall_delivery [OF run, of 2] have "map (\<lambda>m. message_id_of (header m)) (waiting st 2) = [1]" by simp
  with run show ?thesis by (intro exI conjI)
qed

text \<open>
  C7: the tables of the interface agree: the validation and the dispatcher refuse a number as
  that of no system call exactly where it has no name.
\<close>

theorem syscall_tables_agree:
  "(validate_syscall_args debug p n a = Err InvalidSyscall \<longleftrightarrow> syscall_name debug n = ''unknown'')
   \<and> (fst (dispatch_handler debug sh sc p n a st) = Err InvalidSyscall \<longleftrightarrow> syscall_name debug n = ''unknown'')
   \<and> (fst (dispatch_syscall debug sh sc p n a st) = Err InvalidSyscall \<longleftrightarrow> syscall_name debug n = ''unknown'')"
proof -
  have "fst (dispatch_syscall debug sh sc p n a st) = Err InvalidSyscall \<longleftrightarrow> \<not> known_syscall debug n"
    using validate_known [of debug p n a] handler_known [of debug sh sc p n a st]
    by (cases "validate_syscall_args debug p n a") (auto simp: dispatch_syscall_def)
  then show ?thesis by (simp add: validate_known handler_known syscall_name_known)
qed

text \<open>
  C8: no system call changes a right or the policy, and none breaks the invariant of the process
  table. Only creating a process changes the process table, only sending and receiving change
  the queues, and only sending counts checks and numbers messages. A call that the validation
  refuses changes nothing. Any other call that fails leaves the process table and the waiting
  messages of every process as they are, and unless it is sending it changes nothing at all: a
  send that fails after the validation has still used up a message number and counted.
\<close>

theorem dispatch_safe:
  assumes "dispatch_syscall debug sh sc p n a st = (r, st')" "ipc_table st = Some t" "pt_wf t"
  shows "permits (ipc_caps st') = permits (ipc_caps st) \<and> ipc_policy st' = ipc_policy st
    \<and> (\<exists>t'. ipc_table st' = Some t' \<and> pt_wf t' \<and> (n = SYS_FORK \<or> t' = t))
    \<and> (n = SYS_SEND_MESSAGE \<or> n = SYS_RECEIVE_MESSAGE \<or> ipc_queues st' = ipc_queues st)
    \<and> (n = SYS_SEND_MESSAGE \<or> ipc_caps st' = ipc_caps st \<and> next_message_id st' = next_message_id st)
    \<and> (validate_syscall_args debug p n a = Ok () \<or> st' = st)
    \<and> (is_ok r \<or> ipc_table st' = ipc_table st \<and> waiting st' = waiting st \<and> (n = SYS_SEND_MESSAGE \<or> st' = st))"
proof -
  have invalid: "validate_syscall_args debug p n a = Ok () \<or> st' = st"
    using assms(1) by (cases "validate_syscall_args debug p n a") (auto simp: dispatch_syscall_def)
  have refused: "is_ok r \<or> ipc_table st' = ipc_table st \<and> waiting st' = waiting st \<and> (n = SYS_SEND_MESSAGE \<or> st' = st)"
    using assms(1) by (cases r) (auto dest: dispatch_refused)
  consider (send) "n = SYS_SEND_MESSAGE" | (receive) "n = SYS_RECEIVE_MESSAGE" | (fork) "n = SYS_FORK"
    | (pure) "n \<noteq> SYS_FORK" "n \<noteq> SYS_SEND_MESSAGE" "n \<noteq> SYS_RECEIVE_MESSAGE" by blast
  then show ?thesis
  proof cases
    case send
    have "permits (ipc_caps st') = permits (ipc_caps st) \<and> ipc_policy st' = ipc_policy st \<and> ipc_table st' = ipc_table st"
    proof (cases "arg0 a = 0 \<or> arg2 a > 0 \<and> arg1 a = 0")
      case True
      then show ?thesis using assms(1) send by (simp add: dispatch_send)
    next
      case False
      then have s: "sys_send_message sh sc st p a = (r, st')"
        using assms(1) send by (simp add: dispatch_send del: de_Morgan_disj de_Morgan_conj)
      then show ?thesis
        by (cases rule: sys_send_message_cases [of a sh sc st p]) (auto dest!: send_message_keeps)
    qed
    with invalid refused assms(2,3) send show ?thesis by simp
  next
    case receive
    then have "st' = st\<lparr>ipc_queues := ipc_queues st'\<rparr>" using assms(1) dispatch_receive_frame by blast
    then have "ipc_caps st' = ipc_caps st" "ipc_policy st' = ipc_policy st" "ipc_table st' = ipc_table st"
      "next_message_id st' = next_message_id st"
      by (metis ipc_state.select_convs ipc_state.surjective ipc_state.update_convs(4))+
    with invalid refused assms(2,3) receive show ?thesis by simp
  next
    case fork
    obtain t' where "st' = st\<lparr>ipc_table := Some t'\<rparr>" "pt_wf t'"
    proof (cases "length (processes t) < max_processes t")
      case True
      then show ?thesis
        using sys_fork_room [OF assms(2,3) True, of p a] that assms(1) fork by (auto simp: dispatch_fork)
    next
      case False
      then have "st' = st" using assms(1,2) fork by (simp add: dispatch_fork sys_fork_full)
      then show ?thesis using that [of t] assms(2,3) by simp
    qed
    with invalid refused fork show ?thesis by simp
  next
    case pure
    then have "st' = st" using dispatch_frame [OF assms(1)] by blast
    with assms(2,3) show ?thesis by simp
  qed
qed

theorem dispatch_safe_witness:
  "(\<exists>r st'. dispatch_syscall False 80 72 1 SYS_FORK demo_args demo_ipc = (r, st')
    \<and> permits (ipc_caps st') = permits (ipc_caps demo_ipc) \<and> ipc_queues st' = ipc_queues demo_ipc)
   \<and> (\<exists>st'. dispatch_syscall False 80 72 1 SYS_SEND_MESSAGE demo_args demo_ipc = (Err SysPermissionDenied, st')
    \<and> waiting st' = waiting demo_ipc)"
proof -
  obtain r st' where fork: "dispatch_syscall False 80 72 1 SYS_FORK demo_args demo_ipc = (r, st')" by fastforce
  obtain st'' where send: "dispatch_syscall False 80 72 1 SYS_SEND_MESSAGE demo_args demo_ipc = (Err SysPermissionDenied, st'')"
    using demo_ipc_processes
    by (auto simp: demo_args_def dispatch_send sys_send_message_def create_message_def message_new_def generate_message_id_def
        send_message_def check_capability_counts demo_ipc_facts caps_of_def init_capability_system_def
        capability_manager_new_def Let_def)
  show ?thesis
    using fork send dispatch_safe [OF fork demo_ipc_facts(4) demo_table_wf]
      dispatch_safe [OF send demo_ipc_facts(4) demo_table_wf]
    by (simp add: syscall_numbers del: permits.simps)
qed

text \<open>
  C9: errors can be told from results. Except for mapping memory, writing and receiving, whose
  results are not bounded, a call fails exactly where the value the entry point returns is
  negative, and then the value determines the error.
\<close>

theorem errors_recognisable:
  assumes "dispatch_syscall debug sh sc 1 n a st = (r, st')"
    "n \<notin> {SYS_MMAP, SYS_WRITE, SYS_RECEIVE_MESSAGE}"
  shows "\<exists>v. syscall_entry debug sh sc n a st = (v, st') \<and> (is_ok r \<longleftrightarrow> 0 \<le> sint v)
    \<and> (\<forall>e. r = Err e \<longleftrightarrow> v = signed (to_errno e))"
proof (cases r)
  case (Ok v)
  then have "dispatch_handler debug sh sc 1 n a st = (Ok v, st')"
    using assms(1) by (auto simp: dispatch_syscall_def split: result.splits)
  then have "0 \<le> sint v" by (intro small_nonneg handler_small [OF _ assms(2)])
  moreover have "v \<noteq> signed (to_errno e)" for e
    using calculation signed_errno(1) [of e] to_errno_bounds(2) [of e] by auto
  ultimately show ?thesis using assms(1) Ok by (simp add: syscall_entry_def)
next
  case (Err e)
  then show ?thesis
    using assms(1) to_errno_bounds(2) [of e] by (auto simp: syscall_entry_def signed_errno)
qed

theorem errors_recognisable_witness:
  "\<exists>v. syscall_entry False 80 72 SYS_SEND_MESSAGE (demo_args\<lparr>arg0 := 0\<rparr>) demo_ipc = (v, demo_ipc) \<and> sint v < 0
     \<and> v = signed (to_errno InvalidArgument)"
proof -
  have "dispatch_syscall False 80 72 1 SYS_SEND_MESSAGE (demo_args\<lparr>arg0 := 0\<rparr>) demo_ipc = (Err InvalidArgument, demo_ipc)"
    by (simp add: dispatch_send)
  moreover have "SYS_SEND_MESSAGE \<notin> {SYS_MMAP, SYS_WRITE, SYS_RECEIVE_MESSAGE}" by (simp add: syscall_numbers)
  ultimately obtain v where v: "syscall_entry False 80 72 SYS_SEND_MESSAGE (demo_args\<lparr>arg0 := 0\<rparr>) demo_ipc = (v, demo_ipc)"
    "is_ok (Err InvalidArgument :: syscall_result) \<longleftrightarrow> 0 \<le> sint v" "v = signed (to_errno InvalidArgument)"
    using errors_recognisable by blast
  from v(2) have "sint v < 0" unfolding is_ok.simps not_le [symmetric] by blast
  with v(1,3) show ?thesis by (intro exI conjI)
qed

text \<open>
  C10: creating a process by a system call, with room in the table, and the whole new state. The
  child is a fresh process, ready to run, with the caller as its parent, a name made of the
  caller's number and no children, in a new slot at the end; the caller's list of children is
  extended by it and the next number is one more. No other process or slot changes, nor do the
  current process and the limit of the table, and the call returns the child's number.
\<close>

theorem fork_effect:
  assumes "ipc_table st = Some t" "pt_wf t" "length (processes t) < max_processes t" "get_process t p = Some q"
  shows "let c = next_pid t;
      child = \<lparr>proc_pid = c, parent_pid = Some p, proc_state = Ready, proc_priority = Normal,
        proc_name = ''child_of_'' @ show_dec (unat p), cpu_ctx = cpu_context_new, cpu_time_ms = 0, creation_time_ms = 0,
        last_scheduled_ms = 0, exit_code = None, children = []\<rparr>;
      t' = t\<lparr>processes := map (map_option (\<lambda>x. if proc_pid x = p then x\<lparr>children := children x @ [c]\<rparr> else x)) (processes t)
               @ [Some child], next_pid := c + 1\<rparr>
    in dispatch_syscall debug sh sc p SYS_FORK a st = (Ok (ucast c), st\<lparr>ipc_table := Some t'\<rparr>)
    \<and> get_process t c = None \<and> get_process t' c = Some child
    \<and> get_process t' p = Some (q\<lparr>children := children q @ [c]\<rparr>)
    \<and> (\<forall>j. j = c \<or> j = p \<or> get_process t' j = get_process t j)"
proof -
  let ?c = "next_pid t"
  let ?child = "\<lparr>proc_pid = ?c, parent_pid = Some p, proc_state = Ready, proc_priority = Normal,
        proc_name = ''child_of_'' @ show_dec (unat p), cpu_ctx = cpu_context_new, cpu_time_ms = 0, creation_time_ms = 0,
        last_scheduled_ms = 0, exit_code = None, children = []\<rparr>"
  let ?t = "t\<lparr>processes := map (map_option (\<lambda>x. if proc_pid x = p then x\<lparr>children := children x @ [?c]\<rparr> else x)) (processes t)
               @ [Some ?child], next_pid := ?c + 1\<rparr>"
  have ok: "pids_ok t" using assms(2) by (simp add: pt_wf_def)
  have child: "new_process t (Some p) (''child_of_'' @ show_dec (unat p)) Normal = ?child"
    by (simp add: new_process_def process_new_def set_state_def get_current_time_ms_def)
  have stale: "add_child ?c x = x\<lparr>children := children x @ [?c]\<rparr>" if "Some x \<in> set (processes t)" for x
    using no_stale_child [OF assms(2) that] by (simp add: add_child_def)
  have "map (map_option (\<lambda>x. if proc_pid x = p then add_child ?c x else x)) (processes t) =
      map (map_option (\<lambda>x. if proc_pid x = p then x\<lparr>children := children x @ [?c]\<rparr> else x)) (processes t)"
    by (rule map_cong [OF refl]) (auto simp: stale intro!: option.map_cong)
  then have create: "create_process t (Some p) (''child_of_'' @ show_dec (unat p)) Normal = (Ok ?c, ?t)"
    using assms(3) child with_process_mut_map [OF ok, of p "add_child ?c"]
    by (simp add: create_process_def Let_def new_process_def with_process_mut_def)
  obtain t' where t': "create_process t (Some p) (''child_of_'' @ show_dec (unat p)) Normal = (Ok ?c, t')"
    "\<And>j. get_process t' j =
       (if j = ?c then Some (new_process t (Some p) (''child_of_'' @ show_dec (unat p)) Normal)
        else if Some p = Some j then map_option (add_child ?c) (get_process t j)
        else get_process t j)"
    by (rule create_process_Ok [OF ok assms(3)]) (rule that)
  then have get: "get_process ?t j =
       (if j = ?c then Some ?child else if p = j then map_option (add_child ?c) (get_process t j) else get_process t j)" for j
    using create child by simp
  have fresh: "get_process t ?c = None" using ok by (rule next_pid_fresh)
  with assms(4) have "p \<noteq> ?c" by auto
  moreover have "add_child ?c q = q\<lparr>children := children q @ [?c]\<rparr>" using stale get_process_Some [OF assms(4)] by blast
  moreover have "dispatch_syscall debug sh sc p SYS_FORK a st = (Ok (ucast ?c), st\<lparr>ipc_table := Some ?t\<rparr>)"
    unfolding dispatch_fork sys_fork_def global_create_process_def assms(1) option.case create by simp
  ultimately show ?thesis using fresh assms(4) unfolding Let_def get by simp
qed

theorem fork_effect_witness:
  "\<exists>c t' child. dispatch_syscall False 80 72 1 SYS_FORK demo_args demo_ipc = (Ok (ucast c), demo_ipc\<lparr>ipc_table := Some t'\<rparr>)
    \<and> get_process t' c = Some child \<and> parent_pid child = Some 1"
proof -
  have "ipc_table demo_ipc = Some demo_table" "length (processes demo_table) < max_processes demo_table"
    by (simp_all add: demo_ipc_facts demo_table_get)
  from fork_effect [OF this(1) demo_table_wf this(2) demo_table_get(1), of False 80 72 demo_args]
  show ?thesis unfolding Let_def by fastforce
qed

end
