(* ===== verification/Cpu_Power.thy ===== *)
theory Cpu_Power
  imports Process_Table "HOL-Library.AList"
begin

text \<open>
  The parts of the power management that act on the processor, from \<^verbatim>\<open>power/mod.rs\<close>,
  \<^verbatim>\<open>power/cpu_scaling.rs\<close> and \<^verbatim>\<open>power/idle_management.rs\<close>: the frequency governors and the
  selection of idle states. The maps from processes to their activity are association lists;
  the sources only ask of them whether some process is interactive.
\<close>

section \<open>States, governors and activities\<close>

datatype power_state = StPerformance | StBalanced | StPowerSaver | StCritical

record battery_info =
  level_percent :: u8
  is_charging :: bool
  estimated_time_remaining :: "u32 option"

record cpu_frequency =
  current_mhz :: u32
  min_mhz :: u32
  max_mhz :: u32

datatype cpu_governor = GovPerformance | GovOnDemand | GovPowerSave | GovConservative | GovInteractive

datatype process_activity = ActInteractive | ActBackground | ActIoIntensive | ActNetwork | ActIdle

datatype power_error =
  PowNotSupported | PowInvalidTransition | BatteryUnavailable | FrequencyScalingUnavailable
| PowPermissionDenied | HardwareError

type_synonym activities = "(process_id \<times> process_activity) list"

definition any_interactive :: "activities \<Rightarrow> bool" where
  "any_interactive m = list_ex (\<lambda>(p, a). a = ActInteractive) m"

section \<open>Frequency scaling\<close>

record cpu_scaling =
  cpu_governor_of :: cpu_governor
  cpu_frequency_of :: u32
  min_frequency :: u32
  max_frequency :: u32
  load_history :: "u8 list"
  load_index :: nat
  cpu_activities :: activities
  cpu_boost_active :: bool
  cpu_boost_end :: u64

definition cpu_scaling_new :: cpu_scaling where
  "cpu_scaling_new =
     \<lparr>cpu_governor_of = GovOnDemand, cpu_frequency_of = 1000, min_frequency = 800, max_frequency = 2400,
      load_history = replicate 10 0, load_index = 0, cpu_activities = [], cpu_boost_active = False,
      cpu_boost_end = 0\<rparr>"

definition set_frequency :: "cpu_scaling \<Rightarrow> u32 \<Rightarrow> (unit, power_error) result \<times> cpu_scaling" where
  "set_frequency m f =
     (if f < min_frequency m \<or> f > max_frequency m then (Err PowInvalidTransition, m)
      else (Ok (), m\<lparr>cpu_frequency_of := f\<rparr>))"

definition cpu_scaling_init :: "cpu_scaling \<Rightarrow> (unit, power_error) result \<times> cpu_scaling" where
  "cpu_scaling_init m = set_frequency m (cpu_frequency_of m)"

definition manager_set_governor :: "cpu_scaling \<Rightarrow> cpu_governor \<Rightarrow> (unit, power_error) result \<times> cpu_scaling" where
  "manager_set_governor m g =
     (let m1 = m\<lparr>cpu_governor_of := g\<rparr> in
      case g of
        GovPerformance \<Rightarrow> set_frequency m1 (max_frequency m1)
      | GovPowerSave \<Rightarrow> set_frequency m1 (min_frequency m1)
      | _ \<Rightarrow> (Ok (), m1))"

definition manager_frequency_info :: "cpu_scaling \<Rightarrow> cpu_frequency" where
  "manager_frequency_info m =
     \<lparr>current_mhz = cpu_frequency_of m, min_mhz = min_frequency m, max_mhz = max_frequency m\<rparr>"

definition on_demand_scaling :: "cpu_scaling \<Rightarrow> u8 \<Rightarrow> (unit, power_error) result \<times> cpu_scaling" where
  "on_demand_scaling m load =
     set_frequency m
       (if load > 80 then max_frequency m
        else if load > 50 then min_frequency m + ((max_frequency m - min_frequency m) * ucast load) div 100
        else min_frequency m)"

definition conservative_scaling :: "cpu_scaling \<Rightarrow> u8 \<Rightarrow> (unit, power_error) result \<times> cpu_scaling" where
  "conservative_scaling m load =
     (let step = (max_frequency m - min_frequency m) div 10; cur = cpu_frequency_of m in
      set_frequency m
        (if load > 75 \<and> cur < max_frequency m then min (cur + step) (max_frequency m)
         else if load < 25 \<and> cur > min_frequency m then max (cur - step) (min_frequency m)
         else cur))"

definition interactive_scaling :: "cpu_scaling \<Rightarrow> u8 \<Rightarrow> (unit, power_error) result \<times> cpu_scaling" where
  "interactive_scaling m load =
     set_frequency m
       (if cpu_boost_active m \<or> any_interactive (cpu_activities m) then
          (if load > 30 then max_frequency m
           else min_frequency m + (max_frequency m - min_frequency m) div 2)
        else if load > 60 then max_frequency m
        else if load > 30 then min_frequency m + ((max_frequency m - min_frequency m) * ucast load) div 100
        else min_frequency m)"

definition manager_update_load :: "cpu_scaling \<Rightarrow> u8 \<Rightarrow> (unit, power_error) result \<times> cpu_scaling" where
  "manager_update_load m load =
     (let m1 = m\<lparr>load_history := (load_history m)[load_index m := load],
                 load_index := (load_index m + 1) mod length (load_history m)\<rparr> in
      case cpu_governor_of m1 of
        GovOnDemand \<Rightarrow> on_demand_scaling m1 load
      | GovConservative \<Rightarrow> conservative_scaling m1 load
      | GovInteractive \<Rightarrow> interactive_scaling m1 load
      | _ \<Rightarrow> (Ok (), m1))"

definition cpu_interactive_boost :: "cpu_scaling \<Rightarrow> cpu_scaling" where
  "cpu_interactive_boost m = m\<lparr>cpu_boost_active := True, cpu_boost_end := 10\<rparr>"

definition manager_cpu_activity :: "cpu_scaling \<Rightarrow> process_id \<Rightarrow> process_activity \<Rightarrow> cpu_scaling" where
  "manager_cpu_activity m p act =
     (let m1 = m\<lparr>cpu_activities := AList.update p act (cpu_activities m)\<rparr> in
      if act = ActInteractive then cpu_interactive_boost m1 else m1)"

definition manager_cpu_remove :: "cpu_scaling \<Rightarrow> process_id \<Rightarrow> cpu_scaling" where
  "manager_cpu_remove m p = m\<lparr>cpu_activities := AList.delete p (cpu_activities m)\<rparr>"

definition get_average_load :: "cpu_scaling \<Rightarrow> u8" where
  "get_average_load m =
     ucast (sum_list (map ucast (load_history m) :: u32 list) div of_nat (length (load_history m)))"

definition manager_cpu_tick :: "cpu_scaling \<Rightarrow> u64 \<Rightarrow> (unit, power_error) result \<times> cpu_scaling" where
  "manager_cpu_tick m now =
     (let m1 = (if cpu_boost_active m \<and> now \<ge> cpu_boost_end m then m\<lparr>cpu_boost_active := False\<rparr> else m) in
      if cpu_governor_of m1 = GovInteractive then interactive_scaling m1 (get_average_load m1) else (Ok (), m1))"

subsection \<open>The global manager\<close>

type_synonym cpu_state = "cpu_scaling option"

definition cpu_init :: "cpu_state \<Rightarrow> (unit, power_error) result \<times> cpu_state" where
  "cpu_init g =
     (case cpu_scaling_init cpu_scaling_new of
        (Ok _, m) \<Rightarrow> (Ok (), Some m)
      | (Err e, _) \<Rightarrow> (Err e, g))"

definition cpu_set_governor :: "cpu_state \<Rightarrow> cpu_governor \<Rightarrow> (unit, power_error) result \<times> cpu_state" where
  "cpu_set_governor g gov =
     (case g of Some m \<Rightarrow> map_prod id Some (manager_set_governor m gov) | None \<Rightarrow> (Err PowNotSupported, None))"

definition cpu_frequency_info :: "cpu_state \<Rightarrow> (cpu_frequency, power_error) result" where
  "cpu_frequency_info g =
     (case g of Some m \<Rightarrow> Ok (manager_frequency_info m) | None \<Rightarrow> Err FrequencyScalingUnavailable)"

definition cpu_update_load :: "cpu_state \<Rightarrow> u8 \<Rightarrow> (unit, power_error) result \<times> cpu_state" where
  "cpu_update_load g load =
     (case g of Some m \<Rightarrow> map_prod id Some (manager_update_load m load) | None \<Rightarrow> (Err PowNotSupported, None))"

definition cpu_notify_activity :: "cpu_state \<Rightarrow> process_id \<Rightarrow> process_activity \<Rightarrow> cpu_state" where
  "cpu_notify_activity g p act = map_option (\<lambda>m. manager_cpu_activity m p act) g"

definition cpu_remove_process :: "cpu_state \<Rightarrow> process_id \<Rightarrow> cpu_state" where
  "cpu_remove_process g p = map_option (\<lambda>m. manager_cpu_remove m p) g"

definition cpu_tick :: "cpu_state \<Rightarrow> u64 \<Rightarrow> (unit, power_error) result \<times> cpu_state" where
  "cpu_tick g now =
     (case g of Some m \<Rightarrow> map_prod id Some (manager_cpu_tick m now) | None \<Rightarrow> (Ok (), None))"

section \<open>Idle states\<close>

datatype idle_state = C0 | C1 | C2 | C3 | C4

fun idle_index :: "idle_state \<Rightarrow> nat" where
  "idle_index C0 = 0"
| "idle_index C1 = 1"
| "idle_index C2 = 2"
| "idle_index C3 = 3"
| "idle_index C4 = 4"

record idle_state_info =
  isi_state :: idle_state
  entry_latency_us :: u32
  exit_latency_us :: u32
  power_consumption_mw :: u32
  isi_available :: bool

record idle_stats =
  time_in_c0 :: u64
  time_in_c1 :: u64
  time_in_c2 :: u64
  time_in_c3 :: u64
  time_in_c4 :: u64
  total_idle_entries :: u64
  total_idle_time :: u64

record idle_manager =
  idle_current :: idle_state
  available_states :: "idle_state_info list"
  idle_statistics :: idle_stats
  last_activity_time :: u64
  idle_threshold_ms :: u64
  deep_idle_threshold_ms :: u64
  active_processes :: activities
  prevent_deep_idle :: bool

definition idle_manager_new :: idle_manager where
  "idle_manager_new =
     \<lparr>idle_current = C0,
      available_states =
        [\<lparr>isi_state = C0, entry_latency_us = 0, exit_latency_us = 0, power_consumption_mw = 1000, isi_available = True\<rparr>,
         \<lparr>isi_state = C1, entry_latency_us = 1, exit_latency_us = 1, power_consumption_mw = 500, isi_available = True\<rparr>,
         \<lparr>isi_state = C2, entry_latency_us = 10, exit_latency_us = 20, power_consumption_mw = 200, isi_available = True\<rparr>,
         \<lparr>isi_state = C3, entry_latency_us = 50, exit_latency_us = 100, power_consumption_mw = 50, isi_available = True\<rparr>,
         \<lparr>isi_state = C4, entry_latency_us = 200, exit_latency_us = 500, power_consumption_mw = 10, isi_available = False\<rparr>],
      idle_statistics = \<lparr>time_in_c0 = 0, time_in_c1 = 0, time_in_c2 = 0, time_in_c3 = 0, time_in_c4 = 0,
        total_idle_entries = 0, total_idle_time = 0\<rparr>,
      last_activity_time = 0, idle_threshold_ms = 10, deep_idle_threshold_ms = 100, active_processes = [],
      prevent_deep_idle = False\<rparr>"

definition detect_deep_idle_support :: bool where
  "detect_deep_idle_support = True"

definition idle_manager_init :: "idle_manager \<Rightarrow> idle_manager" where
  "idle_manager_init m =
     m\<lparr>available_states := (available_states m)[4 := (available_states m ! 4)\<lparr>isi_available := detect_deep_idle_support\<rparr>]\<rparr>"

fun find_fallback_state :: "idle_manager \<Rightarrow> nat \<Rightarrow> idle_state" where
  "find_fallback_state m 0 = C0"
| "find_fallback_state m (Suc i) =
     (if isi_available (available_states m ! i)
      then (if i = 0 then C0 else if i = 1 then C1 else if i = 2 then C2 else if i = 3 then C3
            else if i = 4 then C4 else C0)
      else find_fallback_state m i)"

definition select_idle_state :: "idle_manager \<Rightarrow> u64 \<Rightarrow> idle_state" where
  "select_idle_state m dur =
     (if dur < idle_threshold_ms m then C0
      else let target =
        (if any_interactive (active_processes m) then
           (if dur > 50 then C2 else if dur > 20 then C1 else C0)
         else if prevent_deep_idle m then
           (if dur > deep_idle_threshold_ms m then C2 else if dur > 20 then C1 else C0)
         else
           (if dur > 500 \<and> isi_available (available_states m ! 4) then C4
            else if dur > deep_idle_threshold_ms m then C3
            else if dur > 50 then C2
            else if dur > 20 then C1
            else C0)) in
      if isi_available (available_states m ! idle_index target) then target
      else find_fallback_state m (idle_index target))"

definition transition_to_state :: "idle_manager \<Rightarrow> idle_state \<Rightarrow> idle_manager" where
  "transition_to_state m target =
     m\<lparr>idle_current := target,
       idle_statistics := (idle_statistics m)\<lparr>total_idle_entries := total_idle_entries (idle_statistics m) + 1\<rparr>\<rparr>"

definition manager_enter_idle :: "idle_manager \<Rightarrow> u64 \<Rightarrow> idle_state \<times> idle_manager" where
  "manager_enter_idle m now =
     (let target = select_idle_state m (saturating_sub now (last_activity_time m)) in
      (target, if target \<noteq> idle_current m then transition_to_state m target else m))"

definition update_idle_stats :: "idle_manager \<Rightarrow> u64 \<Rightarrow> idle_manager" where
  "update_idle_stats m t =
     (let s = (idle_statistics m)\<lparr>total_idle_time := total_idle_time (idle_statistics m) + t\<rparr> in
      m\<lparr>idle_statistics :=
        (case idle_current m of
           C0 \<Rightarrow> s\<lparr>time_in_c0 := time_in_c0 s + t\<rparr>
         | C1 \<Rightarrow> s\<lparr>time_in_c1 := time_in_c1 s + t\<rparr>
         | C2 \<Rightarrow> s\<lparr>time_in_c2 := time_in_c2 s + t\<rparr>
         | C3 \<Rightarrow> s\<lparr>time_in_c3 := time_in_c3 s + t\<rparr>
         | C4 \<Rightarrow> s\<lparr>time_in_c4 := time_in_c4 s + t\<rparr>)\<rparr>)"

definition manager_exit_idle :: "idle_manager \<Rightarrow> u64 \<Rightarrow> idle_manager" where
  "manager_exit_idle m now =
     (let m1 = (if idle_current m \<noteq> C0
                then transition_to_state (update_idle_stats m (saturating_sub now (last_activity_time m))) C0
                else m)
      in m1\<lparr>last_activity_time := now\<rparr>)"

definition manager_idle_activity :: "idle_manager \<Rightarrow> process_id \<Rightarrow> process_activity \<Rightarrow> u64 \<Rightarrow> idle_manager" where
  "manager_idle_activity m p act now =
     (let as = AList.update p act (active_processes m) in
      m\<lparr>active_processes := as, last_activity_time := now, prevent_deep_idle := any_interactive as\<rparr>)"

definition manager_idle_remove :: "idle_manager \<Rightarrow> process_id \<Rightarrow> idle_manager" where
  "manager_idle_remove m p =
     (let as = AList.delete p (active_processes m) in
      m\<lparr>active_processes := as, prevent_deep_idle := any_interactive as\<rparr>)"

definition set_thresholds :: "idle_manager \<Rightarrow> u64 \<Rightarrow> u64 \<Rightarrow> idle_manager" where
  "set_thresholds m a b = m\<lparr>idle_threshold_ms := a, deep_idle_threshold_ms := b\<rparr>"

subsection \<open>The global manager\<close>

type_synonym idle_global = "idle_manager option"

definition idle_init :: idle_global where
  "idle_init = Some (idle_manager_init idle_manager_new)"

definition enter_idle :: "idle_global \<Rightarrow> u64 \<Rightarrow> (idle_state, power_error) result \<times> idle_global" where
  "enter_idle g now =
     (case g of Some m \<Rightarrow> map_prod Ok Some (manager_enter_idle m now) | None \<Rightarrow> (Err PowNotSupported, None))"

definition exit_idle :: "idle_global \<Rightarrow> u64 \<Rightarrow> (unit, power_error) result \<times> idle_global" where
  "exit_idle g now =
     (case g of Some m \<Rightarrow> (Ok (), Some (manager_exit_idle m now)) | None \<Rightarrow> (Err PowNotSupported, None))"

definition idle_notify_activity :: "idle_global \<Rightarrow> process_id \<Rightarrow> process_activity \<Rightarrow> u64 \<Rightarrow> idle_global" where
  "idle_notify_activity g p act now = map_option (\<lambda>m. manager_idle_activity m p act now) g"

definition idle_remove_process :: "idle_global \<Rightarrow> process_id \<Rightarrow> idle_global" where
  "idle_remove_process g p = map_option (\<lambda>m. manager_idle_remove m p) g"

definition idle_current_state :: "idle_global \<Rightarrow> (idle_state, power_error) result" where
  "idle_current_state g = (case g of Some m \<Rightarrow> Ok (idle_current m) | None \<Rightarrow> Err PowNotSupported)"

definition idle_get_stats :: "idle_global \<Rightarrow> (idle_stats, power_error) result" where
  "idle_get_stats g = (case g of Some m \<Rightarrow> Ok (idle_statistics m) | None \<Rightarrow> Err PowNotSupported)"

definition cpu_wf :: "cpu_scaling \<Rightarrow> bool" where
  "cpu_wf m \<longleftrightarrow> min_frequency m = 800 \<and> max_frequency m = 2400
     \<and> 800 \<le> cpu_frequency_of m \<and> cpu_frequency_of m \<le> 2400
     \<and> length (load_history m) = 10 \<and> load_index m < 10"

inductive cpu_reach :: "cpu_scaling \<Rightarrow> bool" where
  created: "cpu_reach cpu_scaling_new"
| governor: "cpu_reach m \<Longrightarrow> cpu_reach (snd (manager_set_governor m g))"
| load: "cpu_reach m \<Longrightarrow> cpu_reach (snd (manager_update_load m l))"
| ticked: "cpu_reach m \<Longrightarrow> cpu_reach (snd (manager_cpu_tick m now))"
| active: "cpu_reach m \<Longrightarrow> cpu_reach (manager_cpu_activity m p act)"
| removed: "cpu_reach m \<Longrightarrow> cpu_reach (manager_cpu_remove m p)"

definition idle_wf :: "idle_manager \<Rightarrow> bool" where
  "idle_wf m \<longleftrightarrow> length (available_states m) = 5 \<and> isi_available (available_states m ! 0)
     \<and> prevent_deep_idle m = any_interactive (active_processes m)
     \<and> (let s = idle_statistics m in
        total_idle_time s = time_in_c0 s + time_in_c1 s + time_in_c2 s + time_in_c3 s + time_in_c4 s)"

inductive idle_reach :: "idle_manager \<Rightarrow> bool" where
  created: "idle_reach (idle_manager_init idle_manager_new)"
| entered: "idle_reach m \<Longrightarrow> idle_reach (snd (manager_enter_idle m now))"
| left_idle: "idle_reach m \<Longrightarrow> idle_reach (manager_exit_idle m now)"
| active: "idle_reach m \<Longrightarrow> idle_reach (manager_idle_activity m p act now)"
| removed: "idle_reach m \<Longrightarrow> idle_reach (manager_idle_remove m p)"
| tuned: "idle_reach m \<Longrightarrow> idle_reach (set_thresholds m a b)"

section \<open>Invariants and runs\<close>

section \<open>Frequencies\<close>

lemma scaled_frequency:
  assumes "(load :: u8) \<le> 80"
  shows "unat (800 + (1600 * ucast load) div 100 :: u32) = 800 + 16 * unat load"
proof -
  have n: "unat load \<le> 80" using assms by (simp add: word_le_nat_alt)
  have "unat (ucast load :: u32) = unat load"
    using n by (simp add: unsigned_ucast_eq take_bit_nat_eq_self_iff)
  then have "unat (1600 * ucast load :: u32) = 1600 * unat load" using n by (simp add: unat_word_ariths)
  then have "unat ((1600 * ucast load) div 100 :: u32) = 16 * unat load" by (simp add: unat_div)
  then show ?thesis using n by (simp add: unat_word_ariths)
qed

lemma set_frequency_ok:
  assumes "cpu_wf m" "800 \<le> f" "f \<le> 2400"
  shows "set_frequency m f = (Ok (), m\<lparr>cpu_frequency_of := f\<rparr>) \<and> cpu_wf (m\<lparr>cpu_frequency_of := f\<rparr>)"
  using assms by (auto simp: set_frequency_def cpu_wf_def not_le [symmetric])

lemma scaled_in_range:
  assumes "(load :: u8) \<le> 80"
  shows "(800 :: u32) \<le> 800 + (1600 * ucast load) div 100" "800 + (1600 * ucast load) div 100 \<le> (2400 :: u32)"
  using scaled_frequency [OF assms] assms by (simp_all add: word_le_nat_alt)

lemma on_demand_ok:
  assumes "cpu_wf m"
  shows "fst (on_demand_scaling m load) = Ok () \<and> cpu_wf (snd (on_demand_scaling m load))"
proof -
  have range: "min_frequency m = 800" "max_frequency m = 2400" using assms by (simp_all add: cpu_wf_def)
  show ?thesis
    unfolding on_demand_scaling_def range
    using set_frequency_ok [OF assms] scaled_in_range [of load] by (cases "load > 80") (auto simp: not_less)
qed

lemma interactive_ok:
  assumes "cpu_wf m"
  shows "fst (interactive_scaling m load) = Ok () \<and> cpu_wf (snd (interactive_scaling m load))"
proof -
  have range: "min_frequency m = 800" "max_frequency m = 2400" using assms by (simp_all add: cpu_wf_def)
  have "load \<le> 80" if "\<not> load > 60" using that by (simp add: word_less_nat_alt word_le_nat_alt)
  then show ?thesis
    unfolding interactive_scaling_def range
    using set_frequency_ok [OF assms] scaled_in_range [of load] by (cases "load > 60") auto
qed

lemma conservative_ok:
  assumes "cpu_wf m"
  shows "fst (conservative_scaling m load) = Ok () \<and> cpu_wf (snd (conservative_scaling m load))"
proof -
  have range: "min_frequency m = 800" "max_frequency m = 2400" using assms by (simp_all add: cpu_wf_def)
  let ?c = "cpu_frequency_of m"
  have c: "800 \<le> ?c" "?c \<le> 2400" using assms by (simp_all add: cpu_wf_def)
  have up: "800 \<le> min (?c + 160) 2400" using c by (simp add: word_le_nat_alt unat_word_ariths min_def)
  have down: "max (?c - 160) 800 \<le> 2400" using c by (auto simp: max_def word_le_nat_alt unat_sub)
  define f where "f = (if load > 75 \<and> ?c < 2400 then min (?c + 160) 2400
        else if load < 25 \<and> ?c > 800 then max (?c - 160) 800 else ?c)"
  have "800 \<le> f" "f \<le> 2400" using c up down by (auto simp: f_def)
  moreover have "conservative_scaling m load = set_frequency m f"
    by (simp add: conservative_scaling_def range Let_def f_def)
  ultimately show ?thesis using set_frequency_ok [OF assms, of f] by simp
qed

lemma cpu_wf_fields:
  assumes "cpu_wf m"
  shows "cpu_wf (m\<lparr>cpu_governor_of := g\<rparr>)" "cpu_wf (m\<lparr>cpu_boost_active := b\<rparr>)" "cpu_wf (m\<lparr>cpu_activities := as\<rparr>)"
    "cpu_wf (m\<lparr>load_history := (load_history m)[load_index m := l],
               load_index := (load_index m + 1) mod length (load_history m)\<rparr>)"
    "cpu_wf (cpu_interactive_boost m)"
  using assms by (simp_all add: cpu_wf_def cpu_interactive_boost_def)

lemma governor_ok:
  assumes "cpu_wf m"
  shows "fst (manager_set_governor m g) = Ok () \<and> cpu_wf (snd (manager_set_governor m g))"
proof -
  have range: "min_frequency m = 800" "max_frequency m = 2400" using assms by (simp_all add: cpu_wf_def)
  show ?thesis
    using set_frequency_ok [OF cpu_wf_fields(1) [OF assms, of g]] cpu_wf_fields(1) [OF assms, of g]
    by (cases g) (simp_all add: manager_set_governor_def Let_def range)
qed

lemma update_load_ok:
  assumes "cpu_wf m"
  shows "fst (manager_update_load m l) = Ok () \<and> cpu_wf (snd (manager_update_load m l))"
proof -
  note wf = cpu_wf_fields(4) [OF assms, of l]
  show ?thesis
    using on_demand_ok [OF wf, of l] interactive_ok [OF wf, of l] conservative_ok [OF wf, of l] wf
    by (simp add: manager_update_load_def Let_def split: cpu_governor.splits)
qed

lemma tick_ok:
  assumes "cpu_wf m"
  shows "fst (manager_cpu_tick m now) = Ok () \<and> cpu_wf (snd (manager_cpu_tick m now))"
  using interactive_ok [OF assms] interactive_ok [OF cpu_wf_fields(2) [OF assms]] cpu_wf_fields(2) [OF assms] assms
  by (simp add: manager_cpu_tick_def Let_def)

lemma cpu_reach_wf: "cpu_reach m \<Longrightarrow> cpu_wf m"
proof (induction rule: cpu_reach.induct)
  case created
  then show ?case by (simp add: cpu_wf_def cpu_scaling_new_def)
next
  case (active m p act)
  then show ?case by (simp add: manager_cpu_activity_def Let_def cpu_wf_fields)
qed (simp_all add: governor_ok update_load_ok tick_ok manager_cpu_remove_def cpu_wf_fields)

section \<open>Idle states\<close>

lemma fallback_available:
  assumes "isi_available (available_states m ! 0)" "i \<le> 5"
  shows "isi_available (available_states m ! idle_index (find_fallback_state m i)) \<and> idle_index (find_fallback_state m i) \<le> i"
  using assms(2)
proof (induction i)
  case 0
  with assms(1) show ?case by simp
next
  case (Suc i)
  then show ?case by (cases "isi_available (available_states m ! i)") (auto simp: le_Suc_eq numeral_eq_Suc)
qed

lemma idle_reach_wf: "idle_reach m \<Longrightarrow> idle_wf m"
proof (induction rule: idle_reach.induct)
  case created
  then show ?case
    by (simp add: idle_wf_def idle_manager_init_def idle_manager_new_def any_interactive_def Let_def)
next
  case (left_idle m now)
  then show ?case
    by (cases "idle_current m") (simp_all add: idle_wf_def manager_exit_idle_def transition_to_state_def update_idle_stats_def Let_def)
qed (simp_all add: idle_wf_def manager_enter_idle_def transition_to_state_def manager_idle_activity_def
    manager_idle_remove_def set_thresholds_def Let_def)

lemma idle_index_le: "idle_index s \<le> 4"
  by (cases s) simp_all

section \<open>Properties\<close>

text \<open>
  The frequency governors stay within the range of the processor: whatever governor is set,
  whatever loads are reported and however often time passes, the frequency is between the
  minimum and the maximum, and no governor ever asks for a frequency that is refused.
\<close>

theorem frequency_in_range:
  assumes "cpu_reach m"
  shows "min_frequency m \<le> cpu_frequency_of m \<and> cpu_frequency_of m \<le> max_frequency m
    \<and> fst (manager_set_governor m g) = Ok () \<and> fst (manager_update_load m l) = Ok ()
    \<and> fst (manager_cpu_tick m now) = Ok ()"
  using cpu_reach_wf [OF assms] governor_ok [OF cpu_reach_wf [OF assms]] update_load_ok [OF cpu_reach_wf [OF assms]]
    tick_ok [OF cpu_reach_wf [OF assms]]
  by (simp add: cpu_wf_def)

theorem frequency_in_range_witness:
  "800 \<le> cpu_frequency_of (snd (manager_update_load cpu_scaling_new 60))
     \<and> cpu_frequency_of (snd (manager_update_load cpu_scaling_new 60)) = 1760"
  using frequency_in_range [OF cpu_reach.load [OF cpu_reach.created], of 60]
  by (simp add: manager_update_load_def on_demand_scaling_def set_frequency_def cpu_scaling_new_def Let_def)

text \<open>
  The idle state that is selected is one that is available; with recent activity the
  processor stays awake, and while some process is interactive it never goes deeper than the
  second idle state. The times by state always add up to the total idle time.
\<close>

theorem idle_selection:
  assumes "idle_reach m"
  shows "isi_available (available_states m ! idle_index (select_idle_state m d))
    \<and> (d < idle_threshold_ms m \<longrightarrow> select_idle_state m d = C0)
    \<and> (any_interactive (active_processes m) \<longrightarrow> idle_index (select_idle_state m d) \<le> 2)
    \<and> (let s = idle_statistics m in
       total_idle_time s = time_in_c0 s + time_in_c1 s + time_in_c2 s + time_in_c3 s + time_in_c4 s)"
proof -
  have wf: "idle_wf m" by (rule idle_reach_wf [OF assms])
  have first: "isi_available (available_states m ! 0)" using wf by (simp add: idle_wf_def)
  have fb: "isi_available (available_states m ! idle_index (find_fallback_state m (idle_index s)))"
    "idle_index (find_fallback_state m (idle_index s)) \<le> idle_index s" for s
    using fallback_available [OF first, of "idle_index s"] idle_index_le [of s] by auto
  have "isi_available (available_states m ! idle_index (select_idle_state m d))"
    using first fb(1) by (auto simp: select_idle_state_def Let_def)
  moreover have "any_interactive (active_processes m) \<longrightarrow> idle_index (select_idle_state m d) \<le> 2"
    using fb(2) [of C1] fb(2) [of C2] by (auto simp: select_idle_state_def Let_def)
  moreover have "d < idle_threshold_ms m \<longrightarrow> select_idle_state m d = C0"
    by (simp add: select_idle_state_def)
  ultimately show ?thesis using wf unfolding idle_wf_def by blast
qed

theorem idle_selection_witness:
  "let m = manager_idle_activity (idle_manager_init idle_manager_new) 7 ActInteractive 0
   in any_interactive (active_processes m) \<and> select_idle_state m 1000 = C2
     \<and> isi_available (available_states m ! idle_index (select_idle_state m 1000))"
  using idle_selection [OF idle_reach.active [OF idle_reach.created], of 7 ActInteractive 0 1000]
  by (simp add: Let_def manager_idle_activity_def any_interactive_def idle_manager_init_def idle_manager_new_def
      select_idle_state_def)

end
