(* ===== verification/Battery.thy ===== *)
theory Battery
  imports Cpu_Power
begin

text \<open>
  The battery monitor, from \<^verbatim>\<open>power/battery_monitor.rs\<close>. An index outside an array stops the
  kernel, and a callback that waits for a lock its caller holds never returns; both are outcomes
  of the model. Callbacks act on the rest of the kernel's state, whose type is a parameter of the
  monitor. The conversion of a discharge rate into minutes is floating-point arithmetic and
  a parameter: no run reaches it.
\<close>

section \<open>The monitor\<close>

datatype battery_event =
  LevelChanged u8 | ChargingStateChanged bool | CriticalLevel | LowLevel | FullyCharged
| BatteryPresenceChanged bool

record battery_config =
  critical_level :: u8
  low_level :: u8
  monitor_interval_ms :: u64
  auto_power_management :: bool

definition battery_config_default :: battery_config where
  "battery_config_default =
     \<lparr>critical_level = 5, low_level = 15, monitor_interval_ms = 5000, auto_power_management = True\<rparr>"

record 's battery_monitor =
  bat_info :: battery_info
  bat_config :: battery_config
  bat_last_update :: u64
  event_callbacks :: "(battery_event \<Rightarrow> 's \<Rightarrow> 's outcome) list"
  battery_present :: bool
  charging_history :: "bool list"
  level_history :: "u8 list"
  history_index :: nat

text \<open>The state of the simulated battery: its level, and whether it is charging.\<close>

type_synonym simulation = "u8 \<times> bool"

definition simulation_start :: simulation where
  "simulation_start = (100, False)"

definition battery_monitor_new :: "'s battery_monitor" where
  "battery_monitor_new =
     \<lparr>bat_info = \<lparr>level_percent = 100, is_charging = False, estimated_time_remaining = None\<rparr>,
      bat_config = battery_config_default, bat_last_update = 0, event_callbacks = [], battery_present = True,
      charging_history = replicate 10 False, level_history = replicate 20 100, history_index = 0\<rparr>"

definition estimate_charge_time :: "'s battery_monitor \<Rightarrow> u32 option" where
  "estimate_charge_time m =
     (if \<not> is_charging (bat_info m) then None
      else Some (ucast (100 - level_percent (bat_info m)) * 2))"

text \<open>The loop over the history: the sum of the falls of the level, and how many there were.\<close>

fun discharge_samples :: "'s battery_monitor \<Rightarrow> nat list \<Rightarrow> int \<times> nat \<Rightarrow> (int \<times> nat) outcome" where
  "discharge_samples m [] acc = Returns acc"
| "discharge_samples m (i # is) (tot, samples) =
     (let n = length (level_history m);
          prev_idx = (history_index m + n - i - 1) mod n;
          curr_idx = (history_index m + n - i) mod n in
      and_then (array_get (charging_history m) curr_idx) (\<lambda>charging.
        if charging then discharge_samples m is (tot, samples)
        else and_then (array_get (level_history m) prev_idx) (\<lambda>a.
          and_then (array_get (level_history m) curr_idx) (\<lambda>b.
            let change = uint a - uint b in
            if change > 0 then discharge_samples m is (tot + change, samples + 1)
            else discharge_samples m is (tot, samples)))))"

definition calculate_discharge_rate :: "'s battery_monitor \<Rightarrow> (int \<times> nat) outcome" where
  "calculate_discharge_rate m = discharge_samples m [1..<length (level_history m)] (0, 0)"

text \<open>\<open>minutes\<close> stands for the floating-point division of the level by the rate.\<close>

definition estimate_time_remaining ::
    "(u8 \<Rightarrow> u64 \<Rightarrow> int \<times> nat \<Rightarrow> u32 option) \<Rightarrow> 's battery_monitor \<Rightarrow> u32 option outcome" where
  "estimate_time_remaining minutes m =
     (if is_charging (bat_info m) then Returns (estimate_charge_time m)
      else and_then (calculate_discharge_rate m) (\<lambda>rate.
        Returns (minutes (level_percent (bat_info m)) (monitor_interval_ms (bat_config m)) rate)))"

fun simulate_step :: "simulation \<Rightarrow> simulation" where
  "simulate_step (level, charging) =
     (if charging then
        (let level = (if level < 100 then level + 1 else level) in
         (level, \<not> level \<ge> 100))
      else
        (let level = (if level > 0 then saturating_sub level 1 else level) in
         (level, level \<le> 20)))"

definition simulate_battery_behavior ::
    "(u8 \<Rightarrow> u64 \<Rightarrow> int \<times> nat \<Rightarrow> u32 option) \<Rightarrow> simulation \<Rightarrow> 's battery_monitor \<Rightarrow> ('s battery_monitor \<times> simulation) outcome" where
  "simulate_battery_behavior minutes sim m =
     (case simulate_step sim of (level, charging) \<Rightarrow>
        let m1 = m\<lparr>bat_info := (bat_info m)\<lparr>level_percent := level, is_charging := charging\<rparr>\<rparr> in
        and_then (estimate_time_remaining minutes m1) (\<lambda>est.
          Returns (m1\<lparr>bat_info := (bat_info m1)\<lparr>estimated_time_remaining := est\<rparr>\<rparr>, (level, charging))))"

definition battery_monitor_init ::
    "(u8 \<Rightarrow> u64 \<Rightarrow> int \<times> nat \<Rightarrow> u32 option) \<Rightarrow> simulation \<Rightarrow> 's battery_monitor \<Rightarrow> ('s battery_monitor \<times> simulation) outcome" where
  "battery_monitor_init minutes sim m = simulate_battery_behavior minutes sim (m\<lparr>battery_present := True\<rparr>)"

fun trigger_event :: "(battery_event \<Rightarrow> 's \<Rightarrow> 's outcome) list \<Rightarrow> battery_event \<Rightarrow> 's \<Rightarrow> 's outcome" where
  "trigger_event [] e st = Returns st"
| "trigger_event (c # cs) e st = and_then (c e st) (trigger_event cs e)"

text \<open>The events that \<^verbatim>\<open>check_for_events\<close> triggers, in order.\<close>

definition battery_events :: "battery_info \<Rightarrow> 's battery_monitor \<Rightarrow> battery_event list" where
  "battery_events old m =
     (let new = bat_info m in
      (if \<bar>uint (level_percent old) - uint (level_percent new)\<bar> \<ge> 5 then [LevelChanged (level_percent new)] else [])
      @ (if is_charging old \<noteq> is_charging new then [ChargingStateChanged (is_charging new)] else [])
      @ (if \<not> is_charging old \<and> level_percent new \<le> critical_level (bat_config m) then [CriticalLevel]
         else if \<not> is_charging old \<and> level_percent new \<le> low_level (bat_config m) then [LowLevel] else [])
      @ (if is_charging new \<and> level_percent new \<ge> 100 then [FullyCharged] else []))"

fun trigger_all :: "(battery_event \<Rightarrow> 's \<Rightarrow> 's outcome) list \<Rightarrow> battery_event list \<Rightarrow> 's \<Rightarrow> 's outcome" where
  "trigger_all cs [] st = Returns st"
| "trigger_all cs (e # es) st = and_then (trigger_event cs e st) (trigger_all cs es)"

definition check_for_events :: "battery_info \<Rightarrow> 's battery_monitor \<Rightarrow> 's \<Rightarrow> 's outcome" where
  "check_for_events old m st = trigger_all (event_callbacks m) (battery_events old m) st"

definition update_history :: "'s battery_monitor \<Rightarrow> 's battery_monitor" where
  "update_history m =
     m\<lparr>charging_history := (charging_history m)[history_index m mod length (charging_history m) := is_charging (bat_info m)],
       level_history := (level_history m)[history_index m mod length (level_history m) := level_percent (bat_info m)],
       history_index := history_index m + 1\<rparr>"

definition monitor_update ::
    "(u8 \<Rightarrow> u64 \<Rightarrow> int \<times> nat \<Rightarrow> u32 option) \<Rightarrow> u64 \<Rightarrow> simulation \<Rightarrow> 's battery_monitor \<Rightarrow> 's
      \<Rightarrow> ('s battery_monitor \<times> simulation \<times> 's) outcome" where
  "monitor_update minutes now sim m st =
     (if \<not> battery_present m then Returns (m, sim, st)
      else if saturating_sub now (bat_last_update m) \<ge> monitor_interval_ms (bat_config m) then
        and_then (simulate_battery_behavior minutes sim m) (\<lambda>(m1, sim').
          and_then (check_for_events (bat_info m) m1 st) (\<lambda>st'.
            Returns ((update_history m1)\<lparr>bat_last_update := now\<rparr>, sim', st')))
      else Returns (m, sim, st))"

definition monitor_battery_info :: "'s battery_monitor \<Rightarrow> (battery_info, power_error) result" where
  "monitor_battery_info m = (if \<not> battery_present m then Err BatteryUnavailable else Ok (bat_info m))"

definition monitor_set_config :: "battery_config \<Rightarrow> 's battery_monitor \<Rightarrow> 's battery_monitor" where
  "monitor_set_config c m = m\<lparr>bat_config := c\<rparr>"

definition monitor_get_config :: "'s battery_monitor \<Rightarrow> battery_config" where
  "monitor_get_config m = bat_config m"

definition monitor_recommended :: "'s battery_monitor \<Rightarrow> power_state" where
  "monitor_recommended m =
     (if \<not> battery_present m then StBalanced
      else if level_percent (bat_info m) \<le> critical_level (bat_config m) then StCritical
      else if level_percent (bat_info m) \<le> low_level (bat_config m) then StPowerSaver
      else if is_charging (bat_info m) then StPerformance
      else StBalanced)"

definition monitor_is_critical :: "'s battery_monitor \<Rightarrow> bool" where
  "monitor_is_critical m \<longleftrightarrow> battery_present m \<and> \<not> is_charging (bat_info m)
     \<and> level_percent (bat_info m) \<le> critical_level (bat_config m)"

definition monitor_is_low :: "'s battery_monitor \<Rightarrow> bool" where
  "monitor_is_low m \<longleftrightarrow> battery_present m \<and> \<not> is_charging (bat_info m)
     \<and> level_percent (bat_info m) \<le> low_level (bat_config m)"

section \<open>The global monitor\<close>

type_synonym 's battery_state = "'s battery_monitor option \<times> simulation"

definition battery_init ::
    "(u8 \<Rightarrow> u64 \<Rightarrow> int \<times> nat \<Rightarrow> u32 option) \<Rightarrow> 's battery_state \<Rightarrow> ((unit, power_error) result \<times> 's battery_state) outcome" where
  "battery_init minutes g =
     and_then (battery_monitor_init minutes (snd g) battery_monitor_new)
       (\<lambda>(m, sim). Returns (Ok (), (Some m, sim)))"

definition battery_update ::
    "(u8 \<Rightarrow> u64 \<Rightarrow> int \<times> nat \<Rightarrow> u32 option) \<Rightarrow> u64 \<Rightarrow> 's battery_state \<Rightarrow> 's
      \<Rightarrow> ((unit, power_error) result \<times> 's battery_state \<times> 's) outcome" where
  "battery_update minutes now g st =
     (case fst g of
        None \<Rightarrow> Returns (Err BatteryUnavailable, g, st)
      | Some m \<Rightarrow> and_then (monitor_update minutes now (snd g) m st)
          (\<lambda>(m', sim, st'). Returns (Ok (), (Some m', sim), st')))"

definition get_battery_info :: "'s battery_state \<Rightarrow> (battery_info, power_error) result" where
  "get_battery_info g = (case fst g of None \<Rightarrow> Err BatteryUnavailable | Some m \<Rightarrow> monitor_battery_info m)"

definition get_recommended_power_state :: "'s battery_state \<Rightarrow> power_state" where
  "get_recommended_power_state g = (case fst g of None \<Rightarrow> StBalanced | Some m \<Rightarrow> monitor_recommended m)"

definition register_callback :: "(battery_event \<Rightarrow> 's \<Rightarrow> 's outcome) \<Rightarrow> 's battery_state \<Rightarrow> 's battery_state" where
  "register_callback c g = map_prod (map_option (\<lambda>m. m\<lparr>event_callbacks := event_callbacks m @ [c]\<rparr>)) id g"

definition battery_is_critical :: "'s battery_state \<Rightarrow> bool" where
  "battery_is_critical g = (case fst g of None \<Rightarrow> False | Some m \<Rightarrow> monitor_is_critical m)"

definition battery_is_low :: "'s battery_state \<Rightarrow> bool" where
  "battery_is_low g = (case fst g of None \<Rightarrow> False | Some m \<Rightarrow> monitor_is_low m)"

section \<open>The history is read out of range\<close>

definition history_shape :: "'s battery_monitor \<Rightarrow> bool" where
  "history_shape m \<longleftrightarrow> length (charging_history m) = 10 \<and> length (level_history m) = 20"

text \<open>Once the loop reaches a step whose index is out of range, it panics.\<close>

lemma discharge_panics:
  assumes "i \<in> set is" "length (charging_history m) \<le> (history_index m + length (level_history m) - i) mod length (level_history m)"
  shows "discharge_samples m is acc = Panics"
  using assms(1)
proof (induction "is" arbitrary: acc)
  case Nil
  then show ?case by simp
next
  case (Cons j js)
  obtain tot samples where acc: "acc = (tot, samples)" by fastforce
  show ?case
  proof (cases "i = j")
    case True
    then show ?thesis using assms(2) by (simp add: acc Let_def array_get_out)
  next
    case False
    with Cons show ?thesis by (simp add: acc Let_def array_get_def)
  qed
qed

lemma discharge_rate_panics:
  assumes "history_shape m"
  shows "calculate_discharge_rate m = Panics"
proof -
  define r where "r = history_index m mod 20"
  define i where "i = (if r \<le> 10 then Suc r else r - 10)"
  have "r < 20" by (simp add: r_def)
  then have "i \<in> set [1..<20]" by (auto simp: i_def)
  moreover have "(history_index m + 20 - i) mod 20 \<ge> 10"
  proof -
    have "history_index m = 20 * (history_index m div 20) + r" by (simp add: r_def)
    then obtain q where h: "history_index m = 20 * q + r" by blast
    have "history_index m + 20 - i = (if r \<le> 10 then 20 * q + 19 else 20 * Suc q + 10)"
      using h \<open>r < 20\<close> by (auto simp: i_def)
    then show ?thesis by (cases "r \<le> 10") (simp_all add: mod_mult_self4 del: mult_Suc_right)
  qed
  ultimately show ?thesis
    using assms by (auto simp: calculate_discharge_rate_def history_shape_def intro: discharge_panics)
qed

lemma estimate_panics:
  assumes "history_shape m" "\<not> is_charging (bat_info m)"
  shows "estimate_time_remaining minutes m = Panics"
  using assms by (simp add: estimate_time_remaining_def discharge_rate_panics)

lemma simulate_panics:
  assumes "history_shape m" "\<not> snd (simulate_step sim)"
  shows "simulate_battery_behavior minutes sim m = Panics"
proof -
  obtain level charging where s: "simulate_step sim = (level, charging)" by fastforce
  with assms show ?thesis
    by (simp add: simulate_battery_behavior_def Let_def estimate_panics history_shape_def)
qed

section \<open>Properties\<close>

text \<open>
  C36: the battery monitor cannot be started. Initialising it, as the boot sequence does, estimates
  the remaining time of a battery that is not charging, and the estimate reads the ten entries
  of the charging history with indices up to nineteen: the kernel panics. The same happens at
  every later update that finds the battery discharging.
\<close>

theorem battery_start_panics:
  fixes m :: "'s battery_monitor"
  assumes "history_shape m" "battery_present m" "\<not> snd (simulate_step sim)"
    "saturating_sub now (bat_last_update m) \<ge> monitor_interval_ms (bat_config m)"
  shows "battery_init minutes (b :: 's battery_monitor option, simulation_start) = Panics \<and> battery_update minutes now (Some m, sim) st = Panics"
proof
  have "history_shape (battery_monitor_new :: 's battery_monitor)" by (simp add: history_shape_def battery_monitor_new_def)
  then have "simulate_battery_behavior minutes simulation_start ((battery_monitor_new :: 's battery_monitor)\<lparr>battery_present := True\<rparr>) = Panics"
    by (intro simulate_panics) (simp_all add: history_shape_def simulation_start_def saturating_sub_def)
  then show "battery_init minutes (b, simulation_start) = Panics"
    by (simp add: battery_init_def battery_monitor_init_def)
  show "battery_update minutes now (Some m, sim) st = Panics"
    using assms by (simp add: battery_update_def monitor_update_def simulate_panics)
qed

theorem battery_start_panics_witness:
  "battery_init (\<lambda>_ _ _. None) (None :: unit battery_monitor option, simulation_start) = Panics
   \<and> battery_update (\<lambda>_ _ _. None) 5000 (Some battery_monitor_new, (50, False)) () = Panics"
proof (rule battery_start_panics)
  show "history_shape battery_monitor_new" by (simp add: history_shape_def battery_monitor_new_def)
qed (simp_all add: battery_monitor_new_def battery_config_default_def saturating_sub_def)

end
