(* ===== verification/Responsiveness.thy ===== *)
theory Responsiveness
  imports Cpu_Power
begin

text \<open>
  The responsiveness optimiser, from \<^verbatim>\<open>power/responsiveness.rs\<close>: touch events, the boosts of
  interactive processes and the throttling of the others. The multipliers of time slices are
  floating-point numbers that only the adaptive time slice uses; they are left out with it. The
  maps keyed by processes are association lists: the sources iterate over them only to apply
  changes to one key at a time.
\<close>

section \<open>Touch events\<close>

datatype swipe_direction = SwipeUp | SwipeDown | SwipeLeft | SwipeRight

datatype gesture_type = Pinch | Swipe swipe_direction | Tap | LongPress

datatype touch_event = TouchDown u16 u16 | TouchMove u16 u16 | TouchUp u16 u16 | Gesture gesture_type

section \<open>Configuration\<close>

record interactive_boost_config =
  boost_duration_ms :: u64
  cpu_boost_percent :: u8
  priority_boost_levels :: u8

definition interactive_boost_default :: interactive_boost_config where
  "interactive_boost_default = \<lparr>boost_duration_ms = 100, cpu_boost_percent = 20, priority_boost_levels = 1\<rparr>"

record touch_latency_config =
  max_latency_us :: u32
  polling_rate_hz :: u32
  enable_prediction :: bool
  prediction_lookahead_ms :: u8

definition touch_latency_default :: touch_latency_config where
  "touch_latency_default =
     \<lparr>max_latency_us = 16000, polling_rate_hz = 120, enable_prediction = True, prediction_lookahead_ms = 8\<rparr>"

record adaptive_scheduling_config =
  base_time_slice_ms :: u64
  min_time_slice_ms :: u64
  max_time_slice_ms :: u64
  load_threshold_percent :: u8
  interactive_window_ms :: u64

definition adaptive_scheduling_default :: adaptive_scheduling_config where
  "adaptive_scheduling_default =
     \<lparr>base_time_slice_ms = 10, min_time_slice_ms = 1, max_time_slice_ms = 50, load_threshold_percent = 70,
      interactive_window_ms = 500\<rparr>"

record throttling_config =
  enable_throttling :: bool
  cpu_threshold_percent :: u8
  memory_threshold_percent :: u8
  min_throttled_time_slice_ms :: u64

definition throttling_default :: throttling_config where
  "throttling_default =
     \<lparr>enable_throttling = True, cpu_threshold_percent = 80, memory_threshold_percent = 85,
      min_throttled_time_slice_ms = 1\<rparr>"

section \<open>The optimiser\<close>

record process_interaction =
  last_interactive_time :: u64
  interaction_count :: u32
  touch_events_handled :: u32
  average_response_time_us :: u32

record responsiveness_optimizer =
  ro_boost_config :: interactive_boost_config
  ro_touch_config :: touch_latency_config
  ro_adaptive_config :: adaptive_scheduling_config
  ro_throttling_config :: throttling_config
  process_interactions :: "(process_id \<times> process_interaction) list"
  interactive_processes :: "(process_id \<times> u64) list"
  touch_input_queue :: "(touch_event \<times> u64) list"
  system_load_percent :: u8
  memory_usage_percent :: u8
  ro_last_update :: u64

definition optimizer_new :: responsiveness_optimizer where
  "optimizer_new =
     \<lparr>ro_boost_config = interactive_boost_default, ro_touch_config = touch_latency_default,
      ro_adaptive_config = adaptive_scheduling_default, ro_throttling_config = throttling_default,
      process_interactions = [], interactive_processes = [], touch_input_queue = [], system_load_percent = 0,
      memory_usage_percent = 0, ro_last_update = 0\<rparr>"

definition update_process_interaction ::
    "responsiveness_optimizer \<Rightarrow> process_id \<Rightarrow> u64 \<Rightarrow> responsiveness_optimizer" where
  "update_process_interaction m p now =
     (let i = (case map_of (process_interactions m) p of
                 Some i \<Rightarrow> i
               | None \<Rightarrow> \<lparr>last_interactive_time = now, interaction_count = 0, touch_events_handled = 0,
                           average_response_time_us = 0\<rparr>) in
      m\<lparr>process_interactions := AList.update p
          (i\<lparr>last_interactive_time := now, interaction_count := interaction_count i + 1,
             touch_events_handled := touch_events_handled i + 1\<rparr>) (process_interactions m)\<rparr>)"

definition boost_process_for_touch ::
    "responsiveness_optimizer \<Rightarrow> process_id \<Rightarrow> u64 \<Rightarrow> responsiveness_optimizer" where
  "boost_process_for_touch m p now =
     m\<lparr>interactive_processes :=
         AList.update p (now + boost_duration_ms (ro_boost_config m)) (interactive_processes m)\<rparr>"

definition trigger_interactive_boost :: "responsiveness_optimizer \<Rightarrow> u64 \<Rightarrow> responsiveness_optimizer" where
  "trigger_interactive_boost m now =
     (let boost_end = now + boost_duration_ms (ro_boost_config m) in
      m\<lparr>interactive_processes := fold (\<lambda>(p, i) bs.
          if saturating_sub now (last_interactive_time i) < boost_duration_ms (ro_boost_config m)
          then AList.update p boost_end bs else bs) (process_interactions m) (interactive_processes m)\<rparr>)"

definition find_touch_handlers :: "responsiveness_optimizer \<Rightarrow> process_id list" where
  "find_touch_handlers m = map fst (interactive_processes m)"

definition process_touch_event_immediate ::
    "responsiveness_optimizer \<Rightarrow> touch_event \<Rightarrow> u64 \<Rightarrow> responsiveness_optimizer" where
  "process_touch_event_immediate m ev now =
     fold (\<lambda>p m. update_process_interaction (boost_process_for_touch m p now) p now) (find_touch_handlers m) m"

definition optimizer_touch_event ::
    "responsiveness_optimizer \<Rightarrow> touch_event \<Rightarrow> u64 \<Rightarrow> responsiveness_optimizer" where
  "optimizer_touch_event m ev now =
     (let q = touch_input_queue m @ [(ev, now)];
          m1 = m\<lparr>touch_input_queue := (if length q > 100 then tl q else q)\<rparr> in
      process_touch_event_immediate (trigger_interactive_boost m1 now) ev now)"

definition optimizer_should_throttle :: "responsiveness_optimizer \<Rightarrow> process_id \<Rightarrow> bool" where
  "optimizer_should_throttle m p =
     (if \<not> enable_throttling (ro_throttling_config m) then False
      else if map_of (interactive_processes m) p \<noteq> None then False
      else if system_load_percent m < cpu_threshold_percent (ro_throttling_config m)
           \<and> memory_usage_percent m < memory_threshold_percent (ro_throttling_config m) then False
      else (case map_of (process_interactions m) p of
              Some i \<Rightarrow> interaction_count i < 5
            | None \<Rightarrow> True))"

definition optimizer_update_metrics ::
    "responsiveness_optimizer \<Rightarrow> u8 \<Rightarrow> u8 \<Rightarrow> u64 \<Rightarrow> responsiveness_optimizer" where
  "optimizer_update_metrics m load mem now =
     m\<lparr>system_load_percent := load, memory_usage_percent := mem, ro_last_update := now,
       interactive_processes := filter (\<lambda>(p, boost_end). now < boost_end) (interactive_processes m)\<rparr>"

definition optimizer_notify_activity ::
    "responsiveness_optimizer \<Rightarrow> process_id \<Rightarrow> process_activity \<Rightarrow> u64 \<Rightarrow> responsiveness_optimizer" where
  "optimizer_notify_activity m p act now =
     (case act of
        ActInteractive \<Rightarrow>
          (let m1 = update_process_interaction m p now in
           m1\<lparr>interactive_processes :=
                AList.update p (now + boost_duration_ms (ro_boost_config m1)) (interactive_processes m1)\<rparr>)
      | _ \<Rightarrow>
          (case map_of (process_interactions m) p of
             Some i \<Rightarrow> m\<lparr>process_interactions :=
               AList.update p (i\<lparr>interaction_count := saturating_sub (interaction_count i) 1\<rparr>) (process_interactions m)\<rparr>
           | None \<Rightarrow> m))"

definition calculate_average_response_time :: "responsiveness_optimizer \<Rightarrow> u32" where
  "calculate_average_response_time m =
     (if process_interactions m = [] then 0
      else sum_list (map (\<lambda>(p, i). average_response_time_us i) (process_interactions m))
             div of_nat (length (process_interactions m)))"

definition count_throttled_processes :: "responsiveness_optimizer \<Rightarrow> nat" where
  "count_throttled_processes m =
     length (filter (\<lambda>(p, i). optimizer_should_throttle m p) (process_interactions m))"

record responsiveness_stats =
  rs_interactive_processes_count :: nat
  rs_tracked_processes_count :: nat
  rs_average_response_time_us :: u32
  rs_system_load_percent :: u8
  rs_memory_usage_percent :: u8
  rs_touch_events_queued :: nat
  rs_throttled_processes_count :: nat

definition optimizer_statistics :: "responsiveness_optimizer \<Rightarrow> responsiveness_stats" where
  "optimizer_statistics m =
     \<lparr>rs_interactive_processes_count = length (interactive_processes m),
      rs_tracked_processes_count = length (process_interactions m),
      rs_average_response_time_us = calculate_average_response_time m,
      rs_system_load_percent = system_load_percent m, rs_memory_usage_percent = memory_usage_percent m,
      rs_touch_events_queued = length (touch_input_queue m),
      rs_throttled_processes_count = count_throttled_processes m\<rparr>"

section \<open>The global optimiser\<close>

type_synonym responsiveness_state = "responsiveness_optimizer option"

definition responsiveness_init :: responsiveness_state where
  "responsiveness_init = Some optimizer_new"

definition handle_touch_event ::
    "responsiveness_state \<Rightarrow> touch_event \<Rightarrow> u64 \<Rightarrow> (unit, power_error) result \<times> responsiveness_state" where
  "handle_touch_event g ev now =
     (case g of Some m \<Rightarrow> (Ok (), Some (optimizer_touch_event m ev now)) | None \<Rightarrow> (Err PowNotSupported, None))"

definition should_throttle_process :: "responsiveness_state \<Rightarrow> process_id \<Rightarrow> bool" where
  "should_throttle_process g p = (case g of Some m \<Rightarrow> optimizer_should_throttle m p | None \<Rightarrow> False)"

definition update_system_metrics :: "responsiveness_state \<Rightarrow> u8 \<Rightarrow> u8 \<Rightarrow> u64 \<Rightarrow> responsiveness_state" where
  "update_system_metrics g load mem now = map_option (\<lambda>m. optimizer_update_metrics m load mem now) g"

definition responsiveness_notify ::
    "responsiveness_state \<Rightarrow> process_id \<Rightarrow> process_activity \<Rightarrow> u64 \<Rightarrow> responsiveness_state" where
  "responsiveness_notify g p act now = map_option (\<lambda>m. optimizer_notify_activity m p act now) g"

definition responsiveness_statistics :: "responsiveness_state \<Rightarrow> responsiveness_stats option" where
  "responsiveness_statistics g = map_option optimizer_statistics g"

section \<open>Runs\<close>

inductive optimizer_reach :: "responsiveness_optimizer \<Rightarrow> bool" where
  created: "optimizer_reach optimizer_new"
| touched: "optimizer_reach m \<Longrightarrow> optimizer_reach (optimizer_touch_event m ev now)"
| measured: "optimizer_reach m \<Longrightarrow> optimizer_reach (optimizer_update_metrics m load mem now)"
| notified: "optimizer_reach m \<Longrightarrow> optimizer_reach (optimizer_notify_activity m p act now)"

definition optimizer_wf :: "responsiveness_optimizer \<Rightarrow> bool" where
  "optimizer_wf m \<longleftrightarrow> length (touch_input_queue m) \<le> 100
     \<and> fst ` set (interactive_processes m) \<subseteq> fst ` set (process_interactions m)
     \<and> distinct (map fst (process_interactions m)) \<and> distinct (map fst (interactive_processes m))
     \<and> ro_boost_config m = interactive_boost_default \<and> ro_throttling_config m = throttling_default"

section \<open>Invariant\<close>

lemma keys_update: "fst ` set (AList.update k v al) = insert k (fst ` set al)"
  by (metis dom_map_of_conv_image_fst dom_fun_upd option.distinct(1) update_conv')

lemma interaction_keys:
  "fst ` set (process_interactions (update_process_interaction m p now)) = insert p (fst ` set (process_interactions m))"
  by (simp add: update_process_interaction_def Let_def keys_update)

lemma interaction_frame [frame_simps]:
  "interactive_processes (update_process_interaction m p now) = interactive_processes m"
  "touch_input_queue (update_process_interaction m p now) = touch_input_queue m"
  "ro_boost_config (update_process_interaction m p now) = ro_boost_config m"
  "ro_throttling_config (update_process_interaction m p now) = ro_throttling_config m"
  "system_load_percent (update_process_interaction m p now) = system_load_percent m"
  "memory_usage_percent (update_process_interaction m p now) = memory_usage_percent m"
  by (simp_all add: update_process_interaction_def Let_def)

lemma interaction_wf: "optimizer_wf m \<Longrightarrow> optimizer_wf (update_process_interaction m p now)"
  by (auto simp: optimizer_wf_def frame_simps interaction_keys)
    (simp add: update_process_interaction_def Let_def distinct_update)

lemma boost_wf:
  assumes "optimizer_wf m" "p \<in> fst ` set (process_interactions m)"
  shows "optimizer_wf (m\<lparr>interactive_processes := AList.update p t (interactive_processes m)\<rparr>)"
  using assms by (auto simp: optimizer_wf_def keys_update distinct_update)

text \<open>Steps of the optimiser at times from \<open>lo\<close> up to but not including \<open>hi\<close>.\<close>

inductive optimizer_steps ::
    "u64 \<Rightarrow> u64 \<Rightarrow> responsiveness_optimizer \<Rightarrow> responsiveness_optimizer \<Rightarrow> bool" for lo hi m where
  none: "optimizer_steps lo hi m m"
| touched: "optimizer_steps lo hi m m' \<Longrightarrow> lo \<le> t \<Longrightarrow> t < hi \<Longrightarrow>
     optimizer_steps lo hi m (optimizer_touch_event m' ev t)"
| measured: "optimizer_steps lo hi m m' \<Longrightarrow> lo \<le> t \<Longrightarrow> t < hi \<Longrightarrow>
     optimizer_steps lo hi m (optimizer_update_metrics m' load mem t)"
| notified: "optimizer_steps lo hi m m' \<Longrightarrow> lo \<le> t \<Longrightarrow> t < hi \<Longrightarrow>
     optimizer_steps lo hi m (optimizer_notify_activity m' q act t)"

definition boosted :: "u64 \<Rightarrow> process_id \<Rightarrow> responsiveness_optimizer \<Rightarrow> bool" where
  "boosted e p m \<longleftrightarrow> ro_boost_config m = interactive_boost_default
     \<and> (\<exists>e'. map_of (interactive_processes m) p = Some e' \<and> e \<le> e')"

lemma trigger_frame [frame_simps]:
  "process_interactions (trigger_interactive_boost m now) = process_interactions m"
  "touch_input_queue (trigger_interactive_boost m now) = touch_input_queue m"
  "ro_boost_config (trigger_interactive_boost m now) = ro_boost_config m"
  "ro_throttling_config (trigger_interactive_boost m now) = ro_throttling_config m"
  by (simp_all add: trigger_interactive_boost_def Let_def)

lemma boost_frame [frame_simps]:
  "process_interactions (boost_process_for_touch m p now) = process_interactions m"
  "touch_input_queue (boost_process_for_touch m p now) = touch_input_queue m"
  "ro_boost_config (boost_process_for_touch m p now) = ro_boost_config m"
  "ro_throttling_config (boost_process_for_touch m p now) = ro_throttling_config m"
  by (simp_all add: boost_process_for_touch_def)

lemma trigger_wf:
  assumes "optimizer_wf m"
  shows "optimizer_wf (trigger_interactive_boost m now)"
proof -
  have keys: "fst ` set (fold (\<lambda>(p, i) bs. if P i then AList.update p e bs else bs) xs bs) \<subseteq> fst ` set bs \<union> fst ` set xs"
    "distinct (map fst bs) \<Longrightarrow> distinct (map fst (fold (\<lambda>(p, i) bs. if P i then AList.update p e bs else bs) xs bs))"
    for P and e :: u64 and xs :: "(process_id \<times> process_interaction) list" and bs
  proof (induction xs arbitrary: bs)
    case (Cons x xs)
    case 1
    from Cons.IH(1) [of "if P (snd x) then AList.update (fst x) e bs else bs"] show ?case
      by (cases x) (auto simp: keys_update split: if_splits)
    case 2
    with Cons.IH(2) [of "if P (snd x) then AList.update (fst x) e bs else bs"] show ?case
      by (cases x; cases "P (snd x)") (simp_all add: distinct_update)
  qed simp_all
  let ?b = "interactive_processes (trigger_interactive_boost m now)"
  have "fst ` set ?b \<subseteq> fst ` set (interactive_processes m) \<union> fst ` set (process_interactions m)"
    unfolding trigger_interactive_boost_def Let_def by (simp add: keys(1))
  moreover have "distinct (map fst ?b)"
    unfolding trigger_interactive_boost_def Let_def using assms by (simp add: keys(2) optimizer_wf_def)
  ultimately show ?thesis using assms unfolding optimizer_wf_def frame_simps by blast
qed

lemma touch_wf:
  assumes "optimizer_wf m"
  shows "optimizer_wf (optimizer_touch_event m ev now)"
proof -
  define m1 where "m1 = m\<lparr>touch_input_queue := (let q = touch_input_queue m @ [(ev, now)] in if length q > 100 then tl q else q)\<rparr>"
  have "optimizer_wf m1" using assms by (auto simp: m1_def optimizer_wf_def Let_def)
  then have wf: "optimizer_wf (trigger_interactive_boost m1 now)" by (rule trigger_wf)
  have "optimizer_wf (fold (\<lambda>p m. update_process_interaction (boost_process_for_touch m p now) p now) ps m2)"
    if "optimizer_wf m2" "set ps \<subseteq> fst ` set (process_interactions m2)" for ps m2
    using that
  proof (induction ps arbitrary: m2)
    case Nil
    then show ?case by simp
  next
    case (Cons p ps)
    then have "optimizer_wf (update_process_interaction (boost_process_for_touch m2 p now) p now)"
      by (intro interaction_wf) (simp add: boost_process_for_touch_def boost_wf)
    moreover have "set ps \<subseteq> fst ` set (process_interactions (update_process_interaction (boost_process_for_touch m2 p now) p now))"
      using Cons.prems(2) by (auto simp: interaction_keys frame_simps)
    ultimately show ?case using Cons.IH by simp
  qed
  from this [OF wf, of "find_touch_handlers (trigger_interactive_boost m1 now)"] wf
  have "optimizer_wf (process_touch_event_immediate (trigger_interactive_boost m1 now) ev now)"
    by (auto simp: process_touch_event_immediate_def find_touch_handlers_def optimizer_wf_def)
  then show ?thesis by (simp add: optimizer_touch_event_def m1_def Let_def)
qed

lemma notify_wf:
  assumes "optimizer_wf m"
  shows "optimizer_wf (optimizer_notify_activity m p act now)"
proof (cases "act = ActInteractive")
  case True
  have "optimizer_wf (update_process_interaction m p now)" by (rule interaction_wf [OF assms])
  then show ?thesis
    using True by (simp add: optimizer_notify_activity_def Let_def boost_wf interaction_keys)
next
  case False
  then have "optimizer_notify_activity m p act now =
      (case map_of (process_interactions m) p of
         Some i \<Rightarrow> m\<lparr>process_interactions :=
           AList.update p (i\<lparr>interaction_count := saturating_sub (interaction_count i) 1\<rparr>) (process_interactions m)\<rparr>
       | None \<Rightarrow> m)" by (cases act) (auto simp: optimizer_notify_activity_def)
  with assms show ?thesis
    by (auto simp: optimizer_wf_def keys_update distinct_update split: option.splits)
qed

lemma metrics_wf:
  assumes "optimizer_wf m"
  shows "optimizer_wf (optimizer_update_metrics m load mem now)"
  using assms by (auto simp: optimizer_wf_def optimizer_update_metrics_def distinct_map_filter)

lemma optimizer_reach_wf: "optimizer_reach m \<Longrightarrow> optimizer_wf m"
proof (induction rule: optimizer_reach.induct)
  case created
  then show ?case by (simp add: optimizer_wf_def optimizer_new_def)
qed (simp_all add: touch_wf metrics_wf notify_wf)

section \<open>Boosts\<close>

lemma boosted_interaction: "boosted e p (update_process_interaction m q now) = boosted e p m"
  by (simp add: boosted_def frame_simps)

lemma boosted_update:
  assumes "boosted e p m" "e \<le> v"
  shows "boosted e p (m\<lparr>interactive_processes := AList.update q v (interactive_processes m)\<rparr>)"
  using assms by (auto simp: boosted_def update_conv')

lemma boosted_touch:
  assumes b: "boosted e p m" and v: "e \<le> t + 100"
  shows "boosted e p (optimizer_touch_event m ev t)"
proof -
  define m1 where "m1 = m\<lparr>touch_input_queue := (let q = touch_input_queue m @ [(ev, t)] in if length q > 100 then tl q else q)\<rparr>"
  have "boosted e p m1" using b by (simp add: boosted_def m1_def)
  moreover have "\<exists>e'. map_of (fold (\<lambda>(q, i) bs. if P i then AList.update q (t + 100) bs else bs) xs bs) p = Some e' \<and> e \<le> e'"
    if "\<exists>e'. map_of bs p = Some e' \<and> e \<le> e'" for P and xs :: "(process_id \<times> process_interaction) list" and bs
    using that
  proof (induction xs arbitrary: bs)
    case Nil
    then show ?case by simp
  next
    case (Cons x xs)
    show ?case
      using Cons.IH [of "if P (snd x) then AList.update (fst x) (t + 100) bs else bs"] Cons.prems v
      by (cases x) (auto simp: update_conv' split: if_splits)
  qed
  ultimately have t: "boosted e p (trigger_interactive_boost m1 t)"
    by (simp add: boosted_def trigger_interactive_boost_def Let_def interactive_boost_default_def)
  have "boosted e p (fold (\<lambda>q m. update_process_interaction (boost_process_for_touch m q t) q t) ps m2)"
    if "boosted e p m2" for ps m2
    using that
  proof (induction ps arbitrary: m2)
    case Nil
    then show ?case by simp
  next
    case (Cons q ps)
    have "boosted e p (boost_process_for_touch m2 q t)"
      using Cons.prems v boosted_update [of e p m2 "t + 100" q]
      by (simp add: boost_process_for_touch_def) (simp add: boosted_def interactive_boost_default_def)
    with Cons show ?case by (simp add: boosted_interaction)
  qed
  with t show ?thesis
    by (simp add: optimizer_touch_event_def process_touch_event_immediate_def m1_def Let_def)
qed

lemma boosted_notify:
  assumes "boosted e p m" "e \<le> t + 100"
  shows "boosted e p (optimizer_notify_activity m q act t)"
proof (cases "act = ActInteractive")
  case True
  have "boosted e p (update_process_interaction m q t)" using assms(1) by (simp add: boosted_interaction)
  from boosted_update [OF this assms(2), of q] have "boosted e p (update_process_interaction m q t
      \<lparr>interactive_processes := AList.update q (t + 100) (interactive_processes m)\<rparr>)" by (simp add: frame_simps)
  moreover have "boost_duration_ms (ro_boost_config m) = 100"
    using assms(1) by (simp add: boosted_def interactive_boost_default_def)
  ultimately show ?thesis
    using True by (simp add: optimizer_notify_activity_def Let_def frame_simps)
next
  case False
  then show ?thesis
    using assms(1) by (cases act) (auto simp: optimizer_notify_activity_def boosted_def split: option.splits)
qed

lemma boosted_metrics:
  assumes "boosted e p m" "t < e" "distinct (map fst (interactive_processes m))"
  shows "boosted e p (optimizer_update_metrics m load mem t)"
proof -
  obtain e' where e': "map_of (interactive_processes m) p = Some e'" "e \<le> e'" using assms(1) by (auto simp: boosted_def)
  then have "(p, e') \<in> set (filter (\<lambda>(p, b). t < b) (interactive_processes m))"
    using assms(2) by (auto dest: map_of_SomeD)
  moreover have "distinct (map fst (filter (\<lambda>(p, b). t < b) (interactive_processes m)))"
    using assms(3) by (rule distinct_map_filter)
  ultimately have "map_of (filter (\<lambda>(p, b). t < b) (interactive_processes m)) p = Some e'"
    by (intro map_of_is_SomeI)
  with e' assms(1) show ?thesis by (simp add: boosted_def optimizer_update_metrics_def)
qed

lemma boosted_not_throttled: "boosted e p m \<Longrightarrow> \<not> optimizer_should_throttle m p"
  by (auto simp: boosted_def optimizer_should_throttle_def)

lemma later_plus:
  assumes "unat (now :: u64) + 200 < 2 ^ 64" "now \<le> t" "t < now + 100"
  shows "now + 100 \<le> t + 100"
  using assms by (simp add: word_le_nat_alt word_less_nat_alt unat_word_ariths)

section \<open>Properties\<close>

text \<open>
  An interactive process stays responsive. Once a process is reported as interactive, it is
  not throttled for the duration of its boost, whatever touch events, activities and load
  measurements follow in that time.
\<close>

theorem interactive_not_throttled:
  assumes "optimizer_reach m" "unat now + 200 < 2 ^ 64"
    "optimizer_steps now (now + 100) (optimizer_notify_activity m p ActInteractive now) m'"
  shows "\<not> optimizer_should_throttle m' p \<and> length (touch_input_queue m') \<le> 100"
proof -
  have wf0: "optimizer_wf m" by (rule optimizer_reach_wf [OF assms(1)])
  have "boosted (now + 100) p m' \<and> optimizer_wf m'"
    using assms(3)
  proof induction
    case none
    have "optimizer_wf (optimizer_notify_activity m p ActInteractive now)" by (rule notify_wf [OF wf0])
    moreover have "boosted (now + 100) p (optimizer_notify_activity m p ActInteractive now)"
      using wf0 by (simp add: boosted_def optimizer_notify_activity_def Let_def optimizer_wf_def frame_simps
          interactive_boost_default_def update_conv')
    ultimately show ?case by blast
  next
    case (touched m' t ev)
    then show ?case using later_plus [OF assms(2)] by (simp add: boosted_touch touch_wf)
  next
    case (measured m' t load mem)
    then have "boosted (now + 100) p m'" "optimizer_wf m'" by blast+
    moreover from this have "distinct (map fst (interactive_processes m'))" by (simp add: optimizer_wf_def)
    ultimately show ?case using measured.hyps by (simp add: boosted_metrics metrics_wf)
  next
    case (notified m' t q act)
    then show ?case using later_plus [OF assms(2)] by (simp add: boosted_notify notify_wf)
  qed
  then show ?thesis using boosted_not_throttled unfolding optimizer_wf_def by blast
qed

theorem interactive_not_throttled_witness:
  "\<not> optimizer_should_throttle
       (optimizer_update_metrics (optimizer_notify_activity optimizer_new 5 ActInteractive 1000) 99 99 1050) 5
   \<and> optimizer_should_throttle
       (optimizer_update_metrics (optimizer_notify_activity optimizer_new 5 ActInteractive 1000) 99 99 1050) 6"
proof
  have "optimizer_steps 1000 (1000 + 100) (optimizer_notify_activity optimizer_new 5 ActInteractive 1000)
      (optimizer_update_metrics (optimizer_notify_activity optimizer_new 5 ActInteractive 1000) 99 99 1050)"
    by (rule optimizer_steps.measured [OF optimizer_steps.none]) simp_all
  from interactive_not_throttled [OF optimizer_reach.created _ this]
  show "\<not> optimizer_should_throttle
       (optimizer_update_metrics (optimizer_notify_activity optimizer_new 5 ActInteractive 1000) 99 99 1050) 5" by simp
qed (simp add: optimizer_should_throttle_def optimizer_update_metrics_def optimizer_notify_activity_def
    update_process_interaction_def optimizer_new_def throttling_default_def interactive_boost_default_def Let_def)

end
