(* ===== verification/Power_Policy.thy ===== *)
theory Power_Policy
  imports Battery Responsiveness
begin

text \<open>
  The power policy, from \<^verbatim>\<open>power/power_policy.rs\<close>: the power states and the scheduling policies
  they select, the classes of processes and the priorities that follow from both, and the
  periodic update, which reads the battery. The policy lives behind a lock; the handler of
  battery events takes it too. The multipliers of time slices are floating-point numbers and are
  left out.
\<close>

section \<open>Policies and classes\<close>

datatype scheduling_policy = PolPerformance | PolBalanced | PolPowerSaver | PolInteractive | PolCritical

datatype process_power_class = ClassCritical | ClassInteractive | ClassBackground | ClassBatch

record power_policy =
  pp_state :: power_state
  pp_policy :: scheduling_policy
  process_classifications :: "(process_id \<times> process_power_class) list"
  pp_boost_active :: bool
  pp_boost_end :: u64
  last_policy_update :: u64
  policy_update_interval :: u64
  thermal_throttling_active :: bool

definition power_policy_new :: power_policy where
  "power_policy_new =
     \<lparr>pp_state = StBalanced, pp_policy = PolBalanced, process_classifications = [], pp_boost_active = False,
      pp_boost_end = 0, last_policy_update = 0, policy_update_interval = 1000, thermal_throttling_active = False\<rparr>"

fun policy_of_state :: "power_state \<Rightarrow> scheduling_policy" where
  "policy_of_state StPerformance = PolPerformance"
| "policy_of_state StBalanced = PolBalanced"
| "policy_of_state StPowerSaver = PolPowerSaver"
| "policy_of_state StCritical = PolCritical"

fun governor_of_state :: "power_state \<Rightarrow> cpu_governor" where
  "governor_of_state StPerformance = GovPerformance"
| "governor_of_state StBalanced = GovInteractive"
| "governor_of_state StPowerSaver = GovPowerSave"
| "governor_of_state StCritical = GovPowerSave"

definition manager_set_power_state ::
    "power_policy \<Rightarrow> cpu_state \<Rightarrow> power_state \<Rightarrow> (unit, power_error) result \<times> power_policy \<times> cpu_state" where
  "manager_set_power_state m cpu s =
     (if s = pp_state m then (Ok (), m, cpu)
      else let m1 = m\<lparr>pp_state := s, pp_policy := policy_of_state s\<rparr> in
        case cpu_set_governor cpu (governor_of_state s) of (r, cpu') \<Rightarrow> (r, m1, cpu'))"

definition manager_classify_process :: "power_policy \<Rightarrow> process_id \<Rightarrow> process_power_class \<Rightarrow> power_policy" where
  "manager_classify_process m p c =
     m\<lparr>process_classifications := AList.update p c (process_classifications m)\<rparr>"

definition class_of :: "power_policy \<Rightarrow> process_id \<Rightarrow> process_power_class" where
  "class_of m p = (case map_of (process_classifications m) p of Some c \<Rightarrow> c | None \<Rightarrow> ClassBackground)"

definition manager_power_aware_priority :: "power_policy \<Rightarrow> process_id \<Rightarrow> process_priority \<Rightarrow> process_priority" where
  "manager_power_aware_priority m p base =
     (case pp_policy m of
        PolPerformance \<Rightarrow> base
      | PolInteractive \<Rightarrow>
          (case class_of m p of
             ClassInteractive \<Rightarrow> boost base 2
           | ClassCritical \<Rightarrow> base
           | _ \<Rightarrow> reduce base 1)
      | PolBalanced \<Rightarrow>
          (case class_of m p of
             ClassCritical \<Rightarrow> base
           | ClassInteractive \<Rightarrow> (if pp_boost_active m then boost base 1 else base)
           | ClassBackground \<Rightarrow> reduce base 1
           | ClassBatch \<Rightarrow> reduce base 2)
      | _ \<Rightarrow>
          (case class_of m p of
             ClassCritical \<Rightarrow> base
           | ClassInteractive \<Rightarrow> reduce base 1
           | ClassBackground \<Rightarrow> reduce base 2
           | ClassBatch \<Rightarrow> reduce base 3))"

definition manager_should_throttle :: "power_policy \<Rightarrow> process_id \<Rightarrow> bool" where
  "manager_should_throttle m p =
     (case pp_policy m of
        PolPerformance \<Rightarrow> False
      | PolInteractive \<Rightarrow> class_of m p = ClassBatch
      | PolBalanced \<Rightarrow> class_of m p = ClassBatch \<and> \<not> pp_boost_active m
      | _ \<Rightarrow> class_of m p = ClassBackground \<or> class_of m p = ClassBatch)"

definition policy_interactive_boost :: "power_policy \<Rightarrow> u64 \<Rightarrow> power_policy" where
  "policy_interactive_boost m now = m\<lparr>pp_boost_active := True, pp_boost_end := now + 500\<rparr>"

section \<open>The state of the power management\<close>

text \<open>
  \<open>policy_locked\<close> is the lock of the global policy: it is held while a function of the policy
  runs.
\<close>

record power_core =
  pw_policy :: "power_policy option"
  policy_locked :: bool
  pw_cpu :: cpu_state
  pw_idle :: idle_global
  pw_resp :: responsiveness_state

definition handle_battery_event :: "battery_event \<Rightarrow> power_core \<Rightarrow> power_core outcome" where
  "handle_battery_event e st =
     (let change = (\<lambda>s. if policy_locked st then Hangs
           else Returns (case pw_policy st of
             None \<Rightarrow> st
           | Some m \<Rightarrow> (case manager_set_power_state m (pw_cpu st) s of
               (_, m', cpu) \<Rightarrow> st\<lparr>pw_policy := Some m', pw_cpu := cpu\<rparr>))) in
      case e of
        CriticalLevel \<Rightarrow> change StCritical
      | LowLevel \<Rightarrow> change StPowerSaver
      | ChargingStateChanged charging \<Rightarrow> (if charging then change StPerformance else Returns st)
      | _ \<Rightarrow> Returns st)"

type_synonym power_battery = "power_core battery_state"

section \<open>Global functions\<close>

definition power_policy_init ::
    "power_battery \<Rightarrow> power_core \<Rightarrow> (unit, power_error) result \<times> power_battery \<times> power_core" where
  "power_policy_init bat st =
     (let bat1 = register_callback handle_battery_event bat in
      case manager_set_power_state power_policy_new (pw_cpu st) (get_recommended_power_state bat1) of
        (Ok _, m, cpu) \<Rightarrow> (Ok (), bat1, st\<lparr>pw_policy := Some m, pw_cpu := cpu\<rparr>)
      | (Err e, m, cpu) \<Rightarrow> (Err e, bat1, st\<lparr>pw_cpu := cpu\<rparr>))"

definition set_power_state :: "power_core \<Rightarrow> power_state \<Rightarrow> (unit, power_error) result \<times> power_core" where
  "set_power_state st s =
     (case pw_policy st of
        None \<Rightarrow> (Err PowNotSupported, st)
      | Some m \<Rightarrow> (case manager_set_power_state m (pw_cpu st) s of
          (r, m', cpu) \<Rightarrow> (r, st\<lparr>pw_policy := Some m', pw_cpu := cpu\<rparr>)))"

definition get_power_state :: "power_core \<Rightarrow> power_state" where
  "get_power_state st = (case pw_policy st of Some m \<Rightarrow> pp_state m | None \<Rightarrow> StBalanced)"

definition classify_process :: "power_core \<Rightarrow> process_id \<Rightarrow> process_power_class \<Rightarrow> power_core" where
  "classify_process st p c = st\<lparr>pw_policy := map_option (\<lambda>m. manager_classify_process m p c) (pw_policy st)\<rparr>"

definition power_remove_process :: "power_core \<Rightarrow> process_id \<Rightarrow> power_core" where
  "power_remove_process st p =
     (case pw_policy st of
        None \<Rightarrow> st
      | Some m \<Rightarrow>
          st\<lparr>pw_policy := Some (m\<lparr>process_classifications := AList.delete p (process_classifications m)\<rparr>),
             pw_cpu := cpu_remove_process (pw_cpu st) p, pw_idle := idle_remove_process (pw_idle st) p\<rparr>)"

definition power_notify_activity :: "power_core \<Rightarrow> process_id \<Rightarrow> process_activity \<Rightarrow> u64 \<Rightarrow> power_core" where
  "power_notify_activity st p act now =
     (case pw_policy st of
        None \<Rightarrow> st
      | Some m \<Rightarrow>
          st\<lparr>pw_policy := Some (if act = ActInteractive then policy_interactive_boost m now else m),
             pw_cpu := cpu_notify_activity (pw_cpu st) p act,
             pw_idle := idle_notify_activity (pw_idle st) p act now\<rparr>)"

text \<open>The periodic update of the policy, with the lock held.\<close>

definition manager_policy_update ::
    "(u8 \<Rightarrow> u64 \<Rightarrow> int \<times> nat \<Rightarrow> u32 option) \<Rightarrow> power_policy \<Rightarrow> u64 \<Rightarrow> power_battery \<Rightarrow> power_core
      \<Rightarrow> ((unit, power_error) result \<times> power_battery \<times> power_core) outcome" where
  "manager_policy_update minutes m now bat st =
     (if saturating_sub now (last_policy_update m) \<ge> policy_update_interval m then
        and_then (battery_update minutes now bat st) (\<lambda>(r, bat1, st1).
          case r of
            Err e \<Rightarrow> Returns (Err e, bat1, st1)
          | Ok _ \<Rightarrow>
              (case manager_set_power_state m (pw_cpu st1) (get_recommended_power_state bat1) of
                 (Err e, m1, cpu1) \<Rightarrow> Returns (Err e, bat1, st1\<lparr>pw_policy := Some m1, pw_cpu := cpu1\<rparr>)
               | (Ok _, m1, cpu1) \<Rightarrow>
                   (case cpu_tick cpu1 now of
                      (Err e, cpu2) \<Rightarrow> Returns (Err e, bat1, st1\<lparr>pw_policy := Some m1, pw_cpu := cpu2\<rparr>)
                    | (Ok _, cpu2) \<Rightarrow>
                        let m2 = (if pp_boost_active m1 \<and> now \<ge> pp_boost_end m1 then m1\<lparr>pp_boost_active := False\<rparr> else m1) in
                        Returns (Ok (), bat1, st1\<lparr>pw_policy := Some (m2\<lparr>last_policy_update := now\<rparr>), pw_cpu := cpu2\<rparr>))))
      else Returns (Ok (), bat, st))"

definition power_update ::
    "(u8 \<Rightarrow> u64 \<Rightarrow> int \<times> nat \<Rightarrow> u32 option) \<Rightarrow> u64 \<Rightarrow> power_battery \<Rightarrow> power_core
      \<Rightarrow> ((unit, power_error) result \<times> power_battery \<times> power_core) outcome" where
  "power_update minutes now bat st =
     (case pw_policy st of
        None \<Rightarrow> Returns (Ok (), bat, st)
      | Some m \<Rightarrow>
          and_then (manager_policy_update minutes m now bat (st\<lparr>policy_locked := True\<rparr>))
            (\<lambda>(r, bat', st'). Returns (r, bat', st'\<lparr>policy_locked := False\<rparr>)))"

definition get_power_aware_priority :: "power_core \<Rightarrow> process_id \<Rightarrow> process_priority \<Rightarrow> process_priority" where
  "get_power_aware_priority st p base =
     (case pw_policy st of Some m \<Rightarrow> manager_power_aware_priority m p base | None \<Rightarrow> base)"

definition should_throttle_background :: "power_core \<Rightarrow> process_id \<Rightarrow> bool" where
  "should_throttle_background st p = (case pw_policy st of Some m \<Rightarrow> manager_should_throttle m p | None \<Rightarrow> False)"

definition enable_thermal_throttling :: "power_core \<Rightarrow> (unit, power_error) result \<times> power_core" where
  "enable_thermal_throttling st =
     (case pw_policy st of
        None \<Rightarrow> (Err PowNotSupported, st)
      | Some m \<Rightarrow>
          (let m1 = m\<lparr>thermal_throttling_active := True\<rparr> in
           if pp_state m1 \<noteq> StCritical then
             (case manager_set_power_state m1 (pw_cpu st) StPowerSaver of
                (r, m2, cpu) \<Rightarrow> (r, st\<lparr>pw_policy := Some m2, pw_cpu := cpu\<rparr>))
           else (Ok (), st\<lparr>pw_policy := Some m1\<rparr>)))"

definition disable_thermal_throttling ::
    "power_battery \<Rightarrow> power_core \<Rightarrow> (unit, power_error) result \<times> power_core" where
  "disable_thermal_throttling bat st =
     (case pw_policy st of
        None \<Rightarrow> (Err PowNotSupported, st)
      | Some m \<Rightarrow>
          (case manager_set_power_state (m\<lparr>thermal_throttling_active := False\<rparr>) (pw_cpu st)
                  (get_recommended_power_state bat) of
             (r, m2, cpu) \<Rightarrow> (r, st\<lparr>pw_policy := Some m2, pw_cpu := cpu\<rparr>)))"

definition hot_policy :: power_policy where
  "hot_policy = power_policy_new\<lparr>pp_state := StPowerSaver, pp_policy := PolPowerSaver, thermal_throttling_active := True\<rparr>"

definition hot_core :: power_core where
  "hot_core = \<lparr>pw_policy = Some hot_policy, policy_locked = False, pw_cpu = Some cpu_scaling_new, pw_idle = None, pw_resp = None\<rparr>"

definition charging_battery :: power_battery where
  "charging_battery = (Some (battery_monitor_new\<lparr>event_callbacks := [handle_battery_event],
     bat_info := \<lparr>level_percent = 50, is_charging = True, estimated_time_remaining = None\<rparr>\<rparr>), (50, True))"

section \<open>Changing the state\<close>

lemma manager_set_power_state_fields:
  assumes "manager_set_power_state m cpu s = (r, m', cpu')"
  shows "pp_state m' = s" "thermal_throttling_active m' = thermal_throttling_active m"
    "pp_policy m = policy_of_state (pp_state m) \<Longrightarrow> pp_policy m' = policy_of_state s"
  using assms by (auto simp: manager_set_power_state_def Let_def split: if_splits prod.splits)

lemma policy_update_fields:
  assumes "manager_policy_update minutes m now bat st = Returns (Ok (), bat', st')"
    "policy_update_interval m \<le> saturating_sub now (last_policy_update m)"
    "pp_policy m = policy_of_state (pp_state m)"
  shows "\<exists>m'. pw_policy st' = Some m' \<and> pp_state m' = get_recommended_power_state bat'
    \<and> pp_policy m' = policy_of_state (pp_state m')
    \<and> thermal_throttling_active m' = thermal_throttling_active m \<and> last_policy_update m' = now"
  using assms by (cases "battery_update minutes now bat st")
    (auto simp: manager_policy_update_def Let_def manager_set_power_state_fields split: result.splits prod.splits if_splits)

section \<open>Properties\<close>

text \<open>
  C37: thermal throttling does not last. Enabling it puts the policy in the power-saving state, but
  each periodic update puts the policy in the state the battery recommends, whether the processor
  is being throttled or not, and leaves the mark of throttling set: with a charging battery that
  is the performance state, with the processor at its highest frequency.
\<close>

theorem throttling_overridden:
  assumes "power_update minutes now bat st = Returns (Ok (), bat', st')" "pw_policy st = Some m"
    "policy_update_interval m \<le> saturating_sub now (last_policy_update m)"
    "pp_policy m = policy_of_state (pp_state m)"
  shows "\<exists>m'. pw_policy st' = Some m' \<and> pp_state m' = get_recommended_power_state bat'
    \<and> pp_policy m' = policy_of_state (pp_state m')
    \<and> thermal_throttling_active m' = thermal_throttling_active m \<and> last_policy_update m' = now"
proof -
  obtain st1 where "manager_policy_update minutes m now bat (st\<lparr>policy_locked := True\<rparr>) = Returns (Ok (), bat', st1)"
    and st': "st' = st1\<lparr>policy_locked := False\<rparr>"
    using assms(1,2) by (cases "manager_policy_update minutes m now bat (st\<lparr>policy_locked := True\<rparr>)")
      (auto simp: power_update_def)
  with policy_update_fields [OF this(1) assms(3,4)] show ?thesis by simp
qed

theorem throttling_overridden_witness:
  "\<exists>bat' st' m'. power_update (\<lambda>_ _ _. None) 6000 charging_battery hot_core = Returns (Ok (), bat', st')
     \<and> pw_policy st' = Some m' \<and> pp_state m' = StPerformance \<and> thermal_throttling_active m'"
proof -
  obtain bat' st' where u: "power_update (\<lambda>_ _ _. None) 6000 charging_battery hot_core = Returns (Ok (), bat', st')"
      "get_recommended_power_state bat' = StPerformance"
    by (simp add: power_update_def manager_policy_update_def charging_battery_def hot_core_def hot_policy_def
      power_policy_new_def battery_update_def monitor_update_def simulate_battery_behavior_def battery_monitor_new_def
      battery_config_default_def saturating_sub_def estimate_time_remaining_def estimate_charge_time_def
      check_for_events_def battery_events_def update_history_def get_recommended_power_state_def monitor_recommended_def
      manager_set_power_state_def cpu_set_governor_def manager_set_governor_def cpu_scaling_new_def set_frequency_def
      cpu_tick_def manager_cpu_tick_def Let_def)
  have "policy_update_interval hot_policy \<le> saturating_sub 6000 (last_policy_update hot_policy)"
    "pp_policy hot_policy = policy_of_state (pp_state hot_policy)" "thermal_throttling_active hot_policy"
    by (simp_all add: hot_policy_def power_policy_new_def saturating_sub_def)
  moreover have "pw_policy hot_core = Some hot_policy" by (simp add: hot_core_def)
  ultimately show ?thesis using throttling_overridden [OF u(1)] u by (cases bat') auto
qed

text \<open>
  What the policy does to priorities. It never turns the order of two priorities of one
  process around, it only improves the priority of processes of the interactive class, and only
  without a policy of saving power, and it neither changes the priority of a process of the critical class
  nor throttles it.
\<close>

theorem policy_priorities:
  assumes "a \<le> b"
  shows "manager_power_aware_priority m p a \<le> manager_power_aware_priority m p b
    \<and> (manager_power_aware_priority m p a < a \<longrightarrow>
         class_of m p = ClassInteractive \<and> pp_policy m \<in> {PolInteractive, PolBalanced})
    \<and> (class_of m p = ClassCritical \<longrightarrow> manager_power_aware_priority m p a = a \<and> \<not> manager_should_throttle m p)"
  using assms
  by (cases "pp_policy m"; cases "class_of m p"; cases a; cases b)
    (simp_all add: manager_power_aware_priority_def manager_should_throttle_def boost_def reduce_def
      priority_of_level_def saturating_sub_def less_eq_process_priority_def less_process_priority_def word_le_nat_alt)

theorem policy_priorities_witness:
  "manager_power_aware_priority hot_policy 7 Interactive \<le> manager_power_aware_priority hot_policy 7 Normal"
  using policy_priorities [of Interactive Normal hot_policy 7] by (simp add: less_eq_process_priority_def)

end
