(* ===== verification/Scheduling_Contract.thy ===== *)
theory Scheduling_Contract
  imports Kosh_Prelude
begin

text \<open>
  The contract of a scheduling algorithm: on every system it accepts it comes to a decision, it
  only picks what can run, and it picks nothing only where nothing can run. A decision is the
  choice with the new state of the algorithm; an algorithm that does not come to one is the
  value \<^term>\<open>None\<close>.
\<close>

section \<open>The contract\<close>

locale picking =
  fixes decide :: "'s \<Rightarrow> 'w \<Rightarrow> ('p option \<times> 's) option"
    and can_run :: "'w \<Rightarrow> 'p set"
    and accepts :: "'w \<Rightarrow> bool"
  assumes decides: "accepts w \<Longrightarrow> decide s w \<noteq> None"
    and picks_runnable: "accepts w \<Longrightarrow> decide s w = Some (Some p, s') \<Longrightarrow> p \<in> can_run w"
    and idles_only_if_idle: "accepts w \<Longrightarrow> decide s w = Some (None, s') \<Longrightarrow> can_run w = {}"
begin

lemma decision_cases:
  assumes "accepts w"
  obtains (picks) p s' where "decide s w = Some (Some p, s')" "p \<in> can_run w"
  | (idles) s' where "decide s w = Some (None, s')" "can_run w = {}"
proof -
  obtain r s' where c: "decide s w = Some (r, s')" using decides [OF assms, of s] by (cases "decide s w") auto
  show ?thesis
  proof (cases r)
    case None
    with c idles_only_if_idle [OF assms] show ?thesis by (intro idles) auto
  next
    case (Some p)
    with c picks_runnable [OF assms] show ?thesis by (intro picks) auto
  qed
qed

lemma picks_iff_work:
  assumes "accepts w"
  shows "(\<exists>p s'. decide s w = Some (Some p, s')) \<longleftrightarrow> can_run w \<noteq> {}"
  using decision_cases [OF assms, of s] picks_runnable [OF assms] by (metis empty_iff option.inject option.simps(3) prod.inject)

end

section \<open>Algorithms that pick by rank\<close>

text \<open>
  An algorithm that always picks the process of least rank, the first of them where there are
  several. What it picks is then fixed by the system alone: as long as the system stays as it is,
  the algorithm picks the same process again, whatever its own state.
\<close>

locale ranked_picking = picking decide can_run accepts
  for decide :: "'s \<Rightarrow> 'w \<Rightarrow> ('p :: linorder option \<times> 's) option"
    and can_run :: "'w \<Rightarrow> 'p set"
    and accepts :: "'w \<Rightarrow> bool" +
  fixes rank :: "'w \<Rightarrow> 'p \<Rightarrow> 'r :: linorder"
  assumes picks_least: "accepts w \<Longrightarrow> decide s w = Some (Some p, s') \<Longrightarrow> q \<in> can_run w \<Longrightarrow>
    rank w p < rank w q \<or> rank w p = rank w q \<and> p \<le> q"
begin

lemma picks_same:
  assumes "accepts w" "decide s w = Some (Some p, s')"
  obtains u' where "decide u w = Some (Some p, u')"
proof -
  have p: "p \<in> can_run w" using assms by (rule picks_runnable)
  show ?thesis
  proof (cases rule: decision_cases [OF assms(1), of u, case_names picks idles])
    case (picks q u')
    from picks_least [OF assms this(2)] picks_least [OF assms(1) picks(1) p] have "q = p" by auto
    with picks that show ?thesis by blast
  next
    case idles
    with p show ?thesis by simp
  qed
qed

lemma picks_iff_least:
  assumes "accepts w" "p \<in> can_run w"
  shows "(\<exists>s'. decide s w = Some (Some p, s')) \<longleftrightarrow>
    (\<forall>q\<in>can_run w. rank w p < rank w q \<or> rank w p = rank w q \<and> p \<le> q)"
proof
  assume "\<exists>s'. decide s w = Some (Some p, s')"
  with picks_least [OF assms(1)] show "\<forall>q\<in>can_run w. rank w p < rank w q \<or> rank w p = rank w q \<and> p \<le> q" by blast
next
  assume least: "\<forall>q\<in>can_run w. rank w p < rank w q \<or> rank w p = rank w q \<and> p \<le> q"
  show "\<exists>s'. decide s w = Some (Some p, s')"
  proof (cases rule: decision_cases [OF assms(1), of s, case_names picks idles])
    case (picks q s')
    from picks_least [OF assms(1) picks(1) assms(2)] least picks(2) have "q = p" by fastforce
    with picks show ?thesis by blast
  next
    case idles
    with assms(2) show ?thesis by simp
  qed
qed

end

end
