(* ===== verification/Scheduler.thy ===== *)
theory Scheduler
  imports Power_Policy Scheduling_Contract
begin

text \<open>
  The scheduler, from \<^verbatim>\<open>process/scheduler.rs\<close>: three algorithms over the process table and the
  power management, and the switch to the process they pick. Time slices that depend on
  floating-point multipliers are left out; nothing calls them.
\<close>

section \<open>State\<close>

datatype scheduler_error = NoProcessesAvailable | NotInitialized | InvalidProcess

datatype scheduling_algorithm = RoundRobin | Priority | CompletelyFair

record scheduler_statistics =
  context_switches :: u64
  scheduling_decisions :: u64
  scheduler_time_us :: u64
  st_algorithm :: scheduling_algorithm
  st_time_slice_ms :: u64

text \<open>The array of the four priority queues is a function of the level.\<close>

record scheduler =
  algorithm :: scheduling_algorithm
  time_slice_ms :: u64
  last_scheduled_index :: nat
  sched_stats :: scheduler_statistics
  priority_queues :: "nat \<Rightarrow> process_id list"

definition scheduler_new :: "scheduling_algorithm \<Rightarrow> u64 \<Rightarrow> scheduler" where
  "scheduler_new alg ms =
     \<lparr>algorithm = alg, time_slice_ms = ms, last_scheduled_index = 0,
      sched_stats = \<lparr>context_switches = 0, scheduling_decisions = 0, scheduler_time_us = 0, st_algorithm = alg,
        st_time_slice_ms = ms\<rparr>,
      priority_queues = (\<lambda>_. [])\<rparr>"

text \<open>What the scheduler reads and changes outside itself: the process table and the power management.\<close>

type_synonym sched_world = "process_table option \<times> power_core"

definition runs_now :: "process_table option \<Rightarrow> process_id \<Rightarrow> bool" where
  "runs_now t p = (case global_get_process t p of Some i \<Rightarrow> info_is_runnable i | None \<Rightarrow> False)"

section \<open>The algorithms\<close>

text \<open>
  The loop of the round-robin scan: the process found with the index to go on from, or that it
  came back to where it started.
\<close>

partial_function (option) rr_loop ::
    "process_table option \<Rightarrow> process_id list \<Rightarrow> nat \<Rightarrow> nat \<Rightarrow> (process_id \<times> nat) option option" where
  "rr_loop t ps start cur =
     (let i = (if cur \<ge> length ps then 0 else cur) in
      if runs_now t (ps ! i) then Some (Some (ps ! i, (i + 1) mod length ps))
      else if i + 1 = start then Some None
      else rr_loop t ps start (i + 1))"

definition schedule_round_robin :: "scheduler \<Rightarrow> sched_world \<Rightarrow> (process_id option \<times> scheduler) option" where
  "schedule_round_robin s w =
     (let ps = global_get_runnable_processes (fst w) in
      if ps = [] then Some (None, s)
      else (case rr_loop (fst w) ps (last_scheduled_index s) (last_scheduled_index s) of
              None \<Rightarrow> None
            | Some None \<Rightarrow> Some (None, s)
            | Some (Some (p, i)) \<Rightarrow> Some (Some p, s\<lparr>last_scheduled_index := i\<rparr>)))"

definition effective_queue :: "sched_world \<Rightarrow> process_id \<Rightarrow> process_priority \<Rightarrow> nat" where
  "effective_queue w p base =
     (if \<not> should_throttle_background (snd w) p \<and> \<not> should_throttle_process (pw_resp (snd w)) p
      then priority_index (get_power_aware_priority (snd w) p base) else 3)"

fun fill_queues :: "sched_world \<Rightarrow> process_id list \<Rightarrow> (nat \<Rightarrow> process_id list) \<Rightarrow> nat \<Rightarrow> process_id list" where
  "fill_queues w [] qs = qs"
| "fill_queues w (p # ps) qs =
     (case global_get_process (fst w) p of
        None \<Rightarrow> fill_queues w ps qs
      | Some i \<Rightarrow>
          (let k = effective_queue w p (info_priority i) in fill_queues w ps (qs(k := qs k @ [p]))))"

definition update_priority_queues :: "sched_world \<Rightarrow> scheduler \<Rightarrow> scheduler" where
  "update_priority_queues w s =
     s\<lparr>priority_queues := fill_queues w (global_get_runnable_processes (fst w)) (\<lambda>_. [])\<rparr>"

text \<open>The scan of the queues from level \<open>k\<close> on, \<open>n\<close> levels being left.\<close>

fun scan_queues :: 
    "process_table option \<Rightarrow> nat \<Rightarrow> nat \<Rightarrow> (nat \<Rightarrow> process_id list) \<Rightarrow> process_id option \<times> (nat \<Rightarrow> process_id list)" where
  "scan_queues t k 0 qs = (None, qs)"
| "scan_queues t k (Suc n) qs =
     (case position (runs_now t) (qs k) of
        Some i \<Rightarrow> (Some (qs k ! i), qs(k := vec_remove i (qs k) @ [qs k ! i]))
      | None \<Rightarrow> scan_queues t (k + 1) n qs)"

definition schedule_priority :: "scheduler \<Rightarrow> sched_world \<Rightarrow> (process_id option \<times> scheduler) option" where
  "schedule_priority s w =
     (let s1 = update_priority_queues w s in
      case scan_queues (fst w) 0 4 (priority_queues s1) of
        (r, qs) \<Rightarrow> Some (r, s1\<lparr>priority_queues := qs\<rparr>))"

definition cfs_step :: "process_table option \<Rightarrow> process_id \<Rightarrow> process_id option \<times> u64 \<Rightarrow> process_id option \<times> u64" where
  "cfs_step t p best =
     (case global_get_process t p of
        Some i \<Rightarrow> (if info_is_runnable i \<and> info_cpu_time_ms i < snd best then (Some p, info_cpu_time_ms i) else best)
      | None \<Rightarrow> best)"

definition schedule_cfs :: "scheduler \<Rightarrow> sched_world \<Rightarrow> (process_id option \<times> scheduler) option" where
  "schedule_cfs s w =
     (let ps = global_get_runnable_processes (fst w) in
      if ps = [] then Some (None, s)
      else Some (fst (fold (cfs_step (fst w)) ps (None, - 1)), s))"

section \<open>Scheduling\<close>

definition get_scheduler_time_us :: u64 where
  "get_scheduler_time_us = 0"

fun activity_of_priority :: "process_priority \<Rightarrow> process_activity" where
  "activity_of_priority System = ActInteractive"
| "activity_of_priority Interactive = ActInteractive"
| "activity_of_priority Normal = ActBackground"
| "activity_of_priority Background = ActBackground"

definition notify_power_management :: "scheduler \<Rightarrow> process_id \<Rightarrow> process_activity \<Rightarrow> power_core \<Rightarrow> power_core" where
  "notify_power_management s p act pw =
     (let now = context_switches (sched_stats s); pw1 = power_notify_activity pw p act now in
      pw1\<lparr>pw_resp := responsiveness_notify (pw_resp pw1) p act now\<rparr>)"

definition choose_process :: "scheduler \<Rightarrow> sched_world \<Rightarrow> (process_id option \<times> scheduler) option" where
  "choose_process s w =
     (case algorithm s of
        RoundRobin \<Rightarrow> schedule_round_robin s w
      | Priority \<Rightarrow> schedule_priority s w
      | CompletelyFair \<Rightarrow> schedule_cfs s w)"

definition count_switch :: "scheduler \<Rightarrow> scheduler" where
  "count_switch s = s\<lparr>sched_stats := (sched_stats s)\<lparr>context_switches := context_switches (sched_stats s) + 1\<rparr>\<rparr>"

definition add_scheduler_time :: "scheduler \<Rightarrow> u64 \<Rightarrow> scheduler" where
  "add_scheduler_time s start =
     s\<lparr>sched_stats := (sched_stats s)\<lparr>scheduler_time_us :=
         scheduler_time_us (sched_stats s) + (get_scheduler_time_us - start)\<rparr>\<rparr>"

text \<open>
  The switch to the process that was picked, from the point where the algorithm has decided.
\<close>

definition switch_to ::
    "process_id option \<Rightarrow> scheduler \<Rightarrow> sched_world \<Rightarrow> (process_id option, scheduler_error) result \<times> scheduler \<times> sched_world" where
  "switch_to pick s w =
     (case pick of
        Some p \<Rightarrow>
          (if global_get_current_process (fst w) \<noteq> Some p then
             (case global_set_current_process (fst w) (Some p) of
                (Err _, t) \<Rightarrow> (Err InvalidProcess, s, (t, snd w))
              | (Ok _, t) \<Rightarrow>
                  (let s1 = count_switch s;
                       pw = (case global_get_process t p of
                               Some i \<Rightarrow> notify_power_management s1 p (activity_of_priority (info_priority i)) (snd w)
                             | None \<Rightarrow> snd w)
                   in (Ok pick, add_scheduler_time s1 get_scheduler_time_us, (t, pw))))
           else (Ok pick, add_scheduler_time s get_scheduler_time_us, w))
      | None \<Rightarrow>
          (case global_set_current_process (fst w) None of
             (Err _, t) \<Rightarrow> (Err InvalidProcess, s, (t, snd w))
           | (Ok _, t) \<Rightarrow> (Ok None, add_scheduler_time s get_scheduler_time_us, (t, snd w))))"

definition schedule ::
    "scheduler \<Rightarrow> sched_world \<Rightarrow> ((process_id option, scheduler_error) result \<times> scheduler \<times> sched_world) option" where
  "schedule s w =
     (let s1 = s\<lparr>sched_stats := (sched_stats s)\<lparr>scheduling_decisions := scheduling_decisions (sched_stats s) + 1\<rparr>\<rparr> in
      case choose_process s1 w of
        None \<Rightarrow> None
      | Some (pick, s2) \<Rightarrow> Some (switch_to pick s2 w))"

definition set_algorithm :: "scheduler \<Rightarrow> scheduling_algorithm \<Rightarrow> scheduler" where
  "set_algorithm s alg =
     s\<lparr>algorithm := alg, sched_stats := (sched_stats s)\<lparr>st_algorithm := alg\<rparr>, last_scheduled_index := 0,
       priority_queues := (\<lambda>_. [])\<rparr>"

definition sched_set_time_slice :: "scheduler \<Rightarrow> u64 \<Rightarrow> scheduler" where
  "sched_set_time_slice s ms =
     s\<lparr>time_slice_ms := ms, sched_stats := (sched_stats s)\<lparr>st_time_slice_ms := ms\<rparr>\<rparr>"

definition timer_tick ::
    "scheduler \<Rightarrow> sched_world \<Rightarrow> ((bool, scheduler_error) result \<times> scheduler \<times> sched_world) option" where
  "timer_tick s w =
     (if global_get_current_process (fst w) \<noteq> None then
        (case schedule s w of
           None \<Rightarrow> None
         | Some (Err e, s', w') \<Rightarrow> Some (Err e, s', w')
         | Some (Ok _, s', w') \<Rightarrow> Some (Ok True, s', w'))
      else Some (Ok False, s, w))"

section \<open>The global scheduler\<close>

definition DEFAULT_TIME_SLICE_MS :: u64 where "DEFAULT_TIME_SLICE_MS = 10"

type_synonym sched_global = "scheduler option"

definition init_scheduler :: sched_global where
  "init_scheduler = Some (scheduler_new RoundRobin DEFAULT_TIME_SLICE_MS)"

definition schedule_next_process ::
    "sched_global \<Rightarrow> sched_world \<Rightarrow> ((process_id option, scheduler_error) result \<times> sched_global \<times> sched_world) option" where
  "schedule_next_process g w =
     (case g of
        None \<Rightarrow> Some (Err NotInitialized, None, w)
      | Some s \<Rightarrow> map_option (\<lambda>(r, s', w'). (r, Some s', w')) (schedule s w))"

definition handle_timer_tick ::
    "sched_global \<Rightarrow> sched_world \<Rightarrow> ((bool, scheduler_error) result \<times> sched_global \<times> sched_world) option" where
  "handle_timer_tick g w =
     (case g of
        None \<Rightarrow> Some (Err NotInitialized, None, w)
      | Some s \<Rightarrow> map_option (\<lambda>(r, s', w'). (r, Some s', w')) (timer_tick s w))"

definition set_scheduling_algorithm ::
    "sched_global \<Rightarrow> scheduling_algorithm \<Rightarrow> (unit, scheduler_error) result \<times> sched_global" where
  "set_scheduling_algorithm g alg =
     (case g of None \<Rightarrow> (Err NotInitialized, None) | Some s \<Rightarrow> (Ok (), Some (set_algorithm s alg)))"

definition set_time_slice :: "sched_global \<Rightarrow> u64 \<Rightarrow> (unit, scheduler_error) result \<times> sched_global" where
  "set_time_slice g ms =
     (case g of None \<Rightarrow> (Err NotInitialized, None) | Some s \<Rightarrow> (Ok (), Some (sched_set_time_slice s ms)))"

definition get_scheduler_statistics :: "sched_global \<Rightarrow> scheduler_statistics option" where
  "get_scheduler_statistics g = map_option sched_stats g"

section \<open>What the scheduler relies on\<close>

definition world_ok :: "sched_world \<Rightarrow> bool" where
  "world_ok w = (case fst w of None \<Rightarrow> False | Some t \<Rightarrow> pt_wf t)"

definition runnable_set :: "sched_world \<Rightarrow> process_id set" where
  "runnable_set w = {p. runs_now (fst w) p}"

text \<open>No process has used up the range of its counter of processor time.\<close>

definition times_ok :: "sched_world \<Rightarrow> bool" where
  "times_ok w \<longleftrightarrow> world_ok w \<and> (\<forall>p i. global_get_process (fst w) p = Some i \<longrightarrow> info_cpu_time_ms i < - 1)"

text \<open>The queue in which a process is put, and the processor time it has used.\<close>

definition queue_level :: "sched_world \<Rightarrow> process_id \<Rightarrow> nat" where
  "queue_level w p =
     (case global_get_process (fst w) p of Some i \<Rightarrow> effective_queue w p (info_priority i) | None \<Rightarrow> 0)"

definition time_used :: "sched_world \<Rightarrow> process_id \<Rightarrow> u64" where
  "time_used w p = (case global_get_process (fst w) p of Some i \<Rightarrow> info_cpu_time_ms i | None \<Rightarrow> 0)"

text \<open>Scheduling several times in a row, with the results in order.\<close>

fun schedule_times ::
    "nat \<Rightarrow> scheduler \<Rightarrow> sched_world \<Rightarrow> ((process_id option, scheduler_error) result list \<times> scheduler \<times> sched_world) option" where
  "schedule_times 0 s w = Some ([], s, w)"
| "schedule_times (Suc n) s w =
     (case schedule s w of
        None \<Rightarrow> None
      | Some (r, s', w') \<Rightarrow> map_option (\<lambda>(rs, x). (r # rs, x)) (schedule_times n s' w'))"

definition holds_cpu :: "process_table option \<Rightarrow> process_id \<Rightarrow> bool" where
  "holds_cpu t p \<longleftrightarrow> (\<exists>i. global_get_process t p = Some i \<and> info_state i = Running)"

definition counted :: "scheduler \<Rightarrow> scheduler" where
  "counted s = s\<lparr>sched_stats := (sched_stats s)\<lparr>scheduling_decisions := scheduling_decisions (sched_stats s) + 1\<rparr>\<rparr>"

definition demo_world :: sched_world where
  "demo_world = (Some (snd (set_current_process demo_table (Some 1))),
     \<lparr>pw_policy = None, policy_locked = False, pw_cpu = None, pw_idle = None, pw_resp = None\<rparr>)"

section \<open>Runnable processes\<close>

lemma world_okE:
  assumes "world_ok w"
  obtains t where "fst w = Some t" "pt_wf t" "pids_ok t"
  using assms by (auto simp: world_ok_def pt_wf_def split: option.splits)

lemma runnable_list:
  assumes "world_ok w"
  shows "p \<in> set (global_get_runnable_processes (fst w)) \<longleftrightarrow> runs_now (fst w) p"
    "distinct (global_get_runnable_processes (fst w))" "sorted (global_get_runnable_processes (fst w))"
    "set (global_get_runnable_processes (fst w)) = runnable_set w"
proof -
  from assms obtain t where t: "fst w = Some t" "pids_ok t" by (rule world_okE)
  show set: "p \<in> set (global_get_runnable_processes (fst w)) \<longleftrightarrow> runs_now (fst w) p" for p
    by (auto simp: global_get_runnable_processes_def t(1) set_runnable [OF t(2)] runs_now_def global_get_process_def
        info_of_def info_is_runnable_def is_runnable_def split: option.splits)
  then show "set (global_get_runnable_processes (fst w)) = runnable_set w"
    by (auto simp: runnable_set_def)
  have "sorted (map proc_pid (live_processes t)) \<and> distinct (map proc_pid (live_processes t))"
    using sorted_live_pids [OF t(2)] by (simp add: strict_sorted_iff)
  then have "sorted (map proc_pid (filter is_runnable (live_processes t)))"
    "distinct (map proc_pid (filter is_runnable (live_processes t)))"
    by (auto simp: sorted_filter distinct_map_filter)
  then show "distinct (global_get_runnable_processes (fst w))" "sorted (global_get_runnable_processes (fst w))"
    by (simp_all add: global_get_runnable_processes_def t(1) get_runnable_processes_def)
qed

lemma runs_now_nth:
  assumes "world_ok w" "i < length (global_get_runnable_processes (fst w))"
  shows "runs_now (fst w) (global_get_runnable_processes (fst w) ! i)"
  using assms by (simp flip: runnable_list(1))

section \<open>The algorithms keep the contract\<close>

text \<open>The round-robin scan stops at the first process it looks at, since the list holds runnable processes only.\<close>

lemma round_robin_eq:
  fixes w :: sched_world
  defines "ps \<equiv> global_get_runnable_processes (fst w)"
  assumes "world_ok w"
  shows "schedule_round_robin s w =
    (if ps = [] then Some (None, s)
     else let i = (if last_scheduled_index s \<ge> length ps then 0 else last_scheduled_index s) in
       Some (Some (ps ! i), s\<lparr>last_scheduled_index := (i + 1) mod length ps\<rparr>))"
proof (cases "ps = []")
  case True
  then show ?thesis by (simp add: schedule_round_robin_def ps_def)
next
  case False
  define i where "i = (if last_scheduled_index s \<ge> length ps then 0 else last_scheduled_index s)"
  have "i < length ps" using False by (simp add: i_def)
  then have "runs_now (fst w) (ps ! i)" unfolding ps_def by (rule runs_now_nth [OF assms(2)])
  then have "rr_loop (fst w) ps (last_scheduled_index s) (last_scheduled_index s) = Some (Some (ps ! i, (i + 1) mod length ps))"
    by (subst rr_loop.simps) (simp add: Let_def flip: i_def)
  with False show ?thesis
    by (simp add: schedule_round_robin_def Let_def flip: ps_def i_def)
qed

lemma fill_queues_nth:
  "fill_queues w ps qs k =
    qs k @ filter (\<lambda>p. global_get_process (fst w) p \<noteq> None \<and> queue_level w p = k) ps"
proof (induction ps arbitrary: qs)
  case (Cons p ps)
  show ?case
  proof (cases "global_get_process (fst w) p")
    case None
    with Cons show ?thesis by simp
  next
    case (Some i)
    with Some Cons show ?thesis by (auto simp: Let_def queue_level_def)
  qed
qed simp

lemma scan_queues_pick:
  "fst (scan_queues t k n qs) = find_map (\<lambda>j. find (runs_now t) (qs j)) [k..<k + n]"
proof (induction t k n qs rule: scan_queues.induct)
  case (2 t k n qs)
  have up: "[k..<k + Suc n] = k # [k + 1..<k + 1 + n]" by (simp add: upt_conv_Cons)
  show ?case
  proof (cases "position (runs_now t) (qs k)")
    case None
    then have "find (runs_now t) (qs k) = None" by (simp add: find_None_iff)
    then show ?thesis by (simp only: up scan_queues.simps find_map.simps None option.case 2 [OF None])
  next
    case (Some i)
    then have "find (runs_now t) (qs k) = Some (qs k ! i)"
      by (auto simp: position_Some_iff find_Some_iff)
    with Some show ?thesis unfolding up by simp
  qed
qed simp

lemma priority_eq:
  assumes "world_ok w"
  obtains s' where "schedule_priority s w =
    Some (find_map (\<lambda>k. find (\<lambda>p. queue_level w p = k) (global_get_runnable_processes (fst w))) [0..<4], s')"
proof -
  define ps where "ps = global_get_runnable_processes (fst w)"
  define qs where "qs = fill_queues w ps (\<lambda>_. [])"
  have run: "runs_now (fst w) p" "global_get_process (fst w) p \<noteq> None" if "p \<in> set ps" for p
    using that runnable_list(1) [OF assms, of p] by (auto simp: ps_def runs_now_def split: option.splits)
  then have qs: "qs k = filter (\<lambda>p. queue_level w p = k) ps" for k
    by (auto simp: qs_def fill_queues_nth intro!: filter_cong)
  have "find (runs_now (fst w)) (qs k) = find (\<lambda>p. queue_level w p = k) ps" for k
    unfolding qs using run(1) by (induction ps) auto
  then have "fst (scan_queues (fst w) 0 4 qs) = find_map (\<lambda>k. find (\<lambda>p. queue_level w p = k) ps) [0..<4]"
    by (simp only: scan_queues_pick add_0)
  then show ?thesis
    by (intro that [unfolded ps_def [symmetric]])
      (simp add: schedule_priority_def update_priority_queues_def Let_def split_beta flip: ps_def qs_def)
qed

lemma queue_level_less: "queue_level w p < 4"
proof -
  have "priority_index q < 4" for q by (cases q) simp_all
  then show ?thesis by (auto simp: queue_level_def effective_queue_def split: option.splits)
qed

lemma cfs_fold:
  assumes "\<forall>p\<in>set ps. runs_now t p" "sorted ps"
    and best: "fold (cfs_step t) ps (b, m) = (b', m')"
  shows "(b' = b \<and> m' = m \<and> (\<forall>q\<in>set ps. m \<le> time_used (t, pw) q))
    \<or> (\<exists>p\<in>set ps. b' = Some p \<and> m' = time_used (t, pw) p \<and> m' < m \<and>
         (\<forall>q\<in>set ps. m' < time_used (t, pw) q \<or> m' = time_used (t, pw) q \<and> p \<le> q))"
  using assms
proof (induction ps arbitrary: b m)
  case (Cons p ps)
  obtain i where i: "global_get_process t p = Some i" "info_is_runnable i"
    using Cons.prems(1) by (auto simp: runs_now_def split: option.splits)
  then have time: "time_used (t, pw) p = info_cpu_time_ms i" by (simp add: time_used_def)
  have step: "cfs_step t p (b, m) = (if time_used (t, pw) p < m then (Some p, time_used (t, pw) p) else (b, m))"
    using i by (simp add: cfs_step_def time)
  have ps: "\<forall>p\<in>set ps. runs_now t p" "sorted ps" "\<forall>q\<in>set ps. p \<le> q" using Cons.prems(1,2) by auto
  show ?case
  proof (cases "time_used (t, pw) p < m")
    case True
    with step Cons.prems(3) have "fold (cfs_step t) ps (Some p, time_used (t, pw) p) = (b', m')" by simp
    from Cons.IH [OF ps(1,2) this] True ps(3) show ?thesis by fastforce
  next
    case False
    with step Cons.prems(3) have "fold (cfs_step t) ps (b, m) = (b', m')" by simp
    from Cons.IH [OF ps(1,2) this] False show ?thesis by fastforce
  qed
qed simp

interpretation rr: picking schedule_round_robin runnable_set world_ok
proof unfold_locales
  fix w :: sched_world and s :: scheduler
  assume w: "world_ok w"
  show "schedule_round_robin s w \<noteq> None" by (simp add: round_robin_eq [OF w] Let_def)
  fix p s'
  assume "schedule_round_robin s w = Some (Some p, s')"
  then show "p \<in> runnable_set w"
    using runs_now_nth [OF w] by (auto simp: round_robin_eq [OF w] Let_def runnable_set_def split: if_splits)
next
  fix w :: sched_world and s s' :: scheduler
  assume w: "world_ok w" and idle: "schedule_round_robin s w = Some (None, s')"
  have "global_get_runnable_processes (fst w) = []"
    by (rule ccontr) (use idle in \<open>simp add: round_robin_eq [OF w] Let_def\<close>)
  then show "runnable_set w = {}" unfolding runnable_list(4) [OF w, symmetric] by (simp only: list.set)
qed

lemma priority_pick:
  assumes w: "world_ok w" and pick: "schedule_priority s w = Some (Some p, s')"
  shows "p \<in> runnable_set w"
    "q \<in> runnable_set w \<Longrightarrow> queue_level w p < queue_level w q \<or> queue_level w p = queue_level w q \<and> p \<le> q"
proof -
  let ?ps = "global_get_runnable_processes (fst w)"
  note list = runnable_list [OF w]
  have "find_map (\<lambda>k. find (\<lambda>p. queue_level w p = k) ?ps) [0..<4] = Some p"
    by (rule priority_eq [OF w, of s]) (use pick in \<open>simp only: option.inject prod.inject\<close>)
  then obtain k where k: "find (\<lambda>p. queue_level w p = k) ?ps = Some p" "\<forall>i<k. find (\<lambda>p. queue_level w p = i) ?ps = None"
    unfolding find_map_upt_Some by blast
  then have p: "p \<in> set ?ps" "queue_level w p = k" by (auto simp: find_Some_iff)
  then show "p \<in> runnable_set w" by (simp only: list(4))
  assume "q \<in> runnable_set w"
  then have q: "q \<in> set ?ps" by (simp only: list(4))
  show "queue_level w p < queue_level w q \<or> queue_level w p = queue_level w q \<and> p \<le> q"
  proof (cases "queue_level w q" k rule: linorder_cases)
    case less
    with k(2) q show ?thesis by (auto simp: find_None_iff)
  next
    case equal
    with find_sorted_least [OF list(3) k(1) q] p show ?thesis by simp
  next
    case greater
    with p show ?thesis by simp
  qed
qed

interpretation prio: ranked_picking schedule_priority runnable_set world_ok queue_level
proof unfold_locales
  fix w :: sched_world and s :: scheduler
  assume w: "world_ok w"
  show "schedule_priority s w \<noteq> None" by (simp add: schedule_priority_def Let_def split_beta)
  fix p s'
  assume pick: "schedule_priority s w = Some (Some p, s')"
  show "p \<in> runnable_set w" using w pick by (rule priority_pick)
  fix q assume "q \<in> runnable_set w"
  with w pick show "queue_level w p < queue_level w q \<or> queue_level w p = queue_level w q \<and> p \<le> q"
    by (rule priority_pick)
next
  fix w :: sched_world and s s' :: scheduler
  assume w: "world_ok w" and idle: "schedule_priority s w = Some (None, s')"
  have "find_map (\<lambda>k. find (\<lambda>p. queue_level w p = k) (global_get_runnable_processes (fst w))) [0..<4] = None"
    by (rule priority_eq [OF w, of s]) (use idle in \<open>simp only: option.inject prod.inject\<close>)
  then have "\<forall>k<4. find (\<lambda>p. queue_level w p = k) (global_get_runnable_processes (fst w)) = None"
    unfolding find_map_None by simp
  then show "runnable_set w = {}"
    using queue_level_less [of w] unfolding find_None_iff runnable_list(4) [OF w] by blast
qed

lemma cfs_pick:
  assumes "times_ok w"
  obtains (picks) p where "schedule_cfs s w = Some (Some p, s)" "p \<in> runnable_set w"
      "\<forall>q\<in>runnable_set w. time_used w p < time_used w q \<or> time_used w p = time_used w q \<and> p \<le> q"
  | (idles) "schedule_cfs s w = Some (None, s)" "runnable_set w = {}"
proof -
  let ?ps = "global_get_runnable_processes (fst w)"
  have w: "world_ok w" using assms by (simp add: times_ok_def)
  note list = runnable_list [OF w]
  have less: "time_used w q < - 1" if "q \<in> set ?ps" for q
    using assms that list(1) by (auto simp: times_ok_def time_used_def runs_now_def split: option.splits)
  obtain b m where f: "fold (cfs_step (fst w)) ?ps (None, - 1) = (b, m)" by fastforce
  have "\<forall>p\<in>set ?ps. runs_now (fst w) p" using list(1) by blast
  from cfs_fold [OF this list(3) f, of "snd w"] show ?thesis
  proof (elim disjE conjE bexE)
    assume "b = None" "\<forall>q\<in>set ?ps. - 1 \<le> time_used (fst w, snd w) q"
    moreover from this have "?ps = []" using less by (metis leD list.set_intros(1) neq_Nil_conv prod.collapse)
    ultimately show ?thesis using idles list(4) by (simp add: schedule_cfs_def Let_def)
  next
    fix p assume p: "p \<in> set ?ps" "b = Some p" "m = time_used (fst w, snd w) p"
      "\<forall>q\<in>set ?ps. m < time_used (fst w, snd w) q \<or> m = time_used (fst w, snd w) q \<and> p \<le> q"
    then show ?thesis using f list(4) by (intro picks) (auto simp: schedule_cfs_def Let_def)
  qed
qed

interpretation cfs: ranked_picking schedule_cfs runnable_set times_ok time_used
proof unfold_locales
  fix w :: sched_world and s :: scheduler
  assume w: "times_ok w"
  note cases = cfs_pick [OF w, of s]
  show "schedule_cfs s w \<noteq> None" by (rule cases) simp_all
  fix s'
  show "schedule_cfs s w = Some (None, s') \<Longrightarrow> runnable_set w = {}" by (rule cases) simp_all
  fix p
  assume pick: "schedule_cfs s w = Some (Some p, s')"
  show "p \<in> runnable_set w" by (rule cases) (use pick in simp_all)
  fix q assume q: "q \<in> runnable_set w"
  show "time_used w p < time_used w q \<or> time_used w p = time_used w q \<and> p \<le> q"
    by (rule cases) (use pick q in auto)
qed

section \<open>Switching\<close>

text \<open>The list of runnable processes only depends on the identifiers and on who can run.\<close>

lemma runnable_of_view:
  "map proc_pid (filter is_runnable (List.map_filter id es)) =
     map fst (filter snd (List.map_filter id (map (map_option (\<lambda>p. (proc_pid p, is_runnable p))) es)))"
proof (induction es)
  case (Cons e es)
  then show ?case by (cases e) (simp_all add: List.map_filter_simps)
qed (simp add: List.map_filter_simps)

lemma runnable_view:
  assumes "map (map_option (\<lambda>p. (proc_pid p, is_runnable p))) (processes t) =
     map (map_option (\<lambda>p. (proc_pid p, is_runnable p))) (processes u)"
  shows "get_runnable_processes t = get_runnable_processes u"
  unfolding get_runnable_processes_def live_processes_def runnable_of_view assms ..

lemma with_process_mut_runnable:
  assumes "\<And>p. proc_pid (f p) = proc_pid p" and "\<And>p. Some p \<in> set (processes t) \<Longrightarrow> proc_pid p = i \<Longrightarrow> is_runnable (f p) = is_runnable p"
  shows "get_runnable_processes (with_process_mut i f t) = get_runnable_processes t"
  by (rule runnable_view) (auto simp: with_process_mut_def has_pid_iff assms intro!: map_modify_first_in)

lemma get_runnable_current [simp]: "get_runnable_processes (t\<lparr>current_pid := c\<rparr>) = get_runnable_processes t"
  by (simp add: get_runnable_processes_def live_processes_def)

lemma suspend_current_runnable: "get_runnable_processes (suspend_current t) = get_runnable_processes t"
  by (auto simp: suspend_current_def is_runnable_def intro!: with_process_mut_runnable split: option.splits)

lemma set_current_runnable:
  assumes wf: "pt_wf t" and p: "get_process t p = Some x" "is_runnable x"
  obtains t' y where "set_current_process t (Some p) = (Ok (), t')" "pt_wf t'" "current_pid t' = Some p"
    "get_runnable_processes t' = get_runnable_processes t" "get_process t' p = Some y" "proc_state y = Running"
proof -
  define u where "u = suspend_current t"
  define t' where "t' = (with_process_mut p (set_state Running) u)\<lparr>current_pid := Some p\<rparr>"
  obtain x' where x': "get_process u p = Some x'" "is_runnable x'"
    using p by (auto simp: u_def suspend_current_get is_runnable_def)
  then have set: "set_current_process t (Some p) = (Ok (), t')"
    by (simp add: set_current_process_def Let_def t'_def flip: u_def)
  have ok: "pids_ok u" using suspend_current_wf(1) [OF wf] by (simp add: u_def)
  have "is_runnable z" if "Some z \<in> set (processes u)" "proc_pid z = p" for z
    using that x' live_process_get [OF ok, of z] by (auto simp: set_live_processes)
  then have "get_runnable_processes t' = get_runnable_processes u"
    unfolding t'_def get_runnable_current
    by (intro with_process_mut_runnable) (auto simp: is_runnable_def)
  moreover have "get_process t' p = Some (set_state Running x')"
    using x' by (simp add: t'_def get_with_process_mut)
  ultimately show ?thesis
    using set set_current_process_wf [OF wf set]
    by (intro that [of t' "set_state Running x'"]) (simp_all add: t'_def u_def suspend_current_runnable)
qed

lemma set_current_none:
  assumes wf: "pt_wf t"
  obtains t' where "set_current_process t None = (Ok (), t')" "pt_wf t'" "current_pid t' = None"
    "get_runnable_processes t' = get_runnable_processes t"
proof -
  have "set_current_process t None = (Ok (), (suspend_current t)\<lparr>current_pid := None\<rparr>)"
    by (simp add: set_current_process_def)
  with set_current_process_wf [OF wf this] that show ?thesis by (simp add: suspend_current_runnable)
qed

lemma switch_to_runnable:
  assumes w: "world_ok w" and p: "p \<in> runnable_set w"
  obtains s' w' where "switch_to (Some p) s w = (Ok (Some p), s', w')" "world_ok w'"
    "global_get_current_process (fst w') = Some p"
    "global_get_runnable_processes (fst w') = global_get_runnable_processes (fst w)"
    "global_get_current_process (fst w) \<noteq> Some p \<longrightarrow> holds_cpu (fst w') p"
    "last_scheduled_index s' = last_scheduled_index s" "algorithm s' = algorithm s"
proof (cases "global_get_current_process (fst w) = Some p")
  case True
  with w that show ?thesis by (simp add: switch_to_def add_scheduler_time_def)
next
  case False
  from w obtain t where t: "fst w = Some t" "pt_wf t" by (rule world_okE)
  from p obtain x where x: "get_process t p = Some x" "is_runnable x"
    by (auto simp: runnable_set_def runs_now_def global_get_process_def t info_of_def info_is_runnable_def is_runnable_def
        split: option.splits)
  obtain t' y where t': "set_current_process t (Some p) = (Ok (), t')" "pt_wf t'" "current_pid t' = Some p"
    "get_runnable_processes t' = get_runnable_processes t" "get_process t' p = Some y" "proc_state y = Running"
    using set_current_runnable [OF t(2) x] by blast
  have "global_set_current_process (Some t) (Some p) = (Ok (), Some t')"
    by (simp add: global_set_current_process_def t')
  with False t t' show ?thesis
    by (intro that [of "fst (snd (switch_to (Some p) s w))" "snd (snd (switch_to (Some p) s w))"])
      (simp_all add: switch_to_def Let_def world_ok_def global_get_current_process_def holds_cpu_def
        global_get_runnable_processes_def global_get_process_def info_of_def add_scheduler_time_def count_switch_def)
qed

lemma switch_to_none:
  assumes w: "world_ok w"
  obtains s' w' where "switch_to None s w = (Ok None, s', w')" "world_ok w'"
    "global_get_current_process (fst w') = None"
    "global_get_runnable_processes (fst w') = global_get_runnable_processes (fst w)"
proof -
  from w obtain t where t: "fst w = Some t" "pt_wf t" by (rule world_okE)
  obtain t' where t': "set_current_process t None = (Ok (), t')" "pt_wf t'" "current_pid t' = None"
    "get_runnable_processes t' = get_runnable_processes t" using set_current_none [OF t(2)] by blast
  have "global_set_current_process (Some t) None = (Ok (), Some t')"
    by (simp add: global_set_current_process_def t')
  with t t' show ?thesis
    by (intro that [of "fst (snd (switch_to None s w))" "snd (snd (switch_to None s w))"])
      (simp_all add: switch_to_def Let_def world_ok_def global_get_current_process_def
        global_get_runnable_processes_def)
qed

lemma choose_process_cases:
  assumes "world_ok w" "algorithm s = CompletelyFair \<longrightarrow> times_ok w"
  obtains (picks) p s' where "choose_process s w = Some (Some p, s')" "p \<in> runnable_set w"
  | (idles) s' where "choose_process s w = Some (None, s')" "runnable_set w = {}"
proof (cases "algorithm s")
  case RoundRobin
  show ?thesis
    by (rule rr.decision_cases [OF assms(1), of s]) (auto simp: choose_process_def RoundRobin intro: that)
next
  case Priority
  show ?thesis
    by (rule prio.decision_cases [OF assms(1), of s]) (auto simp: choose_process_def Priority intro: that)
next
  case CompletelyFair
  with assms(2) have "times_ok w" by simp
  then show ?thesis
    by (rule cfs.decision_cases [of _ s]) (auto simp: choose_process_def CompletelyFair intro: that)
qed

lemma schedule_counted:
  "schedule s w = (case choose_process (counted s) w of None \<Rightarrow> None | Some (pick, s2) \<Rightarrow> Some (switch_to pick s2 w))"
  by (simp add: schedule_def counted_def Let_def)

lemma counted_fields [simp]:
  "algorithm (counted s) = algorithm s" "last_scheduled_index (counted s) = last_scheduled_index s"
  by (simp_all add: counted_def)

lemma schedule_round_robin_step:
  fixes w :: sched_world
  defines "ps \<equiv> global_get_runnable_processes (fst w)"
  assumes w: "world_ok w" and rr: "algorithm s = RoundRobin" and ne: "ps \<noteq> []"
  defines "i \<equiv> (if last_scheduled_index s \<ge> length ps then 0 else last_scheduled_index s)"
  obtains s' w' where "schedule s w = Some (Ok (Some (ps ! i)), s', w')" "world_ok w'" "algorithm s' = RoundRobin"
    "global_get_runnable_processes (fst w') = ps" "last_scheduled_index s' = (i + 1) mod length ps"
proof -
  have "i < length ps" using ne by (simp add: i_def)
  then have run: "ps ! i \<in> runnable_set w"
    unfolding ps_def by (metis nth_mem runnable_list(4) [OF w])
  define s2 where "s2 = (counted s)\<lparr>last_scheduled_index := (i + 1) mod length ps\<rparr>"
  have "choose_process (counted s) w = Some (Some (ps ! i), s2)"
    using ne by (simp add: choose_process_def rr round_robin_eq [OF w] Let_def s2_def i_def flip: ps_def)
  moreover obtain s' w' where sw: "switch_to (Some (ps ! i)) s2 w = (Ok (Some (ps ! i)), s', w')" "world_ok w'"
      "global_get_runnable_processes (fst w') = global_get_runnable_processes (fst w)"
      "last_scheduled_index s' = last_scheduled_index s2" "algorithm s' = algorithm s2"
    by (rule switch_to_runnable [OF w run, where s = s2]) (rule that)
  ultimately have "schedule s w = Some (Ok (Some (ps ! i)), s', w')" by (simp add: schedule_counted)
  with sw(2-5) show ?thesis by (intro that [of s' w']) (simp_all add: ps_def s2_def rr)
qed

lemma round_robin_run:
  fixes w :: sched_world
  assumes "world_ok w" "algorithm s = RoundRobin" "global_get_runnable_processes (fst w) = ps" "ps \<noteq> []"
    "i = (if last_scheduled_index s \<ge> length ps then 0 else last_scheduled_index s)"
  shows "\<exists>s' w'. schedule_times n s w = Some (map (\<lambda>k. Ok (Some (ps ! ((i + k) mod length ps)))) [0..<n], s', w')
    \<and> world_ok w' \<and> global_get_runnable_processes (fst w') = ps"
  using assms
proof (induction n arbitrary: s w i)
  case 0
  then show ?case by simp
next
  case (Suc n)
  let ?j = "(i + 1) mod length ps"
  have i: "i < length ps" using Suc.prems(4,5) by simp
  obtain s' w' where st: "schedule s w = Some (Ok (Some (ps ! i)), s', w')" "world_ok w'" "algorithm s' = RoundRobin"
    "global_get_runnable_processes (fst w') = ps" "last_scheduled_index s' = ?j"
    by (rule schedule_round_robin_step [OF Suc.prems(1,2), unfolded Suc.prems(3), OF Suc.prems(4), folded Suc.prems(5)])
      (rule that)
  have "?j = (if last_scheduled_index s' \<ge> length ps then 0 else last_scheduled_index s')"
  proof -
    have "?j < length ps" using Suc.prems(4) by (intro mod_less_divisor) simp
    then have "\<not> length ps \<le> ?j" unfolding not_le .
    then show ?thesis unfolding st(5) by (simp only: if_False)
  qed
  from Suc.IH [OF st(2-4) Suc.prems(4) this] obtain s'' w'' where rest: "schedule_times n s' w' =
      Some (map (\<lambda>k. Ok (Some (ps ! ((?j + k) mod length ps)))) [0..<n], s'', w'')"
      "world_ok w''" "global_get_runnable_processes (fst w'') = ps"
    by blast
  have picks: "map (\<lambda>k. Ok (Some (ps ! ((i + k) mod length ps)))) [0..<Suc n] =
      Ok (Some (ps ! i)) # map (\<lambda>k. Ok (Some (ps ! ((?j + k) mod length ps)))) [0..<n]"
    unfolding upt_conv_Cons [OF zero_less_Suc] map_Suc_upt [symmetric] using i
    by (simp add: comp_def mod_simps)
  show ?case unfolding picks schedule_times.simps st(1) option.case case_prod_conv rest(1) option.map using rest(2,3) by blast
qed

lemma choose_process_algorithm:
  "choose_process u w = Some (r, u') \<Longrightarrow> algorithm u' = algorithm u"
  by (auto simp: choose_process_def schedule_round_robin_def schedule_priority_def schedule_cfs_def
      update_priority_queues_def Let_def split: scheduling_algorithm.splits option.splits prod.splits if_splits)

lemma demo_world_ok: "world_ok demo_world" "times_ok demo_world"
  "global_get_current_process (fst demo_world) = Some 1"
  "global_get_runnable_processes (fst demo_world) = [1, 2]"
proof -
  have "get_process demo_table 1 = Some (add_child 2 (new_process (process_table_new 4) None ''init'' System))"
    by (rule demo_table_get)
  moreover have "is_runnable (add_child 2 (new_process (process_table_new 4) None ''init'' System))"
    by (simp add: is_runnable_def new_process_def)
  ultimately obtain t where t: "set_current_process demo_table (Some 1) = (Ok (), t)" "pt_wf t" "current_pid t = Some 1"
    "get_runnable_processes t = get_runnable_processes demo_table"
    by (rule set_current_runnable [OF demo_table_wf]) (rule that)
  have w: "fst demo_world = Some t" by (simp add: demo_world_def t(1))
  show "world_ok demo_world" "global_get_current_process (fst demo_world) = Some 1"
    by (simp_all add: world_ok_def w t global_get_current_process_def)
  show "global_get_runnable_processes (fst demo_world) = [1, 2]"
    unfolding w global_get_runnable_processes_def option.case t(4)
    by (simp add: demo_table_def create_process_def Let_def process_table_new_def with_process_mut_def
      get_runnable_processes_def live_processes_def List.map_filter_simps is_runnable_def process_new_def set_state_def add_child_def)
  show "times_ok demo_world" using \<open>world_ok demo_world\<close>
    by (auto simp: times_ok_def demo_world_def demo_table_def create_process_def Let_def process_table_new_def with_process_mut_def
      set_current_process_def suspend_current_def get_process_def global_get_process_def info_of_def
      process_new_def set_state_def add_child_def word_gt_0 split: if_splits)
qed

lemma demo_world_get:
  "global_get_process (fst demo_world) 1 = Some i \<Longrightarrow> info_is_runnable i \<and> info_cpu_time_ms i = 0"
  "global_get_process (fst demo_world) 1 \<noteq> None"
  by (auto simp: demo_world_def demo_table_def create_process_def Let_def process_table_new_def with_process_mut_def
      set_current_process_def suspend_current_def get_process_def global_get_process_def info_of_def info_is_runnable_def
      process_new_def set_state_def add_child_def split: if_splits)

section \<open>Properties\<close>

text \<open>
  C17: scheduling always comes to a result, and it is right. From every well-formed process table,
  under each of the three algorithms, the call returns without an error and leaves a well-formed
  table with the same runnable processes; its result is the new current process. It is a process
  that could run, and it runs now if it was not current before; there is none only if no process
  could run. The algorithm that compares processor times needs the times to be below the end of
  their range.
\<close>

theorem schedule_sound:
  assumes "world_ok w" "algorithm s = CompletelyFair \<longrightarrow> times_ok w"
  shows "\<exists>r s' w'. schedule s w = Some (Ok r, s', w') \<and> world_ok w'
    \<and> global_get_current_process (fst w') = r
    \<and> global_get_runnable_processes (fst w') = global_get_runnable_processes (fst w)
    \<and> (case r of
         None \<Rightarrow> runnable_set w = {}
       | Some p \<Rightarrow> p \<in> runnable_set w \<and> (global_get_current_process (fst w) \<noteq> Some p \<longrightarrow> holds_cpu (fst w') p))"
proof -
  from assms have "algorithm (counted s) = CompletelyFair \<longrightarrow> times_ok w" by simp
  with assms(1) show ?thesis
  proof (cases rule: choose_process_cases)
    case (picks p s2)
    obtain s' w' where sw: "switch_to (Some p) s2 w = (Ok (Some p), s', w')" "world_ok w'"
      "global_get_current_process (fst w') = Some p"
      "global_get_runnable_processes (fst w') = global_get_runnable_processes (fst w)"
      "global_get_current_process (fst w) \<noteq> Some p \<longrightarrow> holds_cpu (fst w') p"
      by (rule switch_to_runnable [OF assms(1) picks(2), where s = s2]) (rule that)
    have "schedule s w = Some (Ok (Some p), s', w')" by (simp add: schedule_counted picks(1) sw(1))
    with sw(2-5) picks(2) show ?thesis by (intro exI [of _ "Some p"] exI [of _ s'] exI [of _ w']) simp
  next
    case (idles s2)
    obtain s' w' where sw: "switch_to None s2 w = (Ok None, s', w')" "world_ok w'"
      "global_get_current_process (fst w') = None"
      "global_get_runnable_processes (fst w') = global_get_runnable_processes (fst w)"
      by (rule switch_to_none [OF assms(1), where s = s2]) (rule that)
    have "schedule s w = Some (Ok None, s', w')" by (simp add: schedule_counted idles(1) sw(1))
    with sw(2-4) idles(2) show ?thesis by (intro exI [of _ None] exI [of _ s'] exI [of _ w']) simp
  qed
qed

theorem schedule_sound_witness:
  "\<exists>r s' w'. schedule (scheduler_new CompletelyFair 10) demo_world = Some (Ok (Some r), s', w') \<and> world_ok w'
     \<and> global_get_current_process (fst w') = Some r \<and> r \<in> runnable_set demo_world"
proof -
  have "runnable_set demo_world = {1, 2}"
    using runnable_list(4) [OF demo_world_ok(1)] by (simp add: demo_world_ok(4))
  with schedule_sound [OF demo_world_ok(1), of "scheduler_new CompletelyFair 10"] demo_world_ok(2)
  show ?thesis by (auto split: option.splits)
qed

text \<open>
  C19: under round robin every runnable process gets its turn. As many calls as there are runnable
  processes pick each of them exactly once, in the order of the table from some point on; and the
  runnable processes are then the same, so that this goes on.
\<close>

theorem round_robin_fair:
  assumes "world_ok w" "algorithm s = RoundRobin" "global_get_runnable_processes (fst w) = ps"
  shows "\<exists>i s' w'. schedule_times (length ps) s w = Some (map (\<lambda>p. Ok (Some p)) (rotate i ps), s', w')
    \<and> world_ok w' \<and> global_get_runnable_processes (fst w') = ps \<and> distinct ps \<and> set ps = runnable_set w"
proof (cases "ps = []")
  case True
  with assms show ?thesis using runnable_list(4) [OF assms(1)] by (auto intro!: exI [of _ 0])
next
  case False
  note list = runnable_list [OF assms(1), unfolded assms(3)]
  define i where "i = (if last_scheduled_index s \<ge> length ps then 0 else last_scheduled_index s)"
  from round_robin_run [OF assms False i_def, of "length ps"] obtain s' w' where
    run: "schedule_times (length ps) s w = Some (map (\<lambda>k. Ok (Some (ps ! ((i + k) mod length ps)))) [0..<length ps], s', w')"
      "world_ok w'" "global_get_runnable_processes (fst w') = ps"
    by blast
  have "map (\<lambda>k. Ok (Some (ps ! ((i + k) mod length ps)))) [0..<length ps] =
      (map (\<lambda>p. Ok (Some p)) (rotate i ps) :: (process_id option, scheduler_error) result list)"
    by (rule nth_equalityI) (simp_all add: nth_rotate)
  with run list show ?thesis by (intro exI [of _ i] exI [of _ s'] exI [of _ w']) simp
qed

theorem round_robin_fair_witness:
  "\<exists>i s' w'. schedule_times 2 (scheduler_new RoundRobin 10) demo_world = Some (map (\<lambda>p. Ok (Some p)) (rotate i [1, 2]), s', w')"
  using round_robin_fair [OF demo_world_ok(1) _ demo_world_ok(4), of "scheduler_new RoundRobin 10"]
  by (auto simp: scheduler_new_def numeral_2_eq_2)

text \<open>
  C39: under the other two algorithms a process can keep the processor for ever. If the current
  process is the one that is picked, then every further call picks it again and changes nothing
  but the scheduler's own state, however many other processes are waiting at the same rank.
\<close>

theorem scheduler_starves:
  assumes "world_ok w" "algorithm s = Priority \<or> algorithm s = CompletelyFair \<and> times_ok w"
    and "choose_process s w = Some (Some p, s1)" "global_get_current_process (fst w) = Some p"
  shows "\<exists>s'. schedule_times n s w = Some (replicate n (Ok (Some p)), s', w)"
proof -
  have same: "\<exists>u'. choose_process u w = Some (Some p, u') \<and> algorithm u' = algorithm s" if "algorithm u = algorithm s" for u
  proof -
    obtain u' where "choose_process u w = Some (Some p, u')"
    proof (cases "algorithm s = Priority")
      case True
      with assms(3) have "schedule_priority s w = Some (Some p, s1)" by (simp add: choose_process_def)
      from prio.picks_same [OF assms(1) this, of u] show ?thesis
        using that \<open>algorithm u = algorithm s\<close> True by (auto simp: choose_process_def)
    next
      case False
      with assms(2) have cfs: "algorithm s = CompletelyFair" "times_ok w" by auto
      with assms(3) have "schedule_cfs s w = Some (Some p, s1)" by (simp add: choose_process_def)
      from cfs.picks_same [OF cfs(2) this, of u] show ?thesis
        using that \<open>algorithm u = algorithm s\<close> cfs(1) by (auto simp: choose_process_def)
    qed
    with choose_process_algorithm [OF this] that show ?thesis by auto
  qed
  have "\<exists>s'. schedule_times n u w = Some (replicate n (Ok (Some p)), s', w)" if "algorithm u = algorithm s" for u
    using that
  proof (induction n arbitrary: u)
    case (Suc n)
    then obtain u' where u': "choose_process (counted u) w = Some (Some p, u')" "algorithm u' = algorithm s"
      using same [of "counted u"] by auto
    then have "schedule u w = Some (Ok (Some p), add_scheduler_time u' get_scheduler_time_us, w)"
      by (simp add: schedule_counted switch_to_def assms(4))
    moreover have "algorithm (add_scheduler_time u' get_scheduler_time_us) = algorithm s"
      by (simp add: add_scheduler_time_def u')
    ultimately show ?case using Suc.IH by fastforce
  qed simp
  then show ?thesis by simp
qed

theorem scheduler_starves_witness:
  "\<exists>s'. schedule_times 100 (scheduler_new CompletelyFair 10) demo_world = Some (replicate 100 (Ok (Some 1)), s', demo_world)"
proof (rule scheduler_starves)
  show "world_ok demo_world" "algorithm (scheduler_new CompletelyFair 10) = Priority \<or>
      algorithm (scheduler_new CompletelyFair 10) = CompletelyFair \<and> times_ok demo_world"
    "global_get_current_process (fst demo_world) = Some 1"
    by (simp_all add: demo_world_ok scheduler_new_def)
  have "cfs_step (fst demo_world) 1 (None, - 1) = (Some 1, 0)"
    using demo_world_get by (auto simp: cfs_step_def word_gt_0 split: option.splits)
  moreover have "cfs_step (fst demo_world) 2 (Some 1, 0) = (Some 1, 0)" by (simp add: cfs_step_def split: option.splits)
  ultimately show "choose_process (scheduler_new CompletelyFair 10) demo_world = Some (Some 1, scheduler_new CompletelyFair 10)"
    by (simp add: choose_process_def scheduler_new_def schedule_cfs_def demo_world_ok)
qed

text \<open>
  C21: what the other two algorithms pick, against a reference that does not mention queues or
  scans. The priority algorithm picks a process exactly if it is the one of least level, and among
  those of that level the one with the least identifier; the level is that of its priority as the
  power policy changes it, or the last for a throttled process. The fair algorithm picks, in the
  same way, by the processor time used.
\<close>

theorem pick_is_least:
  assumes "times_ok w" "p \<in> runnable_set w"
  shows "((\<exists>s'. schedule_priority s w = Some (Some p, s')) \<longleftrightarrow>
       (\<forall>q\<in>runnable_set w. queue_level w p < queue_level w q \<or> queue_level w p = queue_level w q \<and> p \<le> q))
    \<and> ((\<exists>s'. schedule_cfs s w = Some (Some p, s')) \<longleftrightarrow>
       (\<forall>q\<in>runnable_set w. time_used w p < time_used w q \<or> time_used w p = time_used w q \<and> p \<le> q))"
proof
  show "(\<exists>s'. schedule_cfs s w = Some (Some p, s')) \<longleftrightarrow>
       (\<forall>q\<in>runnable_set w. time_used w p < time_used w q \<or> time_used w p = time_used w q \<and> p \<le> q)"
    using assms by (rule cfs.picks_iff_least)
  have "world_ok w" using assms(1) by (simp add: times_ok_def)
  then show "(\<exists>s'. schedule_priority s w = Some (Some p, s')) \<longleftrightarrow>
       (\<forall>q\<in>runnable_set w. queue_level w p < queue_level w q \<or> queue_level w p = queue_level w q \<and> p \<le> q)"
    using assms(2) by (rule prio.picks_iff_least)
qed

theorem pick_is_least_witness:
  "\<exists>s'. schedule_cfs (scheduler_new CompletelyFair 10) demo_world = Some (Some 1, s')"
proof -
  have "runnable_set demo_world = {1, 2}"
    using runnable_list(4) [OF demo_world_ok(1)] by (simp add: demo_world_ok(4))
  moreover have "time_used demo_world 1 = 0"
    using demo_world_get by (auto simp: time_used_def split: option.splits)
  ultimately show ?thesis
    using pick_is_least [OF demo_world_ok(2), of 1 "scheduler_new CompletelyFair 10"] by (simp add: word_gt_0 word_le_nat_alt)
qed

end
