(* ===== verification/Driver_Framework.thy ===== *)
theory Driver_Framework
  imports Kosh_Prelude
begin

text \<open>
  The framework that drivers are written against, from the crates \<^verbatim>\<open>shared/kosh-types\<close> and
  \<^verbatim>\<open>shared/kosh-driver\<close>: the types of requests and responses, the capabilities of a driver,
  its message queue, and the record of its errors. The contract of the \<^verbatim>\<open>KoshDriver\<close> trait is a
  locale, about the steps a driver takes and the status it reports.
\<close>

section \<open>Errors, status, requests\<close>

datatype driver_error = InitializationFailed | HardwareNotFound | InvalidRequest | ResourceBusy
  | PermissionDenied

datatype driver_error_code = HardwareFailure | InvalidOperation | ResourceExhausted | Timeout
  | ConfigurationError | CodePermissionDenied | CodeNotSupported | DeviceNotFound | DriverBusy
  | InvalidParameter

fun driver_error_from :: "driver_error_code \<Rightarrow> driver_error" where
  "driver_error_from HardwareFailure = HardwareNotFound"
| "driver_error_from InvalidOperation = InvalidRequest"
| "driver_error_from ResourceExhausted = ResourceBusy"
| "driver_error_from CodePermissionDenied = PermissionDenied"
| "driver_error_from _ = InitializationFailed"

datatype driver_type = Storage | Network | Graphics | Audio | Input | Power | SystemDriver | CustomDriver u32

record hardware_id =
  vendor_id :: u32
  device_id :: u32
  subsystem_vendor_id :: "u32 option"
  subsystem_device_id :: "u32 option"

record driver_info =
  di_name :: string
  di_version :: string
  di_vendor :: string
  di_description :: string
  di_type :: driver_type
  di_hardware_ids :: "hardware_id list"

datatype driver_status = Uninitialized | Initializing | DriverReady | Busy | DriverFailed driver_error_code
  | Suspended | Stopping

datatype power_event = Suspend | Resume | PowerDown | LowPower | FullPower

datatype query_type = QueryStatus | QueryCapabilities | QueryHardwareInfo | QueryStatistics
  | QueryConfiguration

datatype driver_request = Initialize | Read u64 usize | Write u64 "u8 list" | Control u32 "u8 list"
  | Query query_type | CustomRequest u32 "u8 list"

datatype driver_response = Success | Data "u8 list" | Status driver_status | Info driver_info
  | CustomResponse u32 "u8 list"

section \<open>Capabilities of drivers\<close>

datatype process_type = KernelProcess | DriverProcess | SystemProcess | UserProcess | SpecificProcess string

datatype network_protocol = Tcp | Udp | Icmp | Raw | CustomProtocol u16

datatype hardware_capability = IoPort u16 u16 | MemoryMappedIo u64 u64 | Interrupt u32 | Dma u32
  | PciDevice u32 u32 | GenericHardware

datatype memory_capability = PhysicalMemoryAlloc | MemoryMapping | MemoryRegion u64 u64 | DmaMemory

datatype ipc_capability = SendTo process_type | ReceiveFrom process_type | CreateChannel | SharedMemory

datatype file_system_capability = ReadPath string | WritePath string | CreateFiles | DeleteFiles | Mount

datatype network_capability = RawSocket | Protocol network_protocol | Interface string | PacketFilter

datatype driver_capability_type = Hardware hardware_capability | Memory memory_capability
  | Ipc ipc_capability | FileSystem file_system_capability | NetworkCap network_capability
  | MemoryAccess | HardwareAccess | TextOutput | GraphicsOutput | CustomCap string

definition READ_MEMORY :: u64 where "READ_MEMORY = 1"
definition WRITE_MEMORY :: u64 where "WRITE_MEMORY = 2"
definition HARDWARE_ACCESS :: u64 where "HARDWARE_ACCESS = 8"
definition IPC_SEND :: u64 where "IPC_SEND = 16"
definition IPC_RECEIVE :: u64 where "IPC_RECEIVE = 32"
definition FILE_READ :: u64 where "FILE_READ = 64"
definition FILE_WRITE :: u64 where "FILE_WRITE = 128"
definition NETWORK_ACCESS :: u64 where "NETWORK_ACCESS = 256"

record kernel_capability =
  kc_flags :: u64
  kc_resource_id :: "u64 option"

type_synonym driver_capabilities = "driver_capability_type list"

definition driver_capabilities_new :: driver_capabilities where
  "driver_capabilities_new = []"

definition grant_driver_capability :: "driver_capability_type \<Rightarrow> driver_capabilities \<Rightarrow> driver_capabilities" where
  "grant_driver_capability c granted = (if c \<in> set granted then granted else granted @ [c])"

definition revoke_driver_capability :: "driver_capability_type \<Rightarrow> driver_capabilities \<Rightarrow> driver_capabilities" where
  "revoke_driver_capability c granted = filter (\<lambda>x. x \<noteq> c) granted"

definition has_driver_capability :: "driver_capabilities \<Rightarrow> driver_capability_type \<Rightarrow> bool" where
  "has_driver_capability granted c \<longleftrightarrow> c \<in> set granted"

fun driver_capability_flags :: "driver_capability_type \<Rightarrow> u64" where
  "driver_capability_flags (Hardware _) = HARDWARE_ACCESS"
| "driver_capability_flags (Memory _) = READ_MEMORY OR WRITE_MEMORY"
| "driver_capability_flags (Ipc _) = IPC_SEND OR IPC_RECEIVE"
| "driver_capability_flags (FileSystem _) = FILE_READ OR FILE_WRITE"
| "driver_capability_flags (NetworkCap _) = NETWORK_ACCESS"
| "driver_capability_flags MemoryAccess = READ_MEMORY OR WRITE_MEMORY"
| "driver_capability_flags HardwareAccess = HARDWARE_ACCESS"
| "driver_capability_flags TextOutput = HARDWARE_ACCESS"
| "driver_capability_flags GraphicsOutput = HARDWARE_ACCESS"
| "driver_capability_flags (CustomCap _) = 0"

definition driver_capability_to_kernel :: "driver_capability_type \<Rightarrow> kernel_capability" where
  "driver_capability_to_kernel c = \<lparr>kc_flags = driver_capability_flags c, kc_resource_id = None\<rparr>"

definition to_kernel_capabilities :: "driver_capabilities \<Rightarrow> kernel_capability list" where
  "to_kernel_capabilities granted = map driver_capability_to_kernel granted"

fun capability_denied :: "driver_type \<Rightarrow> driver_capability_type \<Rightarrow> bool" where
  "capability_denied Storage (NetworkCap _) = True"
| "capability_denied Network (Hardware (PciDevice vendor _)) = (vendor \<noteq> 0x8086 \<and> vendor \<noteq> 0x10EC)"
| "capability_denied _ _ = False"

fun validate_driver_capabilities ::
    "driver_capability_type list \<Rightarrow> driver_type \<Rightarrow> (unit, driver_error) result" where
  "validate_driver_capabilities [] t = Ok ()"
| "validate_driver_capabilities (c # required) t =
     (if capability_denied t c then Err PermissionDenied
      else validate_driver_capabilities required t)"

section \<open>The message queue of a driver\<close>

datatype notification_type = HardwareChange | PowerNotification | SystemEvent | DriverEvent
  | MemoryPressure | CustomNotification u32

datatype control_command = Shutdown | SuspendDriver | ResumeDriver | Reload | UpdateConfig | GetStatus

record response_channel =
  rc_target :: u32
  rc_request_id :: u64

datatype driver_message = RequestMessage u32 driver_request response_channel
  | Notification notification_type "u8 list" | ResponseMessage u64 driver_response
  | ControlMessage control_command "u8 list"

record driver_communication =
  comm_driver_id :: u32
  comm_process_id :: u32
  message_queue :: "driver_message list"
  next_request_id :: u64
  subscribed_notifications :: "notification_type list"

definition driver_communication_new :: "u32 \<Rightarrow> u32 \<Rightarrow> driver_communication" where
  "driver_communication_new driver_id process_id =
     \<lparr>comm_driver_id = driver_id, comm_process_id = process_id, message_queue = [],
      next_request_id = 1, subscribed_notifications = []\<rparr>"

definition get_next_request_id :: "driver_communication \<Rightarrow> u64 \<times> driver_communication" where
  "get_next_request_id c = (next_request_id c, c\<lparr>next_request_id := next_request_id c + 1\<rparr>)"

definition send_driver_request ::
    "u32 \<Rightarrow> driver_request \<Rightarrow> driver_communication \<Rightarrow>
     (driver_response, driver_error) result \<times> driver_communication" where
  "send_driver_request target request c = (Ok Success, snd (get_next_request_id c))"

definition register_notification ::
    "notification_type \<Rightarrow> driver_communication \<Rightarrow> (unit, driver_error) result \<times> driver_communication" where
  "register_notification t c =
     (Ok (), if t \<in> set (subscribed_notifications c) then c
             else c\<lparr>subscribed_notifications := subscribed_notifications c @ [t]\<rparr>)"

definition unregister_notification ::
    "notification_type \<Rightarrow> driver_communication \<Rightarrow> (unit, driver_error) result \<times> driver_communication" where
  "unregister_notification t c =
     (Ok (), c\<lparr>subscribed_notifications := filter (\<lambda>x. x \<noteq> t) (subscribed_notifications c)\<rparr>)"

definition poll_messages ::
    "driver_communication \<Rightarrow> (driver_message list, driver_error) result \<times> driver_communication" where
  "poll_messages c = (Ok (message_queue c), c\<lparr>message_queue := []\<rparr>)"

definition wait_for_message ::
    "driver_communication \<Rightarrow> (driver_message, driver_error) result \<times> driver_communication" where
  "wait_for_message c =
     (case message_queue c of
        m # ms \<Rightarrow> (Ok m, c\<lparr>message_queue := ms\<rparr>)
      | [] \<Rightarrow> (Err InvalidRequest, c))"

section \<open>The record of errors\<close>

datatype recovery_suggestion = Retry u32 u32 | RestartDriver | ResetHardware | Fallback string
  | ContactAdmin string | NoRecovery

datatype error_level = DebugLevel | InfoLevel | WarningLevel | ErrorLevel | CriticalLevel

record driver_error_info =
  info_error :: driver_error
  info_context :: string
  info_error_code :: "u32 option"
  recovery_suggestions :: "recovery_suggestion list"
  info_timestamp :: u64

text \<open>A callback is known by a name; reporting an error lists the callbacks that run.\<close>

record error_handler =
  eh_errors :: "driver_error_info list"
  eh_level :: error_level
  eh_callbacks :: "nat list"
  max_stored_errors :: usize

record error_statistics =
  total_errors :: u64
  errors_by_type :: "(driver_error \<times> u64) list"
  recent_errors :: "driver_error_info list"

definition error_handler_new :: error_handler where
  "error_handler_new =
     \<lparr>eh_errors = [], eh_level = WarningLevel, eh_callbacks = [], max_stored_errors = 100\<rparr>"

definition with_max_errors :: "usize \<Rightarrow> error_handler" where
  "with_max_errors n =
     \<lparr>eh_errors = [], eh_level = WarningLevel, eh_callbacks = [], max_stored_errors = n\<rparr>"

definition report_error ::
    "driver_error_info \<Rightarrow> error_handler \<Rightarrow> (nat \<times> driver_error_info) list \<times> error_handler" where
  "report_error e h =
     (let errors = eh_errors h @ [e];
          kept = (if unat (max_stored_errors h) < length errors then tl errors else errors)
      in (map (\<lambda>callback. (callback, e)) (eh_callbacks h), h\<lparr>eh_errors := kept\<rparr>))"

text \<open>One more error of a type, in the table of counts.\<close>

fun count_error :: "driver_error \<Rightarrow> (driver_error \<times> u64) list \<Rightarrow> (driver_error \<times> u64) list" where
  "count_error e [] = [(e, 1)]"
| "count_error e ((t, n) # counts) =
     (if t = e then (t, n + 1) # counts else (t, n) # count_error e counts)"

definition get_error_stats :: "error_handler \<Rightarrow> error_statistics" where
  "get_error_stats h =
     (let (n, counts) = fold (\<lambda>e (n, counts). (n + 1, count_error (info_error e) counts)) (eh_errors h) (0, [])
      in \<lparr>total_errors = n, errors_by_type = counts, recent_errors = take 10 (rev (eh_errors h))\<rparr>)"

definition clear_errors :: "error_handler \<Rightarrow> error_handler" where
  "clear_errors h = h\<lparr>eh_errors := []\<rparr>"

definition set_error_level :: "error_level \<Rightarrow> error_handler \<Rightarrow> error_handler" where
  "set_error_level l h = h\<lparr>eh_level := l\<rparr>"

definition register_error_callback :: "nat \<Rightarrow> error_handler \<Rightarrow> error_handler" where
  "register_error_callback callback h = h\<lparr>eh_callbacks := eh_callbacks h @ [callback]\<rparr>"

definition error_info_new :: "driver_error \<Rightarrow> string \<Rightarrow> driver_error_info" where
  "error_info_new e ctxt =
     \<lparr>info_error = e, info_context = ctxt, info_error_code = None, recovery_suggestions = [],
      info_timestamp = 0\<rparr>"

definition with_code :: "u32 \<Rightarrow> driver_error_info \<Rightarrow> driver_error_info" where
  "with_code code i = i\<lparr>info_error_code := Some code\<rparr>"

definition with_suggestion :: "recovery_suggestion \<Rightarrow> driver_error_info \<Rightarrow> driver_error_info" where
  "with_suggestion s i = i\<lparr>recovery_suggestions := recovery_suggestions i @ [s]\<rparr>"

definition with_suggestions :: "recovery_suggestion list \<Rightarrow> driver_error_info \<Rightarrow> driver_error_info" where
  "with_suggestions ss i = i\<lparr>recovery_suggestions := ss\<rparr>"

fun follow_suggestions :: "recovery_suggestion list \<Rightarrow> bool" where
  "follow_suggestions [] = False"
| "follow_suggestions (Retry _ _ # ss) = True"
| "follow_suggestions (RestartDriver # ss) = True"
| "follow_suggestions (ResetHardware # ss) = True"
| "follow_suggestions (Fallback _ # ss) = True"
| "follow_suggestions (_ # ss) = follow_suggestions ss"

definition attempt_recovery :: "driver_error_info \<Rightarrow> (unit, driver_error) result" where
  "attempt_recovery i =
     (if follow_suggestions (recovery_suggestions i) then Ok () else Err (info_error i))"

definition is_recoverable :: "driver_error_info \<Rightarrow> bool" where
  "is_recoverable i \<longleftrightarrow>
     recovery_suggestions i \<noteq> [] \<and> \<not> list_all (\<lambda>s. s = NoRecovery) (recovery_suggestions i)"

section \<open>The contract of a driver\<close>

text \<open>
  What the system does to a driver, the status that results, and a driver as a step function
  that may panic.
\<close>

datatype driver_event = Starts | Asks driver_request | Cleans | Powers power_event

fun status_after :: "driver_event \<Rightarrow> driver_status \<Rightarrow> driver_status" where
  "status_after Starts s = DriverReady"
| "status_after (Asks Initialize) s = DriverReady"
| "status_after (Asks _) s = s"
| "status_after Cleans s = Uninitialized"
| "status_after (Powers Suspend) s = Suspended"
| "status_after (Powers Resume) s = DriverReady"
| "status_after (Powers PowerDown) s = Uninitialized"
| "status_after (Powers _) s = s"

fun run_driver :: "(driver_event \<Rightarrow> 's \<Rightarrow> 's outcome) \<Rightarrow> driver_event list \<Rightarrow> 's \<Rightarrow> 's outcome" where
  "run_driver step [] s = Returns s"
| "run_driver step (e # es) s = and_then (step e s) (run_driver step es)"

text \<open>Grants and revocations, in the order they are made.\<close>

datatype capability_op = Grant driver_capability_type | Revoke driver_capability_type

fun apply_capability_op :: "capability_op \<Rightarrow> driver_capabilities \<Rightarrow> driver_capabilities" where
  "apply_capability_op (Grant c) granted = grant_driver_capability c granted"
| "apply_capability_op (Revoke c) granted = revoke_driver_capability c granted"

definition occurrences :: "driver_error \<Rightarrow> driver_error_info list \<Rightarrow> nat" where
  "occurrences t es = length (filter (\<lambda>e. info_error e = t) es)"

locale lifecycle =
  fixes step :: "driver_event \<Rightarrow> 's \<Rightarrow> 's outcome"
    and status_of :: "'s \<Rightarrow> driver_status"
    and inv :: "'s \<Rightarrow> bool"
  assumes step_returns: "inv s \<Longrightarrow> \<exists>s'. step e s = Returns s' \<and> inv s' \<and>
    status_of s' = status_after e (status_of s)"
begin

lemma run_returns:
  "inv s \<Longrightarrow> \<exists>s'. run_driver step es s = Returns s' \<and> inv s' \<and>
     status_of s' = fold status_after es (status_of s)"
proof (induction es arbitrary: s)
  case Nil
  then show ?case by simp
next
  case (Cons e es)
  from step_returns [OF Cons.prems] obtain s1 where s1: "step e s = Returns s1" "inv s1"
    "status_of s1 = status_after e (status_of s)" by blast
  from Cons.IH [OF s1(2)] s1 show ?case by simp
qed

text \<open>A driver that is up or down in the usual way stays so.\<close>

lemma run_settled:
  assumes "inv s" "status_of s \<in> {Uninitialized, DriverReady, Suspended}" "run_driver step es s = Returns s'"
  shows "status_of s' \<in> {Uninitialized, DriverReady, Suspended}"
proof -
  have "fold status_after es t \<in> {Uninitialized, DriverReady, Suspended}"
    if "t \<in> {Uninitialized, DriverReady, Suspended}" for t
    using that
  proof (induction es arbitrary: t)
    case (Cons e es)
    have "status_after e t \<in> {Uninitialized, DriverReady, Suspended}"
      using Cons.prems by (cases "(e, t)" rule: status_after.cases) auto
    from Cons.IH [OF this] show ?case by simp
  qed simp
  with run_returns [OF assms(1), of es] assms(2,3) show ?thesis by auto
qed

end

section \<open>The record of errors\<close>

lemma report_errors_kept:
  "max_stored_errors (fold (\<lambda>e h. snd (report_error e h)) es h) = max_stored_errors h \<and>
   (length (eh_errors h) \<le> unat (max_stored_errors h) \<longrightarrow>
    eh_errors (fold (\<lambda>e h. snd (report_error e h)) es h) =
      drop (length (eh_errors h) + length es - unat (max_stored_errors h)) (eh_errors h @ es))"
proof (induction es arbitrary: h)
  case Nil
  then show ?case by simp
next
  case (Cons e es)
  let ?h = "snd (report_error e h)" and ?n = "unat (max_stored_errors h)"
  have max: "max_stored_errors ?h = max_stored_errors h"
    by (simp add: report_error_def Let_def)
  have err: "eh_errors ?h = (if ?n \<le> length (eh_errors h) then tl (eh_errors h @ [e]) else eh_errors h @ [e])"
    by (simp add: report_error_def Let_def)
  show ?case
  proof (cases "length (eh_errors h) \<le> ?n")
    case True
    have len: "length (eh_errors ?h) \<le> unat (max_stored_errors ?h)" using True by (simp add: err max)
    show ?thesis
    proof (cases "?n \<le> length (eh_errors h)")
      case full: True
      with True have n: "length (eh_errors h) = ?n" by simp
      have "eh_errors ?h @ es = tl (eh_errors h @ e # es)"
        using full tl_append2 [of "eh_errors h @ [e]" es] by (simp add: err)
      moreover have "length (eh_errors ?h) = ?n" using full n by (simp add: err)
      ultimately show ?thesis using Cons.IH [of ?h] max n by (simp add: drop_Suc del: drop_append)
    next
      case False
      then have "eh_errors ?h = eh_errors h @ [e]" by (simp add: err)
      then show ?thesis using Cons.IH [of ?h] max len by simp
    qed
  qed (use Cons.IH [of ?h] max in simp)
qed

lemma map_of_count_error:
  "map_of (count_error e counts) t =
     (if t = e then Some (case map_of counts e of None \<Rightarrow> 1 | Some n \<Rightarrow> n + 1) else map_of counts t)"
  by (induction counts) auto

lemma fold_count_errors:
  "fold (\<lambda>e (n, counts). (n + 1, count_error (info_error e) counts)) es (n, counts) =
     (n + of_nat (length es), fold (\<lambda>e. count_error (info_error e)) es counts)"
  by (induction es arbitrary: n counts) (simp_all add: algebra_simps)

lemma map_of_count_errors:
  "map_of (fold (\<lambda>e. count_error (info_error e)) es []) t =
     (if occurrences t es = 0 then None else Some (of_nat (occurrences t es)))"
proof (induction es rule: rev_induct)
  case Nil
  then show ?case by (simp add: occurrences_def)
next
  case (snoc e es)
  have "occurrences t (es @ [e]) = occurrences t es + (if info_error e = t then 1 else 0)"
    by (simp add: occurrences_def)
  with snoc show ?case by (auto simp: map_of_count_error)
qed

section \<open>Grants\<close>

lemma has_capability_op:
  "has_driver_capability (apply_capability_op op granted) c \<longleftrightarrow>
     op = Grant c \<or> op \<noteq> Revoke c \<and> has_driver_capability granted c"
  by (cases op) (auto simp: grant_driver_capability_def revoke_driver_capability_def has_driver_capability_def)

lemma distinct_capability_op: "distinct granted \<Longrightarrow> distinct (apply_capability_op op granted)"
  by (cases op) (auto simp: grant_driver_capability_def revoke_driver_capability_def)

section \<open>Properties of the framework\<close>

text \<open>
  The error record of a driver keeps the last errors reported, as many as it has room for; its
  statistics count exactly those, by type, and list the last ten of them.
\<close>

theorem error_record_exact:
  "let h = fold (\<lambda>e h. snd (report_error e h)) es (with_max_errors n);
       kept = drop (length es - unat n) es
   in eh_errors h = kept \<and> total_errors (get_error_stats h) = of_nat (length kept) \<and>
      (\<forall>t. map_of (errors_by_type (get_error_stats h)) t =
         (if occurrences t kept = 0 then None else Some (of_nat (occurrences t kept)))) \<and>
      recent_errors (get_error_stats h) = take 10 (rev kept)"
proof -
  define h where "h = fold (\<lambda>e h. snd (report_error e h)) es (with_max_errors n)"
  define kept where "kept = drop (length es - unat n) es"
  have h: "eh_errors h = kept"
    using report_errors_kept [of es "with_max_errors n"]
    by (simp add: h_def kept_def with_max_errors_def)
  have s: "get_error_stats h = \<lparr>total_errors = of_nat (length kept),
      errors_by_type = fold (\<lambda>e. count_error (info_error e)) kept [], recent_errors = take 10 (rev kept)\<rparr>"
    by (simp add: get_error_stats_def h fold_count_errors)
  show ?thesis
    unfolding Let_def h_def [symmetric] kept_def [symmetric] s by (simp add: h map_of_count_errors)
qed

text \<open>
  A driver holds a capability exactly if it has been granted and not revoked since, and no
  capability is held twice.
\<close>

theorem capability_held_iff:
  "(has_driver_capability (fold apply_capability_op ops driver_capabilities_new) c \<longleftrightarrow>
      (\<exists>earlier later. ops = earlier @ Grant c # later \<and> Revoke c \<notin> set later)) \<and>
   distinct (fold apply_capability_op ops driver_capabilities_new)"
proof (induction ops rule: rev_induct)
  case Nil
  then show ?case by (simp add: has_driver_capability_def driver_capabilities_new_def)
next
  case (snoc op ops)
  have "(\<exists>earlier later. ops @ [op] = earlier @ Grant c # later \<and> Revoke c \<notin> set later) \<longleftrightarrow>
      op = Grant c \<or> op \<noteq> Revoke c \<and> (\<exists>earlier later. ops = earlier @ Grant c # later \<and> Revoke c \<notin> set later)"
    (is "?l \<longleftrightarrow> ?r")
  proof
    assume ?l
    then obtain earlier later where "ops @ [op] = earlier @ Grant c # later" "Revoke c \<notin> set later" by blast
    then show ?r by (cases later rule: rev_cases) auto
  next
    assume ?r
    then show ?l
    proof
      assume "op = Grant c"
      then show ?l by (intro exI [of _ ops] exI [of _ "[]"]) simp
    next
      assume r: "op \<noteq> Revoke c \<and> (\<exists>earlier later. ops = earlier @ Grant c # later \<and> Revoke c \<notin> set later)"
      then obtain earlier later where "ops = earlier @ Grant c # later" "Revoke c \<notin> set later" by blast
      with r have "ops @ [op] = earlier @ Grant c # (later @ [op]) \<and> Revoke c \<notin> set (later @ [op])"
        by auto
      then show ?l by blast
    qed
  qed
  with snoc show ?case by (simp add: has_capability_op distinct_capability_op)
qed

end
