(* ===== verification/Keyboard.thy ===== *)
theory Keyboard
  imports Driver_Framework
begin

text \<open>
  The PS/2 keyboard driver of \<^verbatim>\<open>drivers/keyboard\<close>: the translation of scancodes to key codes
  and characters, the modifier keys, the queue of input events, and the driver's requests and
  power events. The ports of the controller are placeholders in the source, which always read
  as an empty status; so are they here.
\<close>

section \<open>Keys\<close>

datatype (plugins only: size) key_code =
    Key_A | Key_B | Key_C | Key_D | Key_E | Key_F | Key_G | Key_H | Key_I | Key_J | Key_K | Key_L
  | Key_M | Key_N | Key_O | Key_P | Key_Q | Key_R | Key_S | Key_T | Key_U | Key_V | Key_W | Key_X
  | Key_Y | Key_Z
  | Key0 | Key1 | Key2 | Key3 | Key4 | Key5 | Key6 | Key7 | Key8 | Key9
  | F1 | F2 | F3 | F4 | F5 | F6 | F7 | F8 | F9 | F10 | F11 | F12
  | Escape | Backspace | Tab | Enter | Space | LeftShift | RightShift | LeftCtrl | LeftAlt | CapsLock
  | ArrowUp | ArrowDown | ArrowLeft | ArrowRight
  | Delete | Home | End | PageUp | PageDown | Insert
  | Unknown

text \<open>The discriminants of the enumeration.\<close>

primrec key_code_byte :: "key_code \<Rightarrow> u8" where
  "key_code_byte Key_A = 0x1E" | "key_code_byte Key_B = 0x30" | "key_code_byte Key_C = 0x2E"
| "key_code_byte Key_D = 0x20" | "key_code_byte Key_E = 0x12" | "key_code_byte Key_F = 0x21"
| "key_code_byte Key_G = 0x22" | "key_code_byte Key_H = 0x23" | "key_code_byte Key_I = 0x17"
| "key_code_byte Key_J = 0x24" | "key_code_byte Key_K = 0x25" | "key_code_byte Key_L = 0x26"
| "key_code_byte Key_M = 0x32" | "key_code_byte Key_N = 0x31" | "key_code_byte Key_O = 0x18"
| "key_code_byte Key_P = 0x19" | "key_code_byte Key_Q = 0x10" | "key_code_byte Key_R = 0x13"
| "key_code_byte Key_S = 0x1F" | "key_code_byte Key_T = 0x14" | "key_code_byte Key_U = 0x16"
| "key_code_byte Key_V = 0x2F" | "key_code_byte Key_W = 0x11" | "key_code_byte Key_X = 0x2D"
| "key_code_byte Key_Y = 0x15" | "key_code_byte Key_Z = 0x2C"
| "key_code_byte Key0 = 0x0B" | "key_code_byte Key1 = 0x02" | "key_code_byte Key2 = 0x03"
| "key_code_byte Key3 = 0x04" | "key_code_byte Key4 = 0x05" | "key_code_byte Key5 = 0x06"
| "key_code_byte Key6 = 0x07" | "key_code_byte Key7 = 0x08" | "key_code_byte Key8 = 0x09"
| "key_code_byte Key9 = 0x0A"
| "key_code_byte F1 = 0x3B" | "key_code_byte F2 = 0x3C" | "key_code_byte F3 = 0x3D"
| "key_code_byte F4 = 0x3E" | "key_code_byte F5 = 0x3F" | "key_code_byte F6 = 0x40"
| "key_code_byte F7 = 0x41" | "key_code_byte F8 = 0x42" | "key_code_byte F9 = 0x43"
| "key_code_byte F10 = 0x44" | "key_code_byte F11 = 0x57" | "key_code_byte F12 = 0x58"
| "key_code_byte Escape = 0x01" | "key_code_byte Backspace = 0x0E" | "key_code_byte Tab = 0x0F"
| "key_code_byte Enter = 0x1C" | "key_code_byte Space = 0x39" | "key_code_byte LeftShift = 0x2A"
| "key_code_byte RightShift = 0x36" | "key_code_byte LeftCtrl = 0x1D" | "key_code_byte LeftAlt = 0x38"
| "key_code_byte CapsLock = 0x3A"
| "key_code_byte ArrowUp = 0x48" | "key_code_byte ArrowDown = 0x50"
| "key_code_byte ArrowLeft = 0x4B" | "key_code_byte ArrowRight = 0x4D"
| "key_code_byte Delete = 0x53" | "key_code_byte Home = 0x47" | "key_code_byte End = 0x4F"
| "key_code_byte PageUp = 0x49" | "key_code_byte PageDown = 0x51" | "key_code_byte Insert = 0x52"
| "key_code_byte Unknown = 0xFF"

datatype key_event_type = KeyPress | KeyRelease

fun event_type_byte :: "key_event_type \<Rightarrow> u8" where
  "event_type_byte KeyPress = 0"
| "event_type_byte KeyRelease = 1"

text \<open>The modifiers are a byte of flags.\<close>

type_synonym key_modifiers = u8

definition SHIFT :: key_modifiers where "SHIFT = 1"
definition CTRL :: key_modifiers where "CTRL = 2"
definition ALT :: key_modifiers where "ALT = 4"
definition CAPS_LOCK :: key_modifiers where "CAPS_LOCK = 8"

definition modifiers_contain :: "key_modifiers \<Rightarrow> key_modifiers \<Rightarrow> bool" where
  "modifiers_contain m f \<longleftrightarrow> m AND f = f"

record input_event =
  ev_type :: key_event_type
  ev_key_code :: key_code
  ev_scancode :: u8
  ev_modifiers :: key_modifiers
  ev_ascii :: "char option"
  ev_timestamp :: u64

record keyboard_driver =
  kbd_status :: driver_status
  event_queue :: "input_event list"
  kbd_modifiers :: key_modifiers
  extended_scancode :: bool
  max_queue_size :: usize

definition keyboard_new :: keyboard_driver where
  "keyboard_new =
     \<lparr>kbd_status = Uninitialized, event_queue = [], kbd_modifiers = 0, extended_scancode = False,
      max_queue_size = 256\<rparr>"

section \<open>Scancodes\<close>

definition key_table :: "(u8 \<times> key_code) list" where
  "key_table =
     [(0x1E, Key_A), (0x30, Key_B), (0x2E, Key_C), (0x20, Key_D), (0x12, Key_E), (0x21, Key_F),
      (0x22, Key_G), (0x23, Key_H), (0x17, Key_I), (0x24, Key_J), (0x25, Key_K), (0x26, Key_L),
      (0x32, Key_M), (0x31, Key_N), (0x18, Key_O), (0x19, Key_P), (0x10, Key_Q), (0x13, Key_R),
      (0x1F, Key_S), (0x14, Key_T), (0x16, Key_U), (0x2F, Key_V), (0x11, Key_W), (0x2D, Key_X),
      (0x15, Key_Y), (0x2C, Key_Z),
      (0x0B, Key0), (0x02, Key1), (0x03, Key2), (0x04, Key3), (0x05, Key4), (0x06, Key5),
      (0x07, Key6), (0x08, Key7), (0x09, Key8), (0x0A, Key9),
      (0x3B, F1), (0x3C, F2), (0x3D, F3), (0x3E, F4), (0x3F, F5), (0x40, F6), (0x41, F7),
      (0x42, F8), (0x43, F9), (0x44, F10), (0x57, F11), (0x58, F12),
      (0x01, Escape), (0x0E, Backspace), (0x0F, Tab), (0x1C, Enter), (0x39, Space),
      (0x2A, LeftShift), (0x36, RightShift), (0x1D, LeftCtrl), (0x38, LeftAlt), (0x3A, CapsLock)]"

definition extended_key_table :: "(u8 \<times> key_code) list" where
  "extended_key_table =
     [(0x48, ArrowUp), (0x50, ArrowDown), (0x4B, ArrowLeft), (0x4D, ArrowRight), (0x53, Delete),
      (0x47, Home), (0x4F, End), (0x49, PageUp), (0x51, PageDown), (0x52, Insert)]"

definition scancode_to_keycode :: "bool \<Rightarrow> u8 \<Rightarrow> key_code" where
  "scancode_to_keycode extended scancode =
     (case map_of key_table scancode of
        Some k \<Rightarrow> k
      | None \<Rightarrow>
          if extended
          then (case map_of extended_key_table scancode of Some k \<Rightarrow> k | None \<Rightarrow> Unknown)
          else Unknown)"

section \<open>Characters\<close>

definition letter_of :: "key_code \<Rightarrow> char option" where
  "letter_of k =
     (case k of
        Key_A \<Rightarrow> Some CHR ''a''
      | Key_B \<Rightarrow> Some CHR ''b''
      | Key_C \<Rightarrow> Some CHR ''c''
      | Key_D \<Rightarrow> Some CHR ''d''
      | Key_E \<Rightarrow> Some CHR ''e''
      | Key_F \<Rightarrow> Some CHR ''f''
      | Key_G \<Rightarrow> Some CHR ''g''
      | Key_H \<Rightarrow> Some CHR ''h''
      | Key_I \<Rightarrow> Some CHR ''i''
      | Key_J \<Rightarrow> Some CHR ''j''
      | Key_K \<Rightarrow> Some CHR ''k''
      | Key_L \<Rightarrow> Some CHR ''l''
      | Key_M \<Rightarrow> Some CHR ''m''
      | Key_N \<Rightarrow> Some CHR ''n''
      | Key_O \<Rightarrow> Some CHR ''o''
      | Key_P \<Rightarrow> Some CHR ''p''
      | Key_Q \<Rightarrow> Some CHR ''q''
      | Key_R \<Rightarrow> Some CHR ''r''
      | Key_S \<Rightarrow> Some CHR ''s''
      | Key_T \<Rightarrow> Some CHR ''t''
      | Key_U \<Rightarrow> Some CHR ''u''
      | Key_V \<Rightarrow> Some CHR ''v''
      | Key_W \<Rightarrow> Some CHR ''w''
      | Key_X \<Rightarrow> Some CHR ''x''
      | Key_Y \<Rightarrow> Some CHR ''y''
      | Key_Z \<Rightarrow> Some CHR ''z''
      | _ \<Rightarrow> None)"

text \<open>\<^verbatim>\<open>char::to_ascii_uppercase\<close>.\<close>

definition to_ascii_uppercase :: "char \<Rightarrow> char" where
  "to_ascii_uppercase c =
     (if 97 \<le> (of_char c :: nat) \<and> (of_char c :: nat) \<le> 122 then char_of (of_char c - 32 :: nat) else c)"

definition digit_of :: "key_code \<Rightarrow> (char \<times> char) option" where
  "digit_of k =
     (case k of
        Key0 \<Rightarrow> Some (CHR '')'', CHR ''0'')
      | Key1 \<Rightarrow> Some (CHR ''!'', CHR ''1'')
      | Key2 \<Rightarrow> Some (CHR ''@'', CHR ''2'')
      | Key3 \<Rightarrow> Some (CHR ''#'', CHR ''3'')
      | Key4 \<Rightarrow> Some (CHR ''$'', CHR ''4'')
      | Key5 \<Rightarrow> Some (CHR 0x25, CHR ''5'')
      | Key6 \<Rightarrow> Some (CHR ''^'', CHR ''6'')
      | Key7 \<Rightarrow> Some (CHR ''&'', CHR ''7'')
      | Key8 \<Rightarrow> Some (CHR ''*'', CHR ''8'')
      | Key9 \<Rightarrow> Some (CHR ''('', CHR ''9'')
      | _ \<Rightarrow> None)"

definition special_of :: "key_code \<Rightarrow> char option" where
  "special_of k =
     (case k of
        Space \<Rightarrow> Some CHR '' ''
      | Tab \<Rightarrow> Some CHR 0x09
      | Enter \<Rightarrow> Some CHR 0x0A
      | Backspace \<Rightarrow> Some CHR 0x08
      | _ \<Rightarrow> None)"

definition keycode_to_ascii :: "key_modifiers \<Rightarrow> key_code \<Rightarrow> char option" where
  "keycode_to_ascii modifiers k =
     (let shift_pressed = modifiers_contain modifiers SHIFT;
          caps_lock = modifiers_contain modifiers CAPS_LOCK
      in case letter_of k of
           Some base_char \<Rightarrow>
             if shift_pressed \<noteq> caps_lock then Some (to_ascii_uppercase base_char) else Some base_char
         | None \<Rightarrow>
             (case digit_of k of
                Some (shifted, plain) \<Rightarrow> Some (if shift_pressed then shifted else plain)
              | None \<Rightarrow> special_of k))"

section \<open>Processing a scancode\<close>

definition update_modifiers :: "key_code \<Rightarrow> key_event_type \<Rightarrow> key_modifiers \<Rightarrow> key_modifiers" where
  "update_modifiers k t m =
     (if k = LeftShift \<or> k = RightShift
      then (case t of KeyPress \<Rightarrow> m OR SHIFT | KeyRelease \<Rightarrow> m AND NOT SHIFT)
      else if k = LeftCtrl
      then (case t of KeyPress \<Rightarrow> m OR CTRL | KeyRelease \<Rightarrow> m AND NOT CTRL)
      else if k = LeftAlt
      then (case t of KeyPress \<Rightarrow> m OR ALT | KeyRelease \<Rightarrow> m AND NOT ALT)
      else if k = CapsLock \<and> t = KeyPress then m XOR CAPS_LOCK
      else m)"

text \<open>
  The loop that removes the front while the queue is not shorter than its limit. With a limit of
  zero the loop of the source would never end; the limit is never zero, which \<open>keyboard_ok\<close> below
  states and every operation keeps.
\<close>

fun make_room :: "nat \<Rightarrow> input_event list \<Rightarrow> input_event list" where
  "make_room limit [] = []"
| "make_room limit (e # es) = (if length (e # es) \<ge> limit then make_room limit es else e # es)"

definition queue_event :: "input_event \<Rightarrow> keyboard_driver \<Rightarrow> keyboard_driver" where
  "queue_event e d =
     d\<lparr>event_queue := make_room (unat (max_queue_size d)) (event_queue d) @ [e]\<rparr>"

definition process_scancode :: "u8 \<Rightarrow> keyboard_driver \<Rightarrow> keyboard_driver" where
  "process_scancode scancode d =
     (if scancode = 0xE0 then d\<lparr>extended_scancode := True\<rparr>
      else
        let is_release = (scancode AND 0x80 \<noteq> 0);
            base_scancode = scancode AND 0x7F;
            event_type = (if is_release then KeyRelease else KeyPress);
            k = scancode_to_keycode (extended_scancode d) base_scancode;
            modifiers = update_modifiers k event_type (kbd_modifiers d);
            ascii_char = (if event_type = KeyPress then keycode_to_ascii modifiers k else None);
            event = \<lparr>ev_type = event_type, ev_key_code = k, ev_scancode = base_scancode,
                     ev_modifiers = modifiers, ev_ascii = ascii_char, ev_timestamp = 0\<rparr>
        in (queue_event event (d\<lparr>kbd_modifiers := modifiers\<rparr>))\<lparr>extended_scancode := False\<rparr>)"

definition get_next_event :: "keyboard_driver \<Rightarrow> input_event option \<times> keyboard_driver" where
  "get_next_event d =
     (case event_queue d of
        [] \<Rightarrow> (None, d)
      | e # es \<Rightarrow> (Some e, d\<lparr>event_queue := es\<rparr>))"

definition has_events :: "keyboard_driver \<Rightarrow> bool" where
  "has_events d \<longleftrightarrow> event_queue d \<noteq> []"

definition event_count :: "keyboard_driver \<Rightarrow> nat" where
  "event_count d = length (event_queue d)"

definition clear_events :: "keyboard_driver \<Rightarrow> keyboard_driver" where
  "clear_events d = d\<lparr>event_queue := []\<rparr>"

definition read_data :: u8 where
  "read_data = 0"

definition read_status :: u8 where
  "read_status = 0"

definition handle_interrupt :: "keyboard_driver \<Rightarrow> keyboard_driver" where
  "handle_interrupt d = (if read_status AND 1 = 1 then process_scancode read_data d else d)"

section \<open>The driver\<close>

definition keyboard_init :: "keyboard_driver \<Rightarrow> (unit, driver_error) result \<times> keyboard_driver" where
  "keyboard_init d =
     (Ok (), (clear_events d)\<lparr>kbd_status := DriverReady, kbd_modifiers := 0, extended_scancode := False\<rparr>)"

definition serialize_event :: "input_event \<Rightarrow> u8 list" where
  "serialize_event e =
     [event_type_byte (ev_type e), key_code_byte (ev_key_code e), ev_scancode e, ev_modifiers e] @
     (case ev_ascii e of Some ascii \<Rightarrow> [1, of_nat (of_char ascii)] | None \<Rightarrow> [0, 0])"

function read_events :: "keyboard_driver \<Rightarrow> u8 list \<times> keyboard_driver" where
  "read_events d =
     (case get_next_event d of
        (None, d') \<Rightarrow> ([], d')
      | (Some e, d') \<Rightarrow> (case read_events d' of (rest, d'') \<Rightarrow> (serialize_event e @ rest, d'')))"
  by pat_completeness auto
termination
  by (relation "measure (\<lambda>d. length (event_queue d))")
    (auto simp: get_next_event_def split: list.splits)

definition keyboard_info :: driver_info where
  "keyboard_info =
     \<lparr>di_name = ''PS/2 Keyboard Driver'', di_version = ''1.0.0'', di_vendor = ''Kosh OS'',
      di_description = ''PS/2 keyboard driver with scancode translation and input event queuing'',
      di_type = Input,
      di_hardware_ids = [\<lparr>vendor_id = 0, device_id = 1, subsystem_vendor_id = None,
                          subsystem_device_id = None\<rparr>]\<rparr>"

definition keyboard_control ::
    "u32 \<Rightarrow> u8 list \<Rightarrow> keyboard_driver \<Rightarrow> (driver_response, driver_error) result \<times> keyboard_driver" where
  "keyboard_control command bytes d =
     (if command = 1 then (Ok Success, clear_events d)
      else if command = 2 then
        (case bytes of
           [] \<Rightarrow> (Err InvalidRequest, d)
         | b # _ \<Rightarrow>
             let new_size = (ucast b :: usize) in
             if 0 < new_size \<and> new_size \<le> 1024
             then (Ok Success, d\<lparr>max_queue_size := new_size,
                                 event_queue := drop (length (event_queue d) - unat new_size) (event_queue d)\<rparr>)
             else (Err InvalidRequest, d))
      else if command = 3 then
        (case bytes of
           [] \<Rightarrow> (Err InvalidRequest, d)
         | b # _ \<Rightarrow> (Ok Success, process_scancode b d))
      else (Err InvalidRequest, d))"

definition keyboard_query ::
    "query_type \<Rightarrow> keyboard_driver \<Rightarrow> (driver_response, driver_error) result" where
  "keyboard_query q d =
     (case q of
        QueryStatus \<Rightarrow> Ok (Status (kbd_status d))
      | QueryHardwareInfo \<Rightarrow> Ok (Info keyboard_info)
      | QueryStatistics \<Rightarrow>
          Ok (Data [of_nat (event_count d), ucast (max_queue_size d), kbd_modifiers d])
      | _ \<Rightarrow> Err InvalidRequest)"

definition keyboard_request ::
    "driver_request \<Rightarrow> keyboard_driver \<Rightarrow> (driver_response, driver_error) result \<times> keyboard_driver" where
  "keyboard_request request d =
     (case request of
        Initialize \<Rightarrow> (Ok Success, snd (keyboard_init d))
      | Read _ _ \<Rightarrow> (case read_events d of (bytes, d') \<Rightarrow> (Ok (Data bytes), d'))
      | Control command bytes \<Rightarrow> keyboard_control command bytes d
      | Query q \<Rightarrow> (keyboard_query q d, d)
      | _ \<Rightarrow> (Err InvalidRequest, d))"

definition keyboard_cleanup :: "keyboard_driver \<Rightarrow> (unit, driver_error) result \<times> keyboard_driver" where
  "keyboard_cleanup d = (Ok (), (clear_events d)\<lparr>kbd_modifiers := 0, kbd_status := Uninitialized\<rparr>)"

definition keyboard_required_capabilities :: "driver_capability_type list" where
  "keyboard_required_capabilities =
     [Hardware (IoPort 0x60 0x64), Hardware (Interrupt 1), HardwareAccess]"

definition keyboard_provided_capabilities :: "driver_capability_type list" where
  "keyboard_provided_capabilities = [CustomCap ''keyboard_input'', CustomCap ''input_events'']"

definition keyboard_power_event ::
    "power_event \<Rightarrow> keyboard_driver \<Rightarrow> (unit, driver_error) result \<times> keyboard_driver" where
  "keyboard_power_event e d =
     (case e of
        Suspend \<Rightarrow> (Ok (), clear_events (d\<lparr>kbd_status := Suspended\<rparr>))
      | Resume \<Rightarrow> (Ok (), d\<lparr>kbd_status := DriverReady\<rparr>)
      | PowerDown \<Rightarrow> keyboard_cleanup d
      | _ \<Rightarrow> (Ok (), d))"

section \<open>The global driver and its factory\<close>

definition init_keyboard_driver ::
    "keyboard_driver option \<Rightarrow> (unit, driver_error) result \<times> keyboard_driver option" where
  "init_keyboard_driver g = (Ok (), Some (snd (keyboard_init keyboard_new)))"

definition keyboard_get_event :: "keyboard_driver option \<Rightarrow> input_event option \<times> keyboard_driver option" where
  "keyboard_get_event g =
     (case g of Some d \<Rightarrow> map_prod id Some (get_next_event d) | None \<Rightarrow> (None, None))"

definition keyboard_has_events :: "keyboard_driver option \<Rightarrow> bool" where
  "keyboard_has_events g = (case g of Some d \<Rightarrow> has_events d | None \<Rightarrow> False)"

definition keyboard_interrupt_handler :: "keyboard_driver option \<Rightarrow> keyboard_driver option" where
  "keyboard_interrupt_handler g = map_option handle_interrupt g"

definition keyboard_can_handle :: "hardware_id \<Rightarrow> bool" where
  "keyboard_can_handle h \<longleftrightarrow> vendor_id h = 0 \<and> device_id h = 1"

section \<open>Streams of scancodes\<close>

text \<open>The driver as a step function.\<close>

definition keyboard_step :: "driver_event \<Rightarrow> keyboard_driver \<Rightarrow> keyboard_driver outcome" where
  "keyboard_step e d = Returns
     (case e of
        Starts \<Rightarrow> snd (keyboard_init d)
      | Asks r \<Rightarrow> snd (keyboard_request r d)
      | Cleans \<Rightarrow> snd (keyboard_cleanup d)
      | Powers p \<Rightarrow> snd (keyboard_power_event p d))"

definition keyboard_ok :: "keyboard_driver \<Rightarrow> bool" where
  "keyboard_ok d \<longleftrightarrow> 0 < max_queue_size d \<and> length (event_queue d) \<le> unat (max_queue_size d)"

text \<open>
  What a stream of scancodes means, said without the tables and the flags of the driver. The
  stream is first cut into strokes: a byte other than the prefix is a key going down, or up from
  0x80 on, and it is prefixed if the byte before it is the prefix.
\<close>

record stroke =
  st_release :: bool
  st_prefixed :: bool
  st_code :: u8

fun strokes :: "bool \<Rightarrow> u8 list \<Rightarrow> stroke list" where
  "strokes prefixed [] = []"
| "strokes prefixed (c # cs) =
     (if c = 0xE0 then strokes True cs
      else \<lparr>st_release = (0x80 \<le> c), st_prefixed = prefixed, st_code = c mod 0x80\<rparr> # strokes False cs)"

text \<open>
  The key of a stroke is the one whose discriminant is the code. The keys of the cursor block
  need the prefix.
\<close>

definition cursor_keys :: "key_code list" where
  "cursor_keys =
     [ArrowUp, ArrowDown, ArrowLeft, ArrowRight, Delete, Home, End, PageUp, PageDown, Insert]"

definition main_keys :: "key_code list" where
  "main_keys =
     [Key_A, Key_B, Key_C, Key_D, Key_E, Key_F, Key_G, Key_H, Key_I, Key_J, Key_K, Key_L,
      Key_M, Key_N, Key_O, Key_P, Key_Q, Key_R, Key_S, Key_T, Key_U, Key_V, Key_W, Key_X,
      Key_Y, Key_Z,
      Key0, Key1, Key2, Key3, Key4, Key5, Key6, Key7, Key8, Key9,
      F1, F2, F3, F4, F5, F6, F7, F8, F9, F10, F11, F12,
      Escape, Backspace, Tab, Enter, Space, LeftShift, RightShift, LeftCtrl, LeftAlt, CapsLock]"

definition key_of :: "stroke \<Rightarrow> key_code" where
  "key_of s =
     (case find (\<lambda>k. key_code_byte k = st_code s) (main_keys @ (if st_prefixed s then cursor_keys else [])) of
        Some k \<Rightarrow> k
      | None \<Rightarrow> Unknown)"

text \<open>
  A modifier key counts as held if the last stroke of such a key went down, and the capitals
  are locked if that key went down an odd number of times.
\<close>

definition held :: "u8 set \<Rightarrow> stroke list \<Rightarrow> bool" where
  "held codes ss = (let us = filter (\<lambda>s. st_code s \<in> codes) ss in us \<noteq> [] \<and> \<not> st_release (last us))"

definition shift_held :: "stroke list \<Rightarrow> bool" where
  "shift_held ss = held {0x2A, 0x36} ss"

definition caps_locked :: "stroke list \<Rightarrow> bool" where
  "caps_locked ss = odd (length (filter (\<lambda>s. st_code s = 0x3A \<and> \<not> st_release s) ss))"

definition modifiers_after :: "stroke list \<Rightarrow> u8" where
  "modifiers_after ss =
     of_bool (shift_held ss) + 2 * of_bool (held {0x1D} ss) + 4 * of_bool (held {0x38} ss)
     + 8 * of_bool (caps_locked ss)"

text \<open>The characters on the rows of the keyboard, each row from the code of its first key.\<close>

fun key_row :: "u8 \<Rightarrow> string \<Rightarrow> (u8 \<times> char) list" where
  "key_row code [] = []"
| "key_row code (c # cs) = (code, c) # key_row (code + 1) cs"

definition layout :: "bool \<Rightarrow> bool \<Rightarrow> (u8 \<times> char) list" where
  "layout shift caps =
     key_row 0x02 (if shift then ''!@#$%^&*()'' else ''1234567890'')
     @ key_row 0x10 (if shift \<noteq> caps then ''QWERTYUIOP'' else ''qwertyuiop'')
     @ key_row 0x1E (if shift \<noteq> caps then ''ASDFGHJKL'' else ''asdfghjkl'')
     @ key_row 0x2C (if shift \<noteq> caps then ''ZXCVBNM'' else ''zxcvbnm'')
     @ [(0x39, CHR '' ''), (0x0E, CHR 0x08), (0x0F, CHR 0x09), (0x1C, CHR 0x0A)]"

text \<open>The event of the last of a list of strokes, and all events of a stream.\<close>

definition event_of :: "stroke list \<Rightarrow> input_event" where
  "event_of ss =
     (let s = last ss in
      \<lparr>ev_type = (if st_release s then KeyRelease else KeyPress), ev_key_code = key_of s,
       ev_scancode = st_code s, ev_modifiers = modifiers_after ss,
       ev_ascii = (if st_release s then None else map_of (layout (shift_held ss) (caps_locked ss)) (st_code s)),
       ev_timestamp = 0\<rparr>)"

definition typed :: "u8 list \<Rightarrow> input_event list" where
  "typed cs = (let ss = strokes False cs in map (\<lambda>i. event_of (take (Suc i) ss)) [0..<length ss])"

text \<open>A driver whose flags are those of a stream of scancodes, whatever its queue holds.\<close>

definition in_step :: "u8 list \<Rightarrow> keyboard_driver \<Rightarrow> bool" where
  "in_step cs d \<longleftrightarrow> kbd_modifiers d = modifiers_after (strokes False cs)
     \<and> extended_scancode d = (cs \<noteq> [] \<and> last cs = 0xE0)"

text \<open>A reader of the bytes that a read request returns.\<close>

definition key_code_of_byte :: "u8 \<Rightarrow> key_code" where
  "key_code_of_byte b = scancode_to_keycode True b"

fun parse_events :: "u8 list \<Rightarrow> input_event list option" where
  "parse_events [] = Some []"
| "parse_events (t # k # s # m # has # a # rest) =
     (case parse_events rest of
        None \<Rightarrow> None
      | Some es \<Rightarrow>
          Some (\<lparr>ev_type = (if t = 0 then KeyPress else KeyRelease), ev_key_code = key_code_of_byte k,
                 ev_scancode = s, ev_modifiers = m,
                 ev_ascii = (if has = 1 then Some (char_of (unat a)) else None), ev_timestamp = 0\<rparr> # es))"
| "parse_events _ = None"

text \<open>A stream: the letter a without shift, with it and after it, and a cursor key.\<close>

definition demo_codes :: "u8 list" where
  "demo_codes = [0x1E, 0x9E, 0x2A, 0x1E, 0xAA, 0x1E, 0xE0, 0x48]"

section \<open>Scancodes and key codes\<close>

lemma keycode_roundtrip: "scancode_to_keycode True (key_code_byte k) = k"
  by (cases k) (simp_all add: scancode_to_keycode_def key_table_def extended_key_table_def)

lemma map_of_mem: "map_of xs x = Some y \<Longrightarrow> \<forall>p\<in>set xs. f (snd p) = fst p \<Longrightarrow> f y = x"
  by (drule map_of_SomeD) (metis fst_conv snd_conv)

lemma release_bit: "(c :: u8) AND 0x80 = 0 \<longleftrightarrow> c < 0x80"
proof -
  have "unat c < 256" using unsigned_less [of c, where ?'a = nat] by simp
  then have "unat c div 128 < 2" by linarith
  then have "odd (unat c div 128) \<longleftrightarrow> 128 \<le> unat c"
    by (cases "unat c div 128"; cases "unat c < 128") auto
  moreover have "bit c 7 \<longleftrightarrow> odd (unat c div 2 ^ 7)"
    using bit_unsigned_iff [of c 7, where ?'a = nat] by (simp add: bit_iff_odd)
  moreover have "c AND 2 ^ 7 = 0 \<longleftrightarrow> \<not> bit c 7" by (rule and_exp_eq_0_iff) simp
  ultimately show ?thesis by (auto simp: word_less_nat_alt)
qed

section \<open>The tables and flags against the layout of the keyboard\<close>

lemma code_bits: "(c :: u8) AND 0x7F = c mod 0x80"
proof -
  have "c AND mask 7 = c mod 2 ^ 7" by (simp only: take_bit_eq_mask [symmetric] take_bit_eq_mod)
  then show ?thesis by (simp add: mask_eq_exp_minus_1)
qed

lemma table_bytes:
  assumes "scancode_to_keycode ext b \<noteq> Unknown"
  shows "key_code_byte (scancode_to_keycode ext b) = b"
proof -
  have "\<forall>p\<in>set key_table. key_code_byte (snd p) = fst p"
       "\<forall>p\<in>set extended_key_table. key_code_byte (snd p) = fst p"
    by (simp_all add: key_table_def extended_key_table_def)
  with assms show ?thesis
    by (auto simp: scancode_to_keycode_def dest: map_of_mem split: option.splits if_splits)
qed

lemma scancode_main: "k \<in> set main_keys \<Longrightarrow> scancode_to_keycode ext (key_code_byte k) = k"
proof -
  have "list_all (\<lambda>k. scancode_to_keycode ext (key_code_byte k) = k) main_keys"
    by (simp add: main_keys_def scancode_to_keycode_def key_table_def)
  then show "k \<in> set main_keys \<Longrightarrow> scancode_to_keycode ext (key_code_byte k) = k" by (simp add: list_all_iff)
qed

lemma scancode_range:
  "scancode_to_keycode ext b \<in> {Unknown} \<union> set main_keys \<union> (if ext then set cursor_keys else {})"
proof -
  have keys: "main_keys = map snd key_table" "cursor_keys = map snd extended_key_table"
    by (simp_all add: key_table_def main_keys_def extended_key_table_def cursor_keys_def)
  show ?thesis
    by (auto simp: scancode_to_keycode_def keys dest!: map_of_SomeD intro: rev_image_eqI split: option.splits if_splits)
qed

lemma key_of_scancode: "key_of s = scancode_to_keycode (st_prefixed s) (st_code s)"
proof (cases "find (\<lambda>k. key_code_byte k = st_code s) (main_keys @ (if st_prefixed s then cursor_keys else []))")
  case None
  have "scancode_to_keycode (st_prefixed s) (st_code s) = Unknown"
  proof (rule ccontr)
    assume known: "scancode_to_keycode (st_prefixed s) (st_code s) \<noteq> Unknown"
    with scancode_range [of "st_prefixed s" "st_code s"]
    have "scancode_to_keycode (st_prefixed s) (st_code s) \<in> set (main_keys @ (if st_prefixed s then cursor_keys else []))"
      by (auto split: if_splits)
    with None table_bytes [OF known] show False by (auto simp: find_None_iff)
  qed
  with None show ?thesis by (simp add: key_of_def)
next
  case (Some k)
  then have k: "key_code_byte k = st_code s" "k \<in> set main_keys \<or> st_prefixed s"
    by (auto simp: find_Some_iff in_set_conv_nth nth_append split: if_splits)
  then have "scancode_to_keycode (st_prefixed s) (st_code s) = k"
    using scancode_main [of k "st_prefixed s"] keycode_roundtrip [of k] by auto
  with Some show ?thesis by (simp add: key_of_def)
qed

lemma uppercase_letters:
  "map to_ascii_uppercase ''abcdefghijklmnopqrstuvwxyz'' = ''ABCDEFGHIJKLMNOPQRSTUVWXYZ''"
  by (simp add: to_ascii_uppercase_def char_of_def bit_iff_odd)

lemma layout_codes:
  assumes "map_of (layout sh cp) b \<noteq> None"
  shows "scancode_to_keycode ext b \<noteq> Unknown"
proof -
  have "list_all (\<lambda>c. scancode_to_keycode ext c \<noteq> Unknown) (map fst (layout sh cp))"
    by (cases sh; cases cp) (simp_all add: layout_def scancode_to_keycode_def key_table_def)
  with assms show ?thesis by (auto simp: list_all_iff map_of_eq_None_iff)
qed

lemma layout_key:
  assumes "k \<noteq> Unknown"
  shows "map_of (layout sh cp) (key_code_byte k) =
    (case letter_of k of
       Some c \<Rightarrow> if sh \<noteq> cp then Some (to_ascii_uppercase c) else Some c
     | None \<Rightarrow> (case digit_of k of Some (shifted, plain) \<Rightarrow> Some (if sh then shifted else plain) | None \<Rightarrow> special_of k))"
  using assms uppercase_letters
  by (cases k; cases sh; cases cp) (simp_all add: layout_def letter_of_def digit_of_def special_of_def)

lemma held_snoc: "held codes (ss @ [s]) = (if st_code s \<in> codes then \<not> st_release s else held codes ss)"
  by (simp add: held_def Let_def)

lemma caps_snoc: "caps_locked (ss @ [s]) = (caps_locked ss \<noteq> (st_code s = 0x3A \<and> \<not> st_release s))"
  by (auto simp: caps_locked_def)

lemma modifier_codes:
  "scancode_to_keycode ext b = LeftShift \<longleftrightarrow> b = 0x2A" "scancode_to_keycode ext b = RightShift \<longleftrightarrow> b = 0x36"
  "scancode_to_keycode ext b = LeftCtrl \<longleftrightarrow> b = 0x1D" "scancode_to_keycode ext b = LeftAlt \<longleftrightarrow> b = 0x38"
  "scancode_to_keycode ext b = CapsLock \<longleftrightarrow> b = 0x3A"
proof -
  have "scancode_to_keycode ext 0x2A = LeftShift" "scancode_to_keycode ext 0x36 = RightShift"
    "scancode_to_keycode ext 0x1D = LeftCtrl" "scancode_to_keycode ext 0x38 = LeftAlt"
    "scancode_to_keycode ext 0x3A = CapsLock"
    by (simp_all add: scancode_to_keycode_def key_table_def)
  then show "scancode_to_keycode ext b = LeftShift \<longleftrightarrow> b = 0x2A" "scancode_to_keycode ext b = RightShift \<longleftrightarrow> b = 0x36"
    "scancode_to_keycode ext b = LeftCtrl \<longleftrightarrow> b = 0x1D" "scancode_to_keycode ext b = LeftAlt \<longleftrightarrow> b = 0x38"
    "scancode_to_keycode ext b = CapsLock \<longleftrightarrow> b = 0x3A"
    using table_bytes [of ext b] by auto
qed

lemma modifier_byte:
  fixes x y z w v :: bool
  defines "m \<equiv> of_bool x + 2 * of_bool y + 4 * of_bool z + 8 * of_bool w :: u8"
  shows "m OR SHIFT = of_bool True + 2 * of_bool y + 4 * of_bool z + 8 * of_bool w"
    "m AND NOT SHIFT = of_bool False + 2 * of_bool y + 4 * of_bool z + 8 * of_bool w"
    "m OR CTRL = of_bool x + 2 * of_bool True + 4 * of_bool z + 8 * of_bool w"
    "m AND NOT CTRL = of_bool x + 2 * of_bool False + 4 * of_bool z + 8 * of_bool w"
    "m OR ALT = of_bool x + 2 * of_bool y + 4 * of_bool True + 8 * of_bool w"
    "m AND NOT ALT = of_bool x + 2 * of_bool y + 4 * of_bool False + 8 * of_bool w"
    "m XOR CAPS_LOCK = of_bool x + 2 * of_bool y + 4 * of_bool z + 8 * of_bool (\<not> w)"
    "modifiers_contain m SHIFT = x" "modifiers_contain m CAPS_LOCK = w"
  unfolding m_def SHIFT_def CTRL_def ALT_def CAPS_LOCK_def modifiers_contain_def
  by (cases x; cases y; cases z; cases w; simp)+

lemma modifiers_snoc:
  "modifiers_after (ss @ [s]) =
     update_modifiers (scancode_to_keycode (st_prefixed s) (st_code s)) (if st_release s then KeyRelease else KeyPress)
       (modifiers_after ss)"
  by (simp add: modifiers_after_def shift_held_def held_snoc caps_snoc update_modifiers_def modifier_codes
      modifier_byte del: of_bool_eq)

lemma modifiers_flags:
  "modifiers_contain (modifiers_after ss) SHIFT = shift_held ss"
  "modifiers_contain (modifiers_after ss) CAPS_LOCK = caps_locked ss"
  by (simp_all add: modifiers_after_def modifier_byte)

lemma layout_char:
  "keycode_to_ascii (modifiers_after ss) (scancode_to_keycode ext b) =
     map_of (layout (shift_held ss) (caps_locked ss)) b"
proof (cases "scancode_to_keycode ext b = Unknown")
  case True
  with layout_codes [of "shift_held ss" "caps_locked ss" b ext]
  have "map_of (layout (shift_held ss) (caps_locked ss)) b = None" by blast
  with True show ?thesis
    by (simp add: keycode_to_ascii_def letter_of_def digit_of_def special_of_def Let_def)
next
  case False
  from layout_key [OF False] table_bytes [OF False] show ?thesis
    by (simp add: keycode_to_ascii_def Let_def modifiers_flags)
qed

section \<open>The queue\<close>

lemma queue_event_fields [simp]:
  "kbd_status (queue_event e d) = kbd_status d" "kbd_modifiers (queue_event e d) = kbd_modifiers d"
  "extended_scancode (queue_event e d) = extended_scancode d"
  "max_queue_size (queue_event e d) = max_queue_size d"
  by (simp_all add: queue_event_def)

lemma make_room_drop: "0 < n \<Longrightarrow> make_room n es = drop (length es + 1 - n) es"
proof (induction es)
  case (Cons e es)
  then show ?case by (cases "n \<le> length (e # es)") (simp_all add: Suc_diff_le)
qed simp

lemma queue_event_latest:
  assumes "keyboard_ok d"
  shows "event_queue (queue_event e d) =
     drop (length (event_queue d @ [e]) - unat (max_queue_size d)) (event_queue d @ [e])"
proof -
  have "0 < unat (max_queue_size d)" using assms by (simp add: keyboard_ok_def word_less_nat_alt)
  then show ?thesis by (simp add: queue_event_def make_room_drop)
qed

lemma queue_event_ok:
  assumes "keyboard_ok d"
  shows "keyboard_ok (queue_event e d)"
proof -
  have "length (event_queue (queue_event e d)) \<le> unat (max_queue_size d)"
    unfolding queue_event_latest [OF assms] by simp
  with assms show ?thesis by (simp add: keyboard_ok_def)
qed

lemma process_scancode_prefix: "process_scancode 0xE0 d = d\<lparr>extended_scancode := True\<rparr>"
  by (simp add: process_scancode_def)

lemma process_scancode_queue:
  assumes "c \<noteq> 0xE0"
  obtains e m where "process_scancode c d = (queue_event e (d\<lparr>kbd_modifiers := m\<rparr>))\<lparr>extended_scancode := False\<rparr>"
  using assms that by (simp add: process_scancode_def Let_def)

lemma process_scancode_ok:
  assumes "keyboard_ok d"
  shows "keyboard_ok (process_scancode c d)"
proof (cases "c = 0xE0")
  case True
  with assms show ?thesis by (simp add: process_scancode_prefix keyboard_ok_def)
next
  case False
  then obtain e m where p: "process_scancode c d = (queue_event e (d\<lparr>kbd_modifiers := m\<rparr>))\<lparr>extended_scancode := False\<rparr>"
    by (rule process_scancode_queue)
  have "keyboard_ok (queue_event e (d\<lparr>kbd_modifiers := m\<rparr>))" using assms by (intro queue_event_ok) (simp add: keyboard_ok_def)
  then show ?thesis by (simp add: p keyboard_ok_def)
qed

lemma process_scancode_fields [simp]:
  "kbd_status (process_scancode c d) = kbd_status d"
  "max_queue_size (process_scancode c d) = max_queue_size d"
  by (simp_all add: process_scancode_def Let_def)

lemma drop_excess:
  "drop (length (drop (length xs - n) xs @ zs) - n) (drop (length xs - n) xs @ zs) =
     drop (length (xs @ zs) - n) (xs @ zs)"
proof (cases "length xs \<le> n")
  case False
  then have "length zs + (length xs - n) = length xs + length zs - n" by simp
  with False show ?thesis by simp
qed simp

section \<open>The queue of a stream\<close>

lemma strokes_snoc:
  "strokes prefixed (cs @ [c]) = strokes prefixed cs @
     (if c = 0xE0 then []
      else [\<lparr>st_release = (0x80 \<le> c), st_prefixed = (if cs = [] then prefixed else last cs = 0xE0),
             st_code = c mod 0x80\<rparr>])"
  by (induction cs arbitrary: prefixed) auto

lemma typed_snoc:
  "typed (cs @ [c]) = typed cs @ (if c = 0xE0 then [] else [event_of (strokes False (cs @ [c]))])"
  by (auto simp: typed_def strokes_snoc Let_def)

lemma typed_append: "\<exists>es. typed (hs @ cs) = typed hs @ es"
proof (induction cs rule: rev_induct)
  case (snoc c cs)
  then show ?case using typed_snoc [of "hs @ cs" c] by auto
qed simp

lemma typed_Cons:
  "drop (length (typed hs)) (typed (hs @ c # cs)) =
     (if c = 0xE0 then [] else [event_of (strokes False (hs @ [c]))])
     @ drop (length (typed (hs @ [c]))) (typed ((hs @ [c]) @ cs))"
proof -
  obtain es where "typed ((hs @ [c]) @ cs) = typed (hs @ [c]) @ es" using typed_append by blast
  then show ?thesis by (simp add: typed_snoc)
qed

lemma in_step_init: "in_step [] (snd (keyboard_init d))"
  by (simp add: in_step_def keyboard_init_def clear_events_def modifiers_after_def shift_held_def held_def caps_locked_def)

lemma process_scancode_stroke:
  assumes "in_step hs d" "c \<noteq> 0xE0"
  defines "e \<equiv> event_of (strokes False (hs @ [c]))"
  shows "process_scancode c d = (queue_event e (d\<lparr>kbd_modifiers := ev_modifiers e\<rparr>))\<lparr>extended_scancode := False\<rparr>"
proof -
  define s where "s = \<lparr>st_release = (0x80 \<le> c), st_prefixed = extended_scancode d, st_code = c mod 0x80\<rparr>"
  have ss: "strokes False (hs @ [c]) = strokes False hs @ [s]"
    using assms(1,2) by (auto simp: strokes_snoc s_def in_step_def)
  let ?t = "if st_release s then KeyRelease else KeyPress"
  have m: "modifiers_after (strokes False hs @ [s]) = update_modifiers (key_of s) ?t (kbd_modifiers d)"
    using assms(1) by (simp add: modifiers_snoc key_of_scancode in_step_def)
  have ascii: "keycode_to_ascii (modifiers_after us) (key_of s) =
      map_of (layout (shift_held us) (caps_locked us)) (st_code s)" for us
    by (simp add: layout_char key_of_scancode)
  have code: "key_of s = scancode_to_keycode (extended_scancode d) (c AND 0x7F)"
    by (simp add: key_of_scancode s_def code_bits)
  have rel: "(c AND 0x80 \<noteq> 0) = st_release s" by (auto simp: release_bit s_def)
  have e: "e = \<lparr>ev_type = ?t, ev_key_code = key_of s, ev_scancode = c AND 0x7F,
      ev_modifiers = update_modifiers (key_of s) ?t (kbd_modifiers d),
      ev_ascii = (if ?t = KeyPress then keycode_to_ascii (update_modifiers (key_of s) ?t (kbd_modifiers d)) (key_of s) else None),
      ev_timestamp = 0\<rparr>"
    unfolding e_def ss event_of_def Let_def last_snoc ascii [symmetric] m by (simp add: s_def code_bits)
  show ?thesis
    using assms(2) by (simp add: process_scancode_def Let_def rel code [symmetric] e)
qed

lemma in_step_process:
  assumes "in_step hs d"
  shows "in_step (hs @ [c]) (process_scancode c d)"
proof (cases "c = 0xE0")
  case True
  with assms show ?thesis by (simp add: in_step_def process_scancode_prefix strokes_snoc)
next
  case False
  with process_scancode_stroke [OF assms False] show ?thesis
    by (simp add: in_step_def event_of_def Let_def)
qed

lemma process_stream:
  assumes "in_step hs d" "keyboard_ok d"
  shows "in_step (hs @ cs) (fold process_scancode cs d) \<and> event_queue (fold process_scancode cs d) =
     (let es = event_queue d @ drop (length (typed hs)) (typed (hs @ cs))
      in drop (length es - unat (max_queue_size d)) es)"
  using assms
proof (induction cs arbitrary: hs d)
  case Nil
  then show ?case by (simp add: keyboard_ok_def)
next
  case (Cons c cs)
  note IH = Cons.IH [OF in_step_process [OF Cons.prems(1)] process_scancode_ok [OF Cons.prems(2)], of c]
  have queue: "event_queue (process_scancode c d) =
      (let es = event_queue d @ (if c = 0xE0 then [] else [event_of (strokes False (hs @ [c]))])
       in drop (length es - unat (max_queue_size d)) es)"
  proof (cases "c = 0xE0")
    case True
    with Cons.prems(2) show ?thesis by (simp add: process_scancode_prefix keyboard_ok_def)
  next
    case False
    define e where "e = event_of (strokes False (hs @ [c]))"
    have "keyboard_ok (d\<lparr>kbd_modifiers := ev_modifiers e\<rparr>)" using Cons.prems(2) by (simp add: keyboard_ok_def)
    from queue_event_latest [OF this, of e] False show ?thesis
      by (simp add: process_scancode_stroke [OF Cons.prems(1) False] Let_def flip: e_def)
  qed
  have step: "fold process_scancode (c # cs) d = fold process_scancode cs (process_scancode c d)"
    "hs @ c # cs = (hs @ [c]) @ cs" by simp_all
  show ?case
    using IH drop_excess [of "event_queue d @ (if c = 0xE0 then [] else [event_of (strokes False (hs @ [c]))])"]
    unfolding typed_Cons step(1) queue Let_def process_scancode_fields by (simp only: append_assoc) simp
qed

section \<open>Reading\<close>

declare read_events.simps [simp del]

lemma read_events_all: "read_events d = (concat (map serialize_event (event_queue d)), d\<lparr>event_queue := []\<rparr>)"
proof (induction "event_queue d" arbitrary: d)
  case Nil
  then show ?case by (subst read_events.simps) (simp add: get_next_event_def)
next
  case (Cons e es)
  have "read_events (d\<lparr>event_queue := es\<rparr>) = (concat (map serialize_event es), d\<lparr>event_queue := []\<rparr>)"
    using Cons.hyps(1) [of "d\<lparr>event_queue := es\<rparr>"] by simp
  then show ?case using Cons.hyps(2) [symmetric]
    by (subst read_events.simps) (simp add: get_next_event_def)
qed

lemma parse_serialize:
  "parse_events (serialize_event e @ rest) = map_option ((#) (e\<lparr>ev_timestamp := 0\<rparr>)) (parse_events rest)"
proof -
  have "event_type_byte t = 0 \<longleftrightarrow> t = KeyPress" for t by (cases t) simp_all
  then show ?thesis
    by (cases "ev_type e"; cases "ev_ascii e"; cases "parse_events rest")
      (simp_all add: serialize_event_def key_code_of_byte_def keycode_roundtrip unat_of_nat)
qed

section \<open>The driver follows the contract\<close>

lemma clear_events_fields [simp]:
  "event_queue (clear_events d) = []" "kbd_status (clear_events d) = kbd_status d"
  "max_queue_size (clear_events d) = max_queue_size d" "kbd_modifiers (clear_events d) = kbd_modifiers d"
  by (simp_all add: clear_events_def)

lemma keyboard_control_effect:
  assumes "keyboard_ok d"
  shows "keyboard_ok (snd (keyboard_control c bs d)) \<and> kbd_status (snd (keyboard_control c bs d)) = kbd_status d"
proof -
  have "keyboard_ok (clear_events d)" using assms by (simp add: keyboard_ok_def)
  with assms process_scancode_ok [OF assms] show ?thesis
    by (auto simp: keyboard_control_def Let_def keyboard_ok_def split: list.splits)
qed

lemma keyboard_request_effect:
  assumes "keyboard_ok d"
  shows "keyboard_ok (snd (keyboard_request r d)) \<and>
     kbd_status (snd (keyboard_request r d)) = status_after (Asks r) (kbd_status d)"
  using assms keyboard_control_effect [OF assms]
  by (cases r) (simp_all add: keyboard_request_def keyboard_init_def read_events_all keyboard_ok_def)

interpretation keyboard: lifecycle keyboard_step kbd_status keyboard_ok
proof
  fix s e
  assume ok: "keyboard_ok s"
  show "\<exists>s'. keyboard_step e s = Returns s' \<and> keyboard_ok s' \<and> kbd_status s' = status_after e (kbd_status s)"
  proof (cases e)
    case (Asks r)
    with keyboard_request_effect [OF ok, of r] show ?thesis by (simp add: keyboard_step_def)
  next
    case (Powers p)
    with ok show ?thesis
      by (cases p) (simp_all add: keyboard_step_def keyboard_power_event_def keyboard_cleanup_def keyboard_ok_def)
  qed (use ok in \<open>simp_all add: keyboard_step_def keyboard_init_def keyboard_cleanup_def keyboard_ok_def\<close>)
qed

section \<open>Properties of the keyboard\<close>

text \<open>
  C33: the queue of the driver holds the latest events of the stream of scancodes it has been
  given, in order, as many as its limit allows, whatever was read from the queue in between. The
  key of an event is the one whose discriminant is the code, cursor keys only after the prefix;
  shift, control and alt are set if the last stroke of such a key went down, the lock if its key
  went down an odd number of times; and the character is the one at the key's place in the rows
  of the keyboard, upper case if exactly one of shift and lock is set, and none on a release. The
  flags of the driver are those of the stream from its initialisation on.
\<close>

theorem keyboard_keeps_latest:
  assumes "keyboard_ok d" "in_step hs d"
  shows "in_step [] (snd (keyboard_init d)) \<and> in_step (hs @ cs) (fold process_scancode cs d) \<and>
    event_queue (fold process_scancode cs d) =
     (let es = event_queue d @ drop (length (typed hs)) (typed (hs @ cs))
      in drop (length es - unat (max_queue_size d)) es)"
  using process_stream [OF assms(2,1)] in_step_init by blast

theorem keyboard_keeps_latest_witness:
  "map ev_ascii (event_queue (fold process_scancode demo_codes (snd (keyboard_init keyboard_new)))) =
     [Some CHR ''a'', None, None, Some CHR ''A'', None, Some CHR ''a'', None] \<and>
   ev_key_code (last (event_queue (fold process_scancode demo_codes (snd (keyboard_init keyboard_new))))) = ArrowUp"
proof -
  let ?d = "snd (keyboard_init keyboard_new)"
  have d: "event_queue ?d = []" "unat (max_queue_size ?d) = 256" "keyboard_ok ?d"
    by (simp_all add: keyboard_ok_def keyboard_init_def clear_events_def keyboard_new_def)
  have "typed [] = []" by (simp add: typed_def)
  moreover have "map ev_ascii (typed demo_codes) =
      [Some CHR ''a'', None, None, Some CHR ''A'', None, Some CHR ''a'', None]
      \<and> ev_key_code (last (typed demo_codes)) = ArrowUp \<and> length (typed demo_codes) = 7"
    by (simp add: typed_def demo_codes_def event_of_def shift_held_def held_def caps_locked_def layout_def key_of_def
        main_keys_def cursor_keys_def Let_def upt_rec)
  ultimately show ?thesis
    using keyboard_keeps_latest [OF d(3) in_step_init, of demo_codes] d(1,2) by simp
qed

text \<open>
  C34: a read request returns six bytes for each queued event and empties the queue; a reader that
  knows the key codes recovers the events from the bytes.
\<close>

theorem read_request_roundtrip:
  "\<exists>bytes. keyboard_request (Read offset len) d = (Ok (Data bytes), d\<lparr>event_queue := []\<rparr>) \<and>
     length bytes = 6 * event_count d \<and>
     parse_events bytes = Some (map (\<lambda>e. e\<lparr>ev_timestamp := 0\<rparr>) (event_queue d))"
proof -
  have "length (concat (map serialize_event es)) = 6 * length es" for es
    by (induction es) (simp_all add: serialize_event_def split: option.split)
  moreover have "parse_events (concat (map serialize_event es)) = Some (map (\<lambda>e. e\<lparr>ev_timestamp := 0\<rparr>) es)" for es
    by (induction es) (simp_all add: parse_serialize)
  ultimately show ?thesis
    by (simp add: keyboard_request_def read_events_all event_count_def)
qed

text \<open>
  Any sequence of requests, power events, initialisations and clean-ups leaves the keyboard
  with a queue within its limit, in the status that the contract of drivers prescribes.
\<close>

theorem keyboard_lifecycle:
  assumes "keyboard_ok d"
  shows "\<exists>d'. run_driver keyboard_step es d = Returns d' \<and> keyboard_ok d' \<and>
     kbd_status d' = fold status_after es (kbd_status d)"
  using assms by (rule keyboard.run_returns)

theorem keyboard_lifecycle_witness:
  "\<exists>d'. run_driver keyboard_step [Starts, Asks (Control 3 [0x1E]), Powers Suspend] keyboard_new = Returns d' \<and>
     kbd_status d' = Suspended"
proof -
  have "keyboard_ok keyboard_new" by (simp add: keyboard_ok_def keyboard_new_def)
  from keyboard_lifecycle [OF this, of "[Starts, Asks (Control 3 [0x1E]), Powers Suspend]"]
  show ?thesis by auto
qed

text \<open>
  Holding both shift keys and releasing one of them clears the shift modifier while the other
  is still held: the next letter comes out as if no shift key were down.
\<close>

theorem shift_forgotten:
  "\<not> modifiers_contain (kbd_modifiers (fold process_scancode [0x2A, 0x36, 0xB6] d)) SHIFT"
proof -
  have k: "scancode_to_keycode ext 0x2A = LeftShift" "scancode_to_keycode ext 0x36 = RightShift" for ext
    by (simp_all add: scancode_to_keycode_def key_table_def)
  have "\<not> modifiers_contain (m AND NOT SHIFT) SHIFT" for m
    by (simp add: modifiers_contain_def SHIFT_def and.assoc)
  then show ?thesis by (simp add: process_scancode_def k update_modifiers_def Let_def)
qed

end
