(* ===== verification/Vga_Text.thy ===== *)
theory Vga_Text
  imports Driver_Framework
begin

text \<open>
  The text-mode display driver of \<^verbatim>\<open>drivers/graphics\<close>: a screen of 25 rows of 80 cells with a
  cursor, and the driver's requests and power events. The screen is a list of rows, whose cells
  the code reads and writes by index: an index out of range is a panic. Text is given as the
  bytes of its UTF-8 encoding.
\<close>

section \<open>Colours and cells\<close>

datatype vga_color = Black | Blue | Green | Cyan | Red | Magenta | Brown | LightGray | DarkGray
  | LightBlue | LightGreen | LightCyan | LightRed | Pink | Yellow | White

primrec vga_color_byte :: "vga_color \<Rightarrow> u8" where
  "vga_color_byte Black = 0" | "vga_color_byte Blue = 1" | "vga_color_byte Green = 2"
| "vga_color_byte Cyan = 3" | "vga_color_byte Red = 4" | "vga_color_byte Magenta = 5"
| "vga_color_byte Brown = 6" | "vga_color_byte LightGray = 7" | "vga_color_byte DarkGray = 8"
| "vga_color_byte LightBlue = 9" | "vga_color_byte LightGreen = 10" | "vga_color_byte LightCyan = 11"
| "vga_color_byte LightRed = 12" | "vga_color_byte Pink = 13" | "vga_color_byte Yellow = 14"
| "vga_color_byte White = 15"

text \<open>The colour that \<^verbatim>\<open>transmute\<close> makes of a byte below 16.\<close>

definition vga_color_of :: "u8 \<Rightarrow> vga_color" where
  "vga_color_of b =
     [Black, Blue, Green, Cyan, Red, Magenta, Brown, LightGray, DarkGray, LightBlue, LightGreen,
      LightCyan, LightRed, Pink, Yellow, White] ! unat b"

definition vga_color_code :: "vga_color \<Rightarrow> vga_color \<Rightarrow> u8" where
  "vga_color_code foreground background =
     push_bit 4 (vga_color_byte background) OR vga_color_byte foreground"

record vga_char =
  ascii_character :: u8
  cell_color :: u8

definition VGA_BUFFER_HEIGHT :: nat where "VGA_BUFFER_HEIGHT = 25"
definition VGA_BUFFER_WIDTH :: nat where "VGA_BUFFER_WIDTH = 80"

record vga_driver =
  vga_buffer :: "vga_char list list"
  cursor_row :: nat
  cursor_col :: nat
  color_code :: u8
  vga_status :: driver_status

text \<open>A new driver takes the screen as it finds it.\<close>

definition vga_new :: "vga_char list list \<Rightarrow> vga_driver" where
  "vga_new screen =
     \<lparr>vga_buffer = screen, cursor_row = 0, cursor_col = 0, color_code = vga_color_code White Black,
      vga_status = Uninitialized\<rparr>"

section \<open>Writing to the screen\<close>

fun for_each :: "('a \<Rightarrow> 's \<Rightarrow> 's outcome) \<Rightarrow> 'a list \<Rightarrow> 's \<Rightarrow> 's outcome" where
  "for_each f [] s = Returns s"
| "for_each f (x # xs) s = and_then (f x s) (for_each f xs)"

definition read_cell :: "nat \<Rightarrow> nat \<Rightarrow> vga_driver \<Rightarrow> vga_char outcome" where
  "read_cell row col d = and_then (array_get (vga_buffer d) row) (\<lambda>r. array_get r col)"

definition write_cell :: "nat \<Rightarrow> nat \<Rightarrow> vga_char \<Rightarrow> vga_driver \<Rightarrow> vga_driver outcome" where
  "write_cell row col c d =
     and_then (read_cell row col d)
       (\<lambda>_. Returns (d\<lparr>vga_buffer := (vga_buffer d)[row := (vga_buffer d ! row)[col := c]]\<rparr>))"

definition blank_cell :: "vga_driver \<Rightarrow> vga_char" where
  "blank_cell d = \<lparr>ascii_character = 0x20, cell_color = color_code d\<rparr>"

definition clear_row :: "nat \<Rightarrow> vga_driver \<Rightarrow> vga_driver outcome" where
  "clear_row row d = for_each (\<lambda>col. write_cell row col (blank_cell d)) [0..<VGA_BUFFER_WIDTH] d"

definition copy_cell :: "nat \<Rightarrow> nat \<Rightarrow> vga_driver \<Rightarrow> vga_driver outcome" where
  "copy_cell row col d = and_then (read_cell row col d) (\<lambda>c. write_cell (row - 1) col c d)"

definition scroll_up :: "vga_driver \<Rightarrow> vga_driver outcome" where
  "scroll_up d = for_each (\<lambda>row. for_each (copy_cell row) [0..<VGA_BUFFER_WIDTH]) [1..<VGA_BUFFER_HEIGHT] d"

definition new_line :: "vga_driver \<Rightarrow> vga_driver outcome" where
  "new_line d =
     and_then
       (if cursor_row d \<ge> VGA_BUFFER_HEIGHT - 1
        then and_then (scroll_up d) (clear_row (VGA_BUFFER_HEIGHT - 1))
        else Returns (d\<lparr>cursor_row := cursor_row d + 1\<rparr>))
       (\<lambda>d. Returns (d\<lparr>cursor_col := 0\<rparr>))"

definition write_byte :: "u8 \<Rightarrow> vga_driver \<Rightarrow> vga_driver outcome" where
  "write_byte b d =
     (if b = 0x0A then new_line d
      else
        and_then (if cursor_col d \<ge> VGA_BUFFER_WIDTH then new_line d else Returns d)
          (\<lambda>d. and_then
             (write_cell (cursor_row d) (cursor_col d)
                \<lparr>ascii_character = b, cell_color = color_code d\<rparr> d)
             (\<lambda>d. Returns (d\<lparr>cursor_col := cursor_col d + 1\<rparr>))))"

definition shown_byte :: "u8 \<Rightarrow> u8" where
  "shown_byte b = (if 0x20 \<le> b \<and> b \<le> 0x7E \<or> b = 0x0A then b else 0xFE)"

definition write_string :: "u8 list \<Rightarrow> vga_driver \<Rightarrow> vga_driver outcome" where
  "write_string s d = for_each (\<lambda>b. write_byte (shown_byte b)) s d"

definition set_color :: "vga_color \<Rightarrow> vga_color \<Rightarrow> vga_driver \<Rightarrow> vga_driver" where
  "set_color foreground background d = d\<lparr>color_code := vga_color_code foreground background\<rparr>"

definition clear_screen :: "vga_driver \<Rightarrow> vga_driver outcome" where
  "clear_screen d =
     and_then
       (for_each (\<lambda>row. for_each (\<lambda>col. write_cell row col (blank_cell d)) [0..<VGA_BUFFER_WIDTH])
          [0..<VGA_BUFFER_HEIGHT] d)
       (\<lambda>d. Returns (d\<lparr>cursor_row := 0, cursor_col := 0\<rparr>))"

definition set_cursor :: "nat \<Rightarrow> nat \<Rightarrow> vga_driver \<Rightarrow> vga_driver" where
  "set_cursor row col d =
     (if row < VGA_BUFFER_HEIGHT \<and> col < VGA_BUFFER_WIDTH then d\<lparr>cursor_row := row, cursor_col := col\<rparr>
      else d)"

definition get_cursor :: "vga_driver \<Rightarrow> nat \<times> nat" where
  "get_cursor d = (cursor_row d, cursor_col d)"

section \<open>Requests\<close>

text \<open>\<^verbatim>\<open>core::str::from_utf8\<close> accepts a byte sequence exactly if it is well-formed UTF-8.\<close>

definition utf8_tail :: "u8 \<Rightarrow> bool" where
  "utf8_tail b \<longleftrightarrow> 0x80 \<le> b \<and> b \<le> 0xBF"

fun utf8_valid :: "u8 list \<Rightarrow> bool" where
  "utf8_valid [] = True"
| "utf8_valid (a # bs) =
     (if a < 0x80 then utf8_valid bs
      else if 0xC2 \<le> a \<and> a \<le> 0xDF
      then (case bs of b # rest \<Rightarrow> utf8_tail b \<and> utf8_valid rest | _ \<Rightarrow> False)
      else if 0xE0 \<le> a \<and> a \<le> 0xEF
      then (case bs of b # c # rest \<Rightarrow>
              utf8_tail b \<and> utf8_tail c \<and> (a = 0xE0 \<longrightarrow> 0xA0 \<le> b) \<and> (a = 0xED \<longrightarrow> b \<le> 0x9F) \<and>
              utf8_valid rest
            | _ \<Rightarrow> False)
      else if 0xF0 \<le> a \<and> a \<le> 0xF4
      then (case bs of b # c # e # rest \<Rightarrow>
              utf8_tail b \<and> utf8_tail c \<and> utf8_tail e \<and> (a = 0xF0 \<longrightarrow> 0x90 \<le> b) \<and>
              (a = 0xF4 \<longrightarrow> b \<le> 0x8F) \<and> utf8_valid rest
            | _ \<Rightarrow> False)
      else False)"

text \<open>The line that \<^verbatim>\<open>init\<close> writes, as bytes.\<close>

definition vga_banner :: "u8 list" where
  "vga_banner = map (\<lambda>c. of_nat (of_char c)) (''VGA Text Mode Driver Initialized'' @ [CHR 0x0A])"

definition vga_init :: "vga_driver \<Rightarrow> ((unit, driver_error) result \<times> vga_driver) outcome" where
  "vga_init d =
     and_then (clear_screen (d\<lparr>vga_status := Initializing\<rparr>))
       (\<lambda>d. and_then (write_string vga_banner (set_color White Black d))
          (\<lambda>d. Returns (Ok (), d\<lparr>vga_status := DriverReady\<rparr>)))"

definition vga_info :: driver_info where
  "vga_info =
     \<lparr>di_name = ''VGA Text Mode Driver'', di_version = ''1.0.0'', di_vendor = ''Kosh OS'',
      di_description = ''VGA text mode display driver with color support'', di_type = Graphics,
      di_hardware_ids = [\<lparr>vendor_id = 0x1234, device_id = 0x1111, subsystem_vendor_id = None,
                          subsystem_device_id = None\<rparr>]\<rparr>"

definition vga_control ::
    "u32 \<Rightarrow> u8 list \<Rightarrow> vga_driver \<Rightarrow> ((driver_response, driver_error) result \<times> vga_driver) outcome" where
  "vga_control command bytes d =
     (if command = 1 then and_then (clear_screen d) (\<lambda>d. Returns (Ok Success, d))
      else if command = 2 then
        Returns
          (if length bytes \<ge> 2 \<and> bytes ! 0 \<le> 15 \<and> bytes ! 1 \<le> 15
           then (Ok Success, set_color (vga_color_of (bytes ! 0)) (vga_color_of (bytes ! 1)) d)
           else (Err InvalidRequest, d))
      else if command = 3 then
        Returns
          (if length bytes \<ge> 2 then (Ok Success, set_cursor (unat (bytes ! 0)) (unat (bytes ! 1)) d)
           else (Err InvalidRequest, d))
      else Returns (Err InvalidRequest, d))"

definition vga_request ::
    "driver_request \<Rightarrow> vga_driver \<Rightarrow> ((driver_response, driver_error) result \<times> vga_driver) outcome" where
  "vga_request request d =
     (case request of
        Initialize \<Rightarrow> and_then (vga_init d) (\<lambda>(_, d). Returns (Ok Success, d))
      | Write _ bytes \<Rightarrow>
          if utf8_valid bytes then and_then (write_string bytes d) (\<lambda>d. Returns (Ok Success, d))
          else Returns (Err InvalidRequest, d)
      | Control command bytes \<Rightarrow> vga_control command bytes d
      | Query QueryStatus \<Rightarrow> Returns (Ok (Status (vga_status d)), d)
      | Query QueryHardwareInfo \<Rightarrow> Returns (Ok (Info vga_info), d)
      | _ \<Rightarrow> Returns (Err InvalidRequest, d))"

definition vga_cleanup :: "vga_driver \<Rightarrow> ((unit, driver_error) result \<times> vga_driver) outcome" where
  "vga_cleanup d =
     and_then (clear_screen (d\<lparr>vga_status := Stopping\<rparr>))
       (\<lambda>d. Returns (Ok (), d\<lparr>vga_status := Uninitialized\<rparr>))"

definition vga_required_capabilities :: "driver_capability_type list" where
  "vga_required_capabilities = [MemoryAccess, HardwareAccess]"

definition vga_provided_capabilities :: "driver_capability_type list" where
  "vga_provided_capabilities = [TextOutput, GraphicsOutput]"

definition vga_power_event ::
    "power_event \<Rightarrow> vga_driver \<Rightarrow> ((unit, driver_error) result \<times> vga_driver) outcome" where
  "vga_power_event e d =
     (case e of
        Suspend \<Rightarrow> Returns (Ok (), d\<lparr>vga_status := Suspended\<rparr>)
      | Resume \<Rightarrow> and_then (clear_screen (d\<lparr>vga_status := DriverReady\<rparr>)) (\<lambda>d. Returns (Ok (), d))
      | PowerDown \<Rightarrow> vga_cleanup d
      | _ \<Rightarrow> Returns (Ok (), d))"

section \<open>The global driver and its factory\<close>

definition init_vga_driver ::
    "vga_char list list \<Rightarrow> vga_driver option \<Rightarrow> ((unit, driver_error) result \<times> vga_driver option) outcome" where
  "init_vga_driver screen g = and_then (vga_init (vga_new screen)) (\<lambda>(r, d). Returns (r, Some d))"

definition vga_write :: "u8 list \<Rightarrow> vga_driver option \<Rightarrow> vga_driver option outcome" where
  "vga_write text g =
     (case g of Some d \<Rightarrow> and_then (write_string text d) (\<lambda>d. Returns (Some d)) | None \<Rightarrow> Returns None)"

definition vga_set_color :: "vga_color \<Rightarrow> vga_color \<Rightarrow> vga_driver option \<Rightarrow> vga_driver option" where
  "vga_set_color foreground background g = map_option (set_color foreground background) g"

definition vga_clear_screen :: "vga_driver option \<Rightarrow> vga_driver option outcome" where
  "vga_clear_screen g =
     (case g of Some d \<Rightarrow> and_then (clear_screen d) (\<lambda>d. Returns (Some d)) | None \<Rightarrow> Returns None)"

definition vga_can_handle :: "hardware_id \<Rightarrow> bool" where
  "vga_can_handle h \<longleftrightarrow> vendor_id h = 0x1234 \<and> device_id h = 0x1111"

section \<open>Lines of text\<close>

text \<open>A screen of 25 rows of 80 cells with the cursor on it, or just past the end of a row.\<close>

definition screen_ok :: "vga_driver \<Rightarrow> bool" where
  "screen_ok d \<longleftrightarrow> length (vga_buffer d) = 25 \<and> (\<forall>r\<in>set (vga_buffer d). length r = 80) \<and>
     cursor_row d < 25 \<and> cursor_col d \<le> 80"

text \<open>
  Text as lines of at most 80 bytes: a byte goes to the last line, or to a new one if that is
  full; a newline starts one.
\<close>

definition put_byte :: "u8 \<Rightarrow> u8 list list \<Rightarrow> u8 list list" where
  "put_byte b ls =
     (if b = 0x0A then ls @ [[]]
      else if length (last ls) \<ge> 80 then ls @ [[b]]
      else butlast ls @ [last ls @ [b]])"

text \<open>A line as a row of the screen, and the last 25 lines as the screen.\<close>

definition shown_line :: "u8 \<Rightarrow> u8 list \<Rightarrow> vga_char list" where
  "shown_line c l = map (\<lambda>b. \<lparr>ascii_character = b, cell_color = c\<rparr>) l @
     replicate (80 - length l) \<lparr>ascii_character = 0x20, cell_color = c\<rparr>"

definition shown_lines :: "u8 \<Rightarrow> u8 list list \<Rightarrow> vga_char list list" where
  "shown_lines c ls = map (shown_line c) (drop (length ls - 25) ls) @ replicate (25 - length ls) (shown_line c [])"

definition vga_step :: "driver_event \<Rightarrow> vga_driver \<Rightarrow> vga_driver outcome" where
  "vga_step e d =
     (case e of
        Starts \<Rightarrow> and_then (vga_init d) (\<lambda>(_, d). Returns d)
      | Asks r \<Rightarrow> and_then (vga_request r d) (\<lambda>(_, d). Returns d)
      | Cleans \<Rightarrow> and_then (vga_cleanup d) (\<lambda>(_, d). Returns d)
      | Powers p \<Rightarrow> and_then (vga_power_event p d) (\<lambda>(_, d). Returns d))"

text \<open>The driver shows some lines, in one colour.\<close>

definition shows_lines :: "u8 \<Rightarrow> u8 list list \<Rightarrow> vga_driver \<Rightarrow> bool" where
  "shows_lines c ls d \<longleftrightarrow> ls \<noteq> [] \<and> (\<forall>l\<in>set ls. length l \<le> 80) \<and> vga_buffer d = shown_lines c ls \<and>
     cursor_row d = min (length ls - 1) 24 \<and> cursor_col d = length (last ls) \<and> color_code d = c"

definition demo_screen :: "vga_char list list" where
  "demo_screen = replicate 25 (replicate 80 \<lparr>ascii_character = 0, cell_color = 0x1F\<rparr>)"

section \<open>Loops over cells\<close>

lemma for_each_append: "for_each f (xs @ ys) s = and_then (for_each f xs s) (for_each f ys)"
proof (induction xs arbitrary: s)
  case (Cons x xs)
  then show ?case by (cases "f x s") simp_all
qed simp

lemma write_cell_Returns:
  "row < length (vga_buffer d) \<Longrightarrow> col < length (vga_buffer d ! row) \<Longrightarrow>
     write_cell row col c d = Returns (d\<lparr>vga_buffer := (vga_buffer d)[row := (vga_buffer d ! row)[col := c]]\<rparr>)"
  by (simp add: write_cell_def read_cell_def array_get_def)

lemma copy_cell_Returns:
  "row < length (vga_buffer d) \<Longrightarrow> col < length (vga_buffer d ! row) \<Longrightarrow> col < length (vga_buffer d ! (row - 1)) \<Longrightarrow>
     copy_cell row col d =
       Returns (d\<lparr>vga_buffer := (vga_buffer d)[row - 1 := (vga_buffer d ! (row - 1))[col := vga_buffer d ! row ! col]]\<rparr>)"
  by (simp add: copy_cell_def write_cell_Returns read_cell_def array_get_def)

lemma write_row:
  assumes "row < length (vga_buffer d)" "n \<le> length (vga_buffer d ! row)"
  shows "for_each (\<lambda>col. write_cell row col c) [0..<n] d =
     Returns (d\<lparr>vga_buffer := (vga_buffer d)[row := replicate n c @ drop n (vga_buffer d ! row)]\<rparr>)"
  using assms(2)
proof (induction n)
  case 0
  with assms(1) show ?case by simp
next
  case (Suc n)
  then have IH: "for_each (\<lambda>col. write_cell row col c) [0..<n] d =
     Returns (d\<lparr>vga_buffer := (vga_buffer d)[row := replicate n c @ drop n (vga_buffer d ! row)]\<rparr>)" by simp
  have "(replicate n c @ drop n (vga_buffer d ! row))[n := c] = replicate (Suc n) c @ drop (Suc n) (vga_buffer d ! row)"
    using Suc.prems by (simp add: list_update_append Cons_nth_drop_Suc [symmetric] replicate_append_same)
  with Suc.prems assms(1) show ?case
    by (simp add: for_each_append IH write_cell_Returns)
qed

lemma copy_row:
  assumes "0 < row" "row < length (vga_buffer d)" "n \<le> length (vga_buffer d ! row)"
    "n \<le> length (vga_buffer d ! (row - 1))"
  shows "for_each (copy_cell row) [0..<n] d =
     Returns (d\<lparr>vga_buffer := (vga_buffer d)[row - 1 := take n (vga_buffer d ! row) @ drop n (vga_buffer d ! (row - 1))]\<rparr>)"
  using assms(3,4)
proof (induction n)
  case 0
  with assms(2) show ?case by simp
next
  case (Suc n)
  let ?a = "vga_buffer d ! row" and ?b = "vga_buffer d ! (row - 1)"
  from Suc have IH: "for_each (copy_cell row) [0..<n] d =
     Returns (d\<lparr>vga_buffer := (vga_buffer d)[row - 1 := take n ?a @ drop n ?b]\<rparr>)" by simp
  have "(take n ?a @ drop n ?b)[n := ?a ! n] = take (Suc n) ?a @ drop (Suc n) ?b"
    using Suc.prems by (simp add: list_update_append Cons_nth_drop_Suc [symmetric] take_Suc_conv_app_nth)
  with Suc.prems assms(1,2) show ?case
    by (simp add: for_each_append IH copy_cell_Returns)
qed

lemma scroll_rows:
  assumes ok: "length (vga_buffer d) = 25" "\<forall>r\<in>set (vga_buffer d). length r = 80" and k: "k < 25"
  shows "for_each (\<lambda>row. for_each (copy_cell row) [0..<80]) [1..<Suc k] d =
     Returns (d\<lparr>vga_buffer := take k (tl (vga_buffer d)) @ drop k (vga_buffer d)\<rparr>)"
  using k
proof (induction k)
  case 0
  then show ?case by simp
next
  case (Suc k)
  let ?b = "vga_buffer d"
  let ?m = "take k (tl ?b) @ drop k ?b"
  have IH: "for_each (\<lambda>row. for_each (copy_cell row) [0..<80]) [1..<Suc k] d = Returns (d\<lparr>vga_buffer := ?m\<rparr>)"
    using Suc by simp
  have len: "length (?b ! i) = 80" if "i < 25" for i using ok that by simp
  have rows: "?m ! Suc k = ?b ! Suc k" "?m ! k = ?b ! k"
    using Suc.prems ok(1) by (simp_all add: nth_append)
  have "?m[k := ?b ! Suc k] = take (Suc k) (tl ?b) @ drop (Suc k) ?b"
    using Suc.prems ok(1)
    by (simp add: list_update_append Cons_nth_drop_Suc [symmetric] take_Suc_conv_app_nth nth_tl)
  with Suc.prems ok(1) len [of k] len [of "Suc k"] rows
  have "for_each (copy_cell (Suc k)) [0..<80] (d\<lparr>vga_buffer := ?m\<rparr>) =
      Returns (d\<lparr>vga_buffer := take (Suc k) (tl ?b) @ drop (Suc k) ?b\<rparr>)"
    by (subst copy_row) simp_all
  moreover have "[1..<Suc (Suc k)] = [1..<Suc k] @ [Suc k]" by simp
  ultimately show ?case unfolding \<open>[1..<Suc (Suc k)] = _\<close> for_each_append IH by simp
qed

section \<open>The operations on a well-formed screen\<close>

lemmas vga_size = VGA_BUFFER_WIDTH_def VGA_BUFFER_HEIGHT_def

lemma clear_row_Returns:
  assumes "length (vga_buffer d) = 25" "\<forall>r\<in>set (vga_buffer d). length r = 80" "row < 25"
  shows "clear_row row d = Returns (d\<lparr>vga_buffer := (vga_buffer d)[row := replicate 80 (blank_cell d)]\<rparr>)"
proof -
  have "length (vga_buffer d ! row) = 80" using assms by simp
  with assms show ?thesis unfolding clear_row_def vga_size by (subst write_row) simp_all
qed

lemma new_line_Returns:
  assumes "screen_ok d"
  shows "new_line d = Returns
     (if cursor_row d = 24
      then d\<lparr>vga_buffer := tl (vga_buffer d) @ [replicate 80 (blank_cell d)], cursor_col := 0\<rparr>
      else d\<lparr>cursor_row := cursor_row d + 1, cursor_col := 0\<rparr>)"
proof (cases "cursor_row d = 24")
  case True
  let ?b = "vga_buffer d"
  have ok: "length ?b = 25" "\<forall>r\<in>set ?b. length r = 80" using assms by (simp_all add: screen_ok_def)
  have "for_each (\<lambda>row. for_each (copy_cell row) [0..<80]) [1..<25] d =
      Returns (d\<lparr>vga_buffer := take 24 (tl ?b) @ drop 24 ?b\<rparr>)"
    using scroll_rows [OF ok, of 24] by (simp only: numeral_eq_Suc) simp
  then have s: "scroll_up d = Returns (d\<lparr>vga_buffer := tl ?b @ drop 24 ?b\<rparr>)"
    using ok(1) by (simp add: scroll_up_def vga_size)
  have "set (tl ?b) \<subseteq> set ?b" by (cases ?b) auto
  then have "\<forall>r\<in>set (tl ?b @ drop 24 ?b). length r = 80"
    using ok(2) by (auto dest: in_set_dropD)
  moreover have "length (tl ?b @ drop 24 ?b) = 25" using ok(1) by simp
  ultimately have "clear_row 24 (d\<lparr>vga_buffer := tl ?b @ drop 24 ?b\<rparr>) =
      Returns (d\<lparr>vga_buffer := (tl ?b @ drop 24 ?b)[24 := replicate 80 (blank_cell d)]\<rparr>)"
    by (subst clear_row_Returns) (simp_all add: blank_cell_def)
  moreover have "(tl ?b @ drop 24 ?b)[24 := x] = tl ?b @ [x]" for x
  proof -
    have "length (drop 24 ?b) = 1" using ok(1) by simp
    then obtain y where "drop 24 ?b = [y]" unfolding One_nat_def length_Suc_conv by auto
    then show ?thesis using ok(1) by (simp add: list_update_append)
  qed
  ultimately show ?thesis using True s by (simp add: new_line_def vga_size)
next
  case False
  with assms show ?thesis by (simp add: new_line_def vga_size screen_ok_def)
qed

lemma clear_screen_Returns:
  assumes "length (vga_buffer d) = 25" "\<forall>r\<in>set (vga_buffer d). length r = 80"
  shows "clear_screen d = Returns
     (d\<lparr>vga_buffer := replicate 25 (replicate 80 (blank_cell d)), cursor_row := 0, cursor_col := 0\<rparr>)"
proof -
  let ?f = "\<lambda>row. for_each (\<lambda>col. write_cell row col (blank_cell d)) [0..<80]"
  have "for_each ?f [0..<n] d =
      Returns (d\<lparr>vga_buffer := replicate n (replicate 80 (blank_cell d)) @ drop n (vga_buffer d)\<rparr>)"
    if "n \<le> 25" for n
    using that
  proof (induction n)
    case (Suc n)
    let ?m = "replicate n (replicate 80 (blank_cell d)) @ drop n (vga_buffer d)"
    have row: "?m ! n = vga_buffer d ! n" using Suc.prems assms(1) by (simp add: nth_append)
    have "length (vga_buffer d ! n) = 80" using Suc.prems assms by simp
    moreover have "?m[n := x] = replicate n (replicate 80 (blank_cell d)) @ x # drop (Suc n) (vga_buffer d)" for x
      using Suc.prems assms(1) by (simp add: list_update_append Cons_nth_drop_Suc [symmetric])
    ultimately have "?f n (d\<lparr>vga_buffer := ?m\<rparr>) =
        Returns (d\<lparr>vga_buffer := replicate (Suc n) (replicate 80 (blank_cell d)) @ drop (Suc n) (vga_buffer d)\<rparr>)"
      using Suc.prems assms(1) row by (subst write_row) (simp_all add: replicate_append_same [symmetric])
    moreover have "[0..<Suc n] = [0..<n] @ [n]" by simp
    moreover have IH: "for_each ?f [0..<n] d = Returns (d\<lparr>vga_buffer := ?m\<rparr>)" using Suc by simp
    ultimately show ?case unfolding \<open>[0..<Suc n] = _\<close> for_each_append IH by simp
  qed simp
  from this [of 25] assms(1) show ?thesis by (simp only: clear_screen_def vga_size) simp
qed

lemma write_byte_Returns:
  assumes "screen_ok d" "b \<noteq> 0x0A" "cursor_col d < 80"
  shows "write_byte b d = Returns
     (d\<lparr>vga_buffer := (vga_buffer d)[cursor_row d := (vga_buffer d ! cursor_row d)
          [cursor_col d := \<lparr>ascii_character = b, cell_color = color_code d\<rparr>]],
        cursor_col := cursor_col d + 1\<rparr>)"
  using assms by (simp add: write_byte_def vga_size write_cell_Returns screen_ok_def)

lemma write_byte_wraps:
  assumes "screen_ok d" "b \<noteq> 0x0A" "cursor_col d = 80"
  shows "write_byte b d = and_then (new_line d) (write_byte b)"
proof -
  obtain d' where "new_line d = Returns d'" "cursor_col d' = 0"
    using new_line_Returns [OF assms(1)] by auto
  with assms show ?thesis by (simp add: write_byte_def vga_size)
qed

lemma write_byte_newline: "write_byte 0x0A = new_line"
  by (simp add: write_byte_def fun_eq_iff)

section \<open>The screen shows the last lines\<close>

lemma length_shown_line [simp]: "length l \<le> 80 \<Longrightarrow> length (shown_line c l) = 80"
  by (simp add: shown_line_def)

lemma shows_lines_ok: "shows_lines c ls d \<Longrightarrow> screen_ok d"
  by (auto simp: shows_lines_def screen_ok_def shown_lines_def dest: in_set_dropD)

lemma shown_lines_snoc:
  "shown_lines c (xs @ [l]) = map (shown_line c) (drop (length xs - 24) xs) @ shown_line c l #
     replicate (24 - length xs) (shown_line c [])"
  by (simp add: shown_lines_def)

lemma shown_line_snoc:
  "length l < 80 \<Longrightarrow> shown_line c (l @ [b]) = (shown_line c l)[length l := \<lparr>ascii_character = b, cell_color = c\<rparr>]"
  by (cases "80 - length l") (auto simp: shown_line_def list_update_append Suc_diff_Suc)

lemma new_line_shows:
  assumes "shows_lines c ls d"
  obtains d' where "new_line d = Returns d'" "shows_lines c (ls @ [[]]) d'" "vga_status d' = vga_status d"
proof -
  have ok: "screen_ok d" using assms by (rule shows_lines_ok)
  from assms obtain xs l where ls: "ls = xs @ [l]" by (cases ls rule: rev_cases) (auto simp: shows_lines_def)
  let ?d' = "if cursor_row d = 24
      then d\<lparr>vga_buffer := tl (vga_buffer d) @ [replicate 80 (blank_cell d)], cursor_col := 0\<rparr>
      else d\<lparr>cursor_row := cursor_row d + 1, cursor_col := 0\<rparr>"
  have blank: "replicate 80 (blank_cell d) = shown_line c []"
    using assms by (simp add: shown_line_def blank_cell_def shows_lines_def)
  have buf: "vga_buffer d = shown_lines c (xs @ [l])" and row: "cursor_row d = min (length xs) 24"
    using assms ls by (simp_all add: shows_lines_def)
  have "shows_lines c (ls @ [[]]) ?d'"
  proof (cases "24 \<le> length xs")
    case True
    then have "Suc (length xs) - 24 = Suc (length xs - 24)" by simp
    then have "drop (Suc (length xs) - 24) (xs @ [l]) = tl (drop (length xs - 24) (xs @ [l]))"
      by (simp only: drop_Suc tl_drop)
    then have "shown_lines c (ls @ [[]]) = tl (vga_buffer d) @ [shown_line c []]"
      using True buf ls shown_lines_snoc [of c "xs @ [l]" "[]"] shown_lines_snoc [of c xs l]
      by (simp add: map_tl)
    then show ?thesis using assms True row ls blank by (simp add: shows_lines_def)
  next
    case False
    then have "replicate (24 - length xs) (shown_line c []) = shown_line c [] # replicate (23 - length xs) (shown_line c [])"
      by (simp flip: replicate_Suc)
    then have "shown_lines c (ls @ [[]]) = vga_buffer d"
      using False buf ls shown_lines_snoc [of c "xs @ [l]" "[]"] by (simp add: shown_lines_snoc)
    then show ?thesis using assms False row ls by (simp add: shows_lines_def)
  qed
  moreover have "vga_status ?d' = vga_status d" by simp
  ultimately show thesis using new_line_Returns [OF ok] that by blast
qed

lemma write_plain_shows:
  assumes "shows_lines c ls d" "b \<noteq> 0x0A" "length (last ls) < 80"
  obtains d' where "write_byte b d = Returns d'" "shows_lines c (butlast ls @ [last ls @ [b]]) d'"
    "vga_status d' = vga_status d"
proof -
  have ok: "screen_ok d" using assms(1) by (rule shows_lines_ok)
  from assms obtain xs l where ls: "ls = xs @ [l]" by (cases ls rule: rev_cases) (auto simp: shows_lines_def)
  let ?cell = "\<lparr>ascii_character = b, cell_color = color_code d\<rparr>"
  let ?d' = "d\<lparr>vga_buffer := (vga_buffer d)[cursor_row d := (vga_buffer d ! cursor_row d)[cursor_col d := ?cell]],
        cursor_col := cursor_col d + 1\<rparr>"
  have col: "cursor_col d = length l" "color_code d = c" and row: "cursor_row d = length xs - (length xs - 24)"
    and buf: "vga_buffer d = shown_lines c (xs @ [l])"
    using assms(1) ls by (auto simp: shows_lines_def min_def)
  have "vga_buffer ?d' = shown_lines c (xs @ [l @ [b]])"
    using assms(3) ls col row buf
    by (simp add: shown_lines_snoc shown_line_snoc list_update_append nth_append)
  then have "shows_lines c (butlast ls @ [last ls @ [b]]) ?d'"
    using assms(1,3) ls col by (auto simp: shows_lines_def)
  moreover have "write_byte b d = Returns ?d'"
    using write_byte_Returns [OF ok assms(2)] assms(3) ls col by simp
  ultimately show thesis using that by simp
qed

lemma write_byte_shows:
  assumes sh: "shows_lines c ls d"
  obtains d' where "write_byte b d = Returns d'" "shows_lines c (put_byte b ls) d'" "vga_status d' = vga_status d"
proof (cases "b = 0x0A")
  case True
  from new_line_shows [OF sh] show thesis
    using that True by (auto simp: write_byte_newline put_byte_def)
next
  case False
  show thesis
  proof (cases "length (last ls) < 80")
    case True
    from write_plain_shows [OF sh False True] show thesis
      using that False True by (auto simp: put_byte_def)
  next
    case full: False
    with sh have col: "cursor_col d = 80" by (auto simp: shows_lines_def not_less) (metis last_in_set le_antisym)
    obtain d1 where d1: "new_line d = Returns d1" "shows_lines c (ls @ [[]]) d1" "vga_status d1 = vga_status d"
      using new_line_shows [OF sh] .
    obtain d2 where d2: "write_byte b d1 = Returns d2" "shows_lines c (butlast (ls @ [[]]) @ [last (ls @ [[]]) @ [b]]) d2"
        "vga_status d2 = vga_status d1"
      using write_plain_shows [OF d1(2) False] by auto
    have "write_byte b d = Returns d2"
      using write_byte_wraps [OF shows_lines_ok [OF sh] False col] d1(1) d2(1) by simp
    moreover have "shows_lines c (put_byte b ls) d2" using d2(2) False full by (simp add: put_byte_def)
    ultimately show thesis using that d1(3) d2(3) by simp
  qed
qed

lemma write_string_shows:
  assumes "shows_lines c ls d"
  shows "\<exists>d'. write_string s d = Returns d' \<and> vga_status d' = vga_status d \<and>
     shows_lines c (fold put_byte (map shown_byte s) ls) d'"
  using assms
proof (induction s arbitrary: d ls)
  case Nil
  then show ?case by (simp add: write_string_def)
next
  case (Cons b s)
  obtain d1 where d1: "write_byte (shown_byte b) d = Returns d1" "shows_lines c (put_byte (shown_byte b) ls) d1"
      "vga_status d1 = vga_status d"
    using write_byte_shows [OF Cons.prems] .
  from Cons.IH [OF d1(2)] d1 show ?case by (simp add: write_string_def)
qed

section \<open>The driver follows the contract\<close>

lemma new_line_ok:
  assumes "screen_ok d"
  shows "\<exists>d'. new_line d = Returns d' \<and> screen_ok d' \<and> vga_status d' = vga_status d \<and> color_code d' = color_code d \<and>
     cursor_col d' = 0"
proof -
  have "set (tl (vga_buffer d)) \<subseteq> set (vga_buffer d)" by (cases "vga_buffer d") auto
  with assms show ?thesis
    by (auto simp: new_line_Returns screen_ok_def)
qed

lemma write_byte_ok:
  assumes ok: "screen_ok d"
  shows "\<exists>d'. write_byte b d = Returns d' \<and> screen_ok d' \<and> vga_status d' = vga_status d \<and> color_code d' = color_code d"
proof (cases "b = 0x0A")
  case True
  with new_line_ok [OF ok] show ?thesis by (auto simp: write_byte_newline)
next
  case False
  have plain: "\<exists>d'. write_byte b d = Returns d' \<and> screen_ok d' \<and> vga_status d' = vga_status d \<and> color_code d' = color_code d"
    if "screen_ok d" "cursor_col d < 80" for d
    using that by (auto simp: write_byte_Returns [OF that(1) False that(2)] screen_ok_def
        dest: set_update_subset_insert [THEN subsetD])
  show ?thesis
  proof (cases "cursor_col d < 80")
    case True
    with ok show ?thesis by (rule plain)
  next
    case full: False
    with ok have "cursor_col d = 80" by (simp add: screen_ok_def)
    from new_line_ok [OF ok] obtain d1 where d1: "new_line d = Returns d1" "screen_ok d1"
      "vga_status d1 = vga_status d" "color_code d1 = color_code d" "cursor_col d1 = 0" by blast
    with write_byte_wraps [OF ok False \<open>cursor_col d = 80\<close>] plain [of d1] show ?thesis by simp
  qed
qed

lemma write_string_ok:
  "screen_ok d \<Longrightarrow>
     \<exists>d'. write_string s d = Returns d' \<and> screen_ok d' \<and> vga_status d' = vga_status d \<and> color_code d' = color_code d"
proof (induction s arbitrary: d)
  case Nil
  then show ?case by (simp add: write_string_def)
next
  case (Cons b s)
  from write_byte_ok [OF Cons.prems, of "shown_byte b"] obtain d1 where
    d1: "write_byte (shown_byte b) d = Returns d1" "screen_ok d1" "vga_status d1 = vga_status d"
      "color_code d1 = color_code d" by blast
  from Cons.IH [OF d1(2)] d1 show ?case by (simp add: write_string_def)
qed

lemma screen_ok_status [simp]:
  "screen_ok (d\<lparr>vga_status := s\<rparr>) = screen_ok d" "screen_ok (d\<lparr>color_code := c\<rparr>) = screen_ok d"
  by (simp_all add: screen_ok_def)

lemma clear_screen_ok:
  "screen_ok d \<Longrightarrow> \<exists>d'. clear_screen d = Returns d' \<and> screen_ok d' \<and> vga_status d' = vga_status d"
  by (subst clear_screen_Returns) (auto simp: screen_ok_def)

lemma vga_init_ok:
  assumes "screen_ok d"
  shows "\<exists>d'. vga_init d = Returns (Ok (), d') \<and> screen_ok d' \<and> vga_status d' = DriverReady"
proof -
  from clear_screen_ok [of "d\<lparr>vga_status := Initializing\<rparr>"] assms obtain d1
    where d1: "clear_screen (d\<lparr>vga_status := Initializing\<rparr>) = Returns d1" "screen_ok d1" by auto
  from write_string_ok [of "set_color White Black d1" vga_banner] d1(2) obtain d2
    where "write_string vga_banner (set_color White Black d1) = Returns d2" "screen_ok d2"
    by (auto simp: set_color_def)
  with d1(1) show ?thesis by (simp add: vga_init_def)
qed

lemma vga_control_ok:
  assumes "screen_ok d"
  shows "\<exists>r d'. vga_control command bytes d = Returns (r, d') \<and> screen_ok d' \<and> vga_status d' = vga_status d"
  using assms clear_screen_ok [OF assms]
  by (auto simp: vga_control_def set_color_def set_cursor_def screen_ok_def vga_size)

lemma vga_request_ok:
  assumes "screen_ok d"
  shows "\<exists>r d'. vga_request q d = Returns (r, d') \<and> screen_ok d' \<and> vga_status d' = status_after (Asks q) (vga_status d)"
proof (cases q)
  case Initialize
  with vga_init_ok [OF assms] show ?thesis by (auto simp: vga_request_def)
next
  case (Write offset bytes)
  with write_string_ok [OF assms, of bytes] assms show ?thesis by (auto simp: vga_request_def)
next
  case (Control command bytes)
  with vga_control_ok [OF assms, of command bytes] show ?thesis by (auto simp: vga_request_def)
next
  case (Query t)
  with assms show ?thesis by (cases t) (auto simp: vga_request_def)
qed (use assms in \<open>auto simp: vga_request_def\<close>)

interpretation vga: lifecycle vga_step vga_status screen_ok
proof
  fix s e
  assume ok: "screen_ok s"
  have clean: "\<exists>s'. vga_cleanup s = Returns (Ok (), s') \<and> screen_ok s' \<and> vga_status s' = Uninitialized"
    using clear_screen_ok [of "s\<lparr>vga_status := Stopping\<rparr>"] ok by (auto simp: vga_cleanup_def)
  show "\<exists>s'. vga_step e s = Returns s' \<and> screen_ok s' \<and> vga_status s' = status_after e (vga_status s)"
  proof (cases e)
    case (Asks r)
    with vga_request_ok [OF ok, of r] show ?thesis by (auto simp: vga_step_def)
  next
    case (Powers p)
    with clean ok clear_screen_ok [of "s\<lparr>vga_status := DriverReady\<rparr>"] show ?thesis
      by (cases p) (auto simp: vga_step_def vga_power_event_def)
  next
    case Starts
    with vga_init_ok [OF ok] show ?thesis by (auto simp: vga_step_def)
  next
    case Cleans
    with clean show ?thesis by (auto simp: vga_step_def)
  qed
qed

text \<open>Printable text that fits into the row of the cursor changes no other row.\<close>

lemma write_within_row:
  assumes "screen_ok d" "cursor_row d < 24" "cursor_col d + length s \<le> 80" "0x0A \<notin> set (map shown_byte s)"
  shows "\<exists>d'. write_string s d = Returns d' \<and> screen_ok d' \<and> cursor_row d' = cursor_row d \<and>
     color_code d' = color_code d \<and> vga_buffer d' ! 24 = vga_buffer d ! 24"
  using assms
proof (induction s arbitrary: d)
  case Nil
  then show ?case by (simp add: write_string_def)
next
  case (Cons b s)
  have b: "shown_byte b \<noteq> 0x0A" "cursor_col d < 80" using Cons.prems by auto
  note w = write_byte_Returns [OF Cons.prems(1) b]
  from write_byte_ok [OF Cons.prems(1), of "shown_byte b"] obtain d1
    where d1: "write_byte (shown_byte b) d = Returns d1" "screen_ok d1" by blast
  with w have f: "cursor_row d1 = cursor_row d" "cursor_col d1 = cursor_col d + 1"
      "color_code d1 = color_code d" "vga_buffer d1 ! 24 = vga_buffer d ! 24"
    using Cons.prems(2) by auto
  from Cons.IH [OF d1(2)] Cons.prems f d1(1) show ?case by (simp add: write_string_def)
qed

lemma demo_screen_ok: "screen_ok (vga_new demo_screen)"
  by (simp add: screen_ok_def vga_new_def demo_screen_def)

section \<open>Properties of the display\<close>

text \<open>
  C30: text written to a cleared screen appears as its last 25 lines, broken after 80 characters and
  at newlines, with the rest of the screen blank and the cursor behind the last character.
\<close>

theorem screen_shows_last_lines:
  assumes "screen_ok d" "clear_screen d = Returns d0"
  shows "\<exists>d'. write_string s d0 = Returns d' \<and>
     (let ls = fold put_byte (map shown_byte s) [[]]
      in vga_buffer d' = shown_lines (color_code d) ls \<and>
         get_cursor d' = (min (length ls - 1) 24, length (last ls)))"
proof -
  have "shows_lines (color_code d) [[]] d0"
  proof -
    have r: "replicate 25 x = x # replicate 24 x" for x :: "vga_char list"
      by (simp flip: replicate_Suc)
    have "d0 = d\<lparr>vga_buffer := replicate 25 (replicate 80 (blank_cell d)), cursor_row := 0, cursor_col := 0\<rparr>"
      using assms clear_screen_Returns [of d] by (simp add: screen_ok_def)
    then show ?thesis
      by (simp add: shows_lines_def shown_lines_def shown_line_def blank_cell_def r)
  qed
  from write_string_shows [OF this, of s] show ?thesis
    by (auto simp: shows_lines_def get_cursor_def Let_def)
qed

theorem screen_shows_last_lines_witness:
  "\<exists>d0 d'. clear_screen (vga_new demo_screen) = Returns d0 \<and> write_string [0x48, 0x0A, 0x07] d0 = Returns d' \<and>
     get_cursor d' = (1, 1) \<and> vga_buffer d' ! 1 = shown_line 0x0F [0xFE]"
proof -
  from clear_screen_ok [OF demo_screen_ok] obtain d0
    where d0: "clear_screen (vga_new demo_screen) = Returns d0" by blast
  from screen_shows_last_lines [OF demo_screen_ok d0, of "[0x48, 0x0A, 0x07]"] d0 show ?thesis
    by (auto simp: put_byte_def shown_byte_def shown_lines_def vga_new_def vga_color_code_def Let_def)
qed

text \<open>
  No sequence of requests, power events, initialisations and clean-ups makes the display driver
  index outside its screen, and it is in the status that the contract of drivers prescribes.
\<close>

theorem vga_lifecycle:
  assumes "screen_ok d"
  shows "\<exists>d'. run_driver vga_step es d = Returns d' \<and> screen_ok d' \<and>
     vga_status d' = fold status_after es (vga_status d)"
  using assms by (rule vga.run_returns)

theorem vga_lifecycle_witness:
  "\<exists>d'. run_driver vga_step [Starts, Asks (Control 3 [24, 79]), Asks (Write 0 [0x41, 0x42])] (vga_new demo_screen) = Returns d' \<and>
     vga_status d' = DriverReady"
  using vga_lifecycle [OF demo_screen_ok, of "[Starts, Asks (Control 3 [24, 79]), Asks (Write 0 [0x41, 0x42])]"]
  by auto

text \<open>
  Initialisation clears the screen before it sets the default colours: the blank part of the
  screen keeps the colours in force before.
\<close>

theorem init_keeps_old_color:
  assumes "screen_ok d"
  shows "\<exists>d'. vga_init d = Returns (Ok (), d') \<and> color_code d' = 0x0F \<and>
     cell_color (vga_buffer d' ! 24 ! 79) = color_code d"
proof -
  define d0 where "d0 = d\<lparr>vga_status := Initializing, vga_buffer := replicate 25 (replicate 80 (blank_cell d)),
      cursor_row := 0, cursor_col := 0\<rparr>"
  have ok: "screen_ok d0" using assms by (simp add: d0_def screen_ok_def)
  have clear: "clear_screen (d\<lparr>vga_status := Initializing\<rparr>) = Returns d0"
    using assms clear_screen_Returns [of "d\<lparr>vga_status := Initializing\<rparr>"]
    by (simp add: screen_ok_def d0_def blank_cell_def)
  let ?d1 = "set_color White Black d0" and ?s = "butlast vga_banner"
  have "screen_ok ?d1" using ok by (simp add: set_color_def)
  moreover have "cursor_row ?d1 < 24" "cursor_col ?d1 + length ?s \<le> 80" "0x0A \<notin> set (map shown_byte ?s)"
    by (simp_all add: d0_def set_color_def vga_banner_def shown_byte_def)
  ultimately obtain d2 where d2: "write_string ?s ?d1 = Returns d2" "screen_ok d2" "cursor_row d2 = cursor_row ?d1"
      "color_code d2 = color_code ?d1" "vga_buffer d2 ! 24 = vga_buffer ?d1 ! 24"
    using write_within_row by blast
  have banner: "vga_banner = ?s @ [0x0A]" by (simp add: vga_banner_def)
  have "write_string vga_banner ?d1 = new_line d2"
    using d2(1) by (subst banner) (cases "new_line d2"; simp add: write_string_def for_each_append shown_byte_def write_byte_newline)
  moreover have "new_line d2 = Returns (d2\<lparr>cursor_row := 1, cursor_col := 0\<rparr>)"
    using new_line_Returns [OF d2(2)] d2(3) by (simp add: d0_def set_color_def)
  ultimately have "vga_init d = Returns (Ok (), d2\<lparr>cursor_row := 1, cursor_col := 0, vga_status := DriverReady\<rparr>)"
    using clear by (simp add: vga_init_def)
  moreover have "color_code d2 = 0x0F" using d2(4) by (simp add: set_color_def vga_color_code_def)
  moreover have "vga_buffer d2 ! 24 = replicate 80 (blank_cell d)" using d2(5) by (simp add: d0_def set_color_def)
  ultimately show ?thesis by (simp add: blank_cell_def)
qed

theorem init_keeps_old_color_witness:
  "\<exists>d'. vga_init (set_color Yellow Red (vga_new demo_screen)) = Returns (Ok (), d') \<and>
     cell_color (vga_buffer d' ! 24 ! 79) = 0x4E"
proof -
  have "screen_ok (set_color Yellow Red (vga_new demo_screen))" using demo_screen_ok by (simp add: set_color_def)
  from init_keeps_old_color [OF this] show ?thesis by (auto simp: set_color_def vga_color_code_def)
qed

end
