(* ===== verification/Touch_Input.thy ===== *)
theory Touch_Input
  imports Kosh_Prelude
begin

text \<open>
  The touch driver of \<^verbatim>\<open>drivers/touch\<close>: calibration in 16.16 fixed-point arithmetic on 32-bit
  words, the filters on pressure, movement and time, and the bounded buffer of events. The
  controller is simulated in the source by a fixed sample, and so it is here. The answers to
  requests are left out: their types come from a crate that is not part of the repository.
\<close>

section \<open>Events and settings\<close>

datatype touch_event_type = Down | Move | Up | Cancel

record touch_input_event =
  tie_type :: touch_event_type
  tie_x :: u16
  tie_y :: u16
  tie_pressure :: u8
  tie_timestamp_us :: u64
  tie_touch_id :: u8

record touch_sensitivity =
  min_pressure :: u8
  movement_threshold :: u16
  debounce_time_us :: u32

definition touch_sensitivity_default :: touch_sensitivity where
  "touch_sensitivity_default = \<lparr>min_pressure = 10, movement_threshold = 5, debounce_time_us = 1000\<rparr>"

record touch_calibration =
  x_offset :: u16
  y_offset :: u16
  x_scale :: u32
  y_scale :: u32

definition touch_calibration_default :: touch_calibration where
  "touch_calibration_default = \<lparr>x_offset = 0, y_offset = 0, x_scale = 0x10000, y_scale = 0x10000\<rparr>"

record touch_driver =
  input_buffer :: "touch_input_event list"
  max_buffer_size :: nat
  sensitivity :: touch_sensitivity
  calibration :: touch_calibration

definition touch_driver_new :: touch_driver where
  "touch_driver_new =
     \<lparr>input_buffer = [], max_buffer_size = 64, sensitivity = touch_sensitivity_default,
      calibration = touch_calibration_default\<rparr>"

section \<open>Calibration and filters\<close>

text \<open>
  One coordinate: it is widened, the signed offset is added, the product with the scale wraps
  around, and the shift keeps the sign.
\<close>

definition calibrate :: "u16 \<Rightarrow> u32 \<Rightarrow> u16 \<Rightarrow> u16" where
  "calibrate offset scale v =
     (let adjusted = (ucast v :: i32) + (scast offset :: i32)
      in ucast (signed_drop_bit 16 (adjusted * scale)))"

definition apply_calibration :: "touch_driver \<Rightarrow> touch_input_event \<Rightarrow> touch_input_event" where
  "apply_calibration d e =
     e\<lparr>tie_x := calibrate (x_offset (calibration d)) (x_scale (calibration d)) (tie_x e),
       tie_y := calibrate (y_offset (calibration d)) (y_scale (calibration d)) (tie_y e)\<rparr>"

definition moved_too_little :: "touch_sensitivity \<Rightarrow> touch_input_event \<Rightarrow> touch_input_event \<Rightarrow> bool" where
  "moved_too_little s last_event e \<longleftrightarrow>
     (let dx = (ucast (tie_x e) :: i32) - ucast (tie_x last_event);
          dy = (ucast (tie_y e) :: i32) - ucast (tie_y last_event);
          distance_sq = dx * dx + dy * dy;
          threshold_sq = (ucast (movement_threshold s) :: u32) ^ 2
      in distance_sq < threshold_sq)"

definition passes_sensitivity_filter :: "touch_driver \<Rightarrow> touch_input_event \<Rightarrow> bool" where
  "passes_sensitivity_filter d e =
     (let s = sensitivity d in
      if tie_pressure e < min_pressure s then False
      else if tie_type e = Move \<and> input_buffer d \<noteq> [] \<and>
              tie_touch_id (last (input_buffer d)) = tie_touch_id e \<and>
              moved_too_little s (last (input_buffer d)) e
      then False
      else if input_buffer d \<noteq> [] \<and> tie_touch_id (last (input_buffer d)) = tie_touch_id e \<and>
              saturating_sub (tie_timestamp_us e) (tie_timestamp_us (last (input_buffer d)))
                < ucast (debounce_time_us s)
      then False
      else True)"

section \<open>The buffer\<close>

definition process_touch_event :: "touch_input_event \<Rightarrow> touch_driver \<Rightarrow> touch_driver" where
  "process_touch_event event d =
     (let e = apply_calibration d event in
      if \<not> passes_sensitivity_filter d e then d
      else
        let buffer = (if length (input_buffer d) \<ge> max_buffer_size d then tl (input_buffer d)
                      else input_buffer d)
        in d\<lparr>input_buffer := buffer @ [e]\<rparr>)"

definition read_touch_data :: "touch_driver \<Rightarrow> touch_input_event list" where
  "read_touch_data d =
     [\<lparr>tie_type = Down, tie_x = 32768, tie_y = 32768, tie_pressure = 128,
       tie_timestamp_us = 1000000, tie_touch_id = 0\<rparr>]"

definition handle_touch_interrupt :: "touch_driver \<Rightarrow> touch_driver" where
  "handle_touch_interrupt d = fold process_touch_event (read_touch_data d) d"

definition get_pending_events :: "touch_driver \<Rightarrow> touch_input_event list \<times> touch_driver" where
  "get_pending_events d = (input_buffer d, d\<lparr>input_buffer := []\<rparr>)"

definition set_sensitivity :: "touch_sensitivity \<Rightarrow> touch_driver \<Rightarrow> touch_driver" where
  "set_sensitivity s d = d\<lparr>sensitivity := s\<rparr>"

definition set_calibration :: "touch_calibration \<Rightarrow> touch_driver \<Rightarrow> touch_driver" where
  "set_calibration c d = d\<lparr>calibration := c\<rparr>"

record touch_statistics =
  events_buffered :: nat
  buffer_capacity :: nat
  stat_sensitivity :: touch_sensitivity
  stat_calibration :: touch_calibration

definition touch_get_statistics :: "touch_driver \<Rightarrow> touch_statistics" where
  "touch_get_statistics d =
     \<lparr>events_buffered = length (input_buffer d), buffer_capacity = max_buffer_size d,
      stat_sensitivity = sensitivity d, stat_calibration = calibration d\<rparr>"

definition touch_cleanup :: "touch_driver \<Rightarrow> touch_driver" where
  "touch_cleanup d = d\<lparr>input_buffer := []\<rparr>"

text \<open>The events a driver would accept if its buffer had no limit, after those it holds.\<close>

definition unbounded :: "touch_driver \<Rightarrow> touch_driver \<Rightarrow> bool" where
  "unbounded d u \<longleftrightarrow> sensitivity u = sensitivity d \<and> calibration u = calibration d \<and>
     0 < max_buffer_size d \<and>
     input_buffer d = drop (length (input_buffer u) - max_buffer_size d) (input_buffer u)"

definition accept_event :: "touch_input_event \<Rightarrow> touch_driver \<Rightarrow> touch_driver" where
  "accept_event event u =
     (let e = apply_calibration u event
      in if passes_sensitivity_filter u e then u\<lparr>input_buffer := input_buffer u @ [e]\<rparr> else u)"

definition touched_at :: "u16 \<Rightarrow> u16 \<Rightarrow> touch_event_type \<Rightarrow> u64 \<Rightarrow> touch_input_event" where
  "touched_at px py t time =
     \<lparr>tie_type = t, tie_x = px, tie_y = py, tie_pressure = 100, tie_timestamp_us = time, tie_touch_id = 1\<rparr>"

section \<open>Calibration\<close>

lemma calibrate_identity: "calibrate 0 0x10000 v = v"
proof (rule bit_word_eqI)
  fix n
  assume "n < LENGTH(16)"
  moreover have "(ucast v :: i32) * 0x10000 = push_bit 16 (ucast v)"
    by (simp add: push_bit_eq_mult)
  ultimately show "bit (calibrate 0 0x10000 v) n = bit v n"
    by (simp add: calibrate_def bit_simps)
qed

section \<open>The bound of the buffer\<close>

lemma filter_last:
  assumes "sensitivity u = sensitivity d" "input_buffer u = [] \<longleftrightarrow> input_buffer d = []"
    "input_buffer d \<noteq> [] \<Longrightarrow> last (input_buffer u) = last (input_buffer d)"
  shows "passes_sensitivity_filter u e = passes_sensitivity_filter d e"
  using assms by (cases "input_buffer d = []") (simp_all add: passes_sensitivity_filter_def Let_def)

lemma process_unbounded:
  assumes un: "unbounded d u"
  shows "unbounded (process_touch_event e d) (accept_event e u)"
proof -
  let ?n = "max_buffer_size d" and ?e = "apply_calibration d e"
  have cal: "apply_calibration u e = ?e" using un by (simp add: unbounded_def apply_calibration_def)
  have pos: "0 < ?n" and buf: "input_buffer d = drop (length (input_buffer u) - ?n) (input_buffer u)"
    using un by (simp_all add: unbounded_def)
  have empty: "input_buffer u = [] \<longleftrightarrow> input_buffer d = []"
    using pos buf by (cases "input_buffer u") simp_all
  have "passes_sensitivity_filter u ?e = passes_sensitivity_filter d ?e"
  proof (rule filter_last)
    show "last (input_buffer u) = last (input_buffer d)" if "input_buffer d \<noteq> []"
      using that buf by (simp add: last_drop)
  qed (use un empty in \<open>simp_all add: unbounded_def\<close>)
  moreover have "(if length (input_buffer d) \<ge> ?n then tl (input_buffer d) else input_buffer d) @ [?e] =
      drop (length (input_buffer u @ [?e]) - ?n) (input_buffer u @ [?e])"
  proof (cases "?n \<le> length (input_buffer u)")
    case True
    then have "length (input_buffer d) = ?n" using buf by simp
    moreover from True have "Suc (length (input_buffer u)) - ?n = Suc (length (input_buffer u) - ?n)" by simp
    ultimately show ?thesis using True pos buf by (simp add: drop_Suc tl_drop)
  next
    case False
    then show ?thesis using buf by simp
  qed
  ultimately show ?thesis
    using un cal by (simp add: unbounded_def process_touch_event_def accept_event_def Let_def)
qed

section \<open>Properties of touch input\<close>

text \<open>
  The default calibration leaves every coordinate as it is, although the product with its
  scale of one wraps around for coordinates from 32768 on.
\<close>

theorem default_calibration_identity: "apply_calibration touch_driver_new e = e"
  by (simp add: apply_calibration_def touch_driver_new_def touch_calibration_default_def calibrate_identity)

text \<open>
  The buffer holds the latest accepted events, 64 at most, and its limit has no influence on
  which events are accepted.
\<close>

theorem touch_buffer_latest:
  "let accepted = input_buffer (fold accept_event es touch_driver_new)
   in input_buffer (fold process_touch_event es touch_driver_new) = drop (length accepted - 64) accepted"
proof -
  have "unbounded (fold process_touch_event es d) (fold accept_event es u)" if "unbounded d u" for d u
    using that
  proof (induction es arbitrary: d u)
    case (Cons e es)
    from Cons.IH [OF process_unbounded [OF Cons.prems, of e]] show ?case by simp
  qed simp
  moreover have "unbounded touch_driver_new touch_driver_new"
    by (simp add: unbounded_def touch_driver_new_def)
  moreover have "max_buffer_size (fold process_touch_event es d) = max_buffer_size d" for d
    by (induction es arbitrary: d) (simp_all add: process_touch_event_def Let_def)
  ultimately show ?thesis
    unfolding Let_def unbounded_def by (metis touch_driver.select_convs(2) touch_driver_new_def)
qed

text \<open>
  The square of the distance wraps around at 32 bits, so a move across nearly the whole
  surface can be taken for one below the threshold of five units and dropped.
\<close>

theorem far_move_dropped:
  assumes "sensitivity d = touch_sensitivity_default" "input_buffer d \<noteq> []"
    "last (input_buffer d) = touched_at 0 0 t0 time0"
  shows "\<not> passes_sensitivity_filter d (touched_at 65534 512 Move time)"
  using assms
  by (simp add: passes_sensitivity_filter_def Let_def touched_at_def moved_too_little_def
      touch_sensitivity_default_def)

theorem far_move_dropped_witness:
  "\<not> passes_sensitivity_filter (process_touch_event (touched_at 0 0 Down 0) touch_driver_new)
     (touched_at 65534 512 Move 5000000)"
  by (rule far_move_dropped [where ?t0.0 = Down and ?time0.0 = 0])
    (simp_all add: process_touch_event_def touch_driver_new_def touch_sensitivity_default_def
      touch_calibration_default_def apply_calibration_def calibrate_identity touched_at_def
      passes_sensitivity_filter_def Let_def)

end
