(* ===== verification/Spec2Isabelle.thy ===== *)
theory Spec2Isabelle
  imports Page_Replacement Kernel_Heap Syscalls Scheduler Keyboard Vga_Text Touch_Input
begin

text \<open>
  A verification library for Kosh, a microkernel operating system in Rust. It models the kernel's
  managers of memory, processes, rights, messages and power, the system calls over them, and the
  drivers for keyboard, display and touch, function by function from the sources, and proves
  what they promise to their callers.

  \<^bold>\<open>The parts and how they interact.\<close> A process enters the kernel by a system call. The dispatcher
  validates the arguments and calls a handler; three handlers change state: creating a process
  extends the process table, sending and receiving work on the message queues. Sending asks the
  process table whether both processes exist and the capability manager whether the sender may
  send, and then queues the message. The scheduler picks a process of the table, switches to it
  and tells the power management, whose policy in turn follows the battery. The swapper decides
  which page to give up and hands it to the swap space; the heap takes its memory from the
  allocator of page frames. Drivers are written against a framework of their own and do not
  share state with the kernel.

  \<^bold>\<open>How the sources are translated.\<close> A struct is a record, an enumeration a datatype with the
  source's constructors, a function or method one definition. Integers are words of their width
  with the wrap-around of a release build; \<^verbatim>\<open>usize\<close> has 64 bits. Lengths and indices of vectors
  are natural numbers. A global behind a lock is an argument and part of the result, an option
  where the source has one. \<^verbatim>\<open>Result\<close> is the type \<open>result\<close> of \<open>Kosh_Prelude\<close>. Code that can
  stop by an index out of range, or wait for a lock that its own caller holds, has the type
  \<open>outcome\<close>. Log messages and printing functions are left out.

  \<^bold>\<open>Theories and sources.\<close> Paths are below \<^verbatim>\<open>src/kernel/src\<close> unless they start otherwise.

    \<^item> \<open>Kosh_Prelude\<close>: integer types, results, outcomes, the vector operations the sources use, and
      the lemmas on lists, words and options that the other theories share.
    \<^item> \<open>Slot_Pool\<close>, \<open>Prio_Fifo\<close>, \<open>Permission_Check\<close>, \<open>Scheduling_Contract\<close>: the contracts, as
      locales. A pool of numbered slots, a bounded priority queue, a check of rights, and a
      scheduling algorithm, each with what a client can rely on. The contract of a driver's life is
      in \<open>Driver_Framework\<close>.
    \<^item> \<open>Memory_Base\<close> (\<^verbatim>\<open>memory/mod.rs\<close>): page arithmetic.
    \<^item> \<open>Phys_Mem\<close> (\<^verbatim>\<open>memory/physical.rs\<close>): the bitmap of page frames. Allocation is first fit, of one
      frame or of a run; frames in use are never handed out again; the free counter is exact; the
      frames free after start-up are those the memory map offers. An instance of the slot pool.
    \<^item> \<open>Swap_Space\<close> (\<^verbatim>\<open>memory/swap.rs\<close>, \<^verbatim>\<open>memory/swap_file.rs\<close>): slots, devices and the manager. A page
      that was swapped out comes back byte for byte; swapping refines the update of a map.
      The slot allocator is the second instance of the slot pool.
    \<^item> \<open>Page_Replacement\<close> (\<^verbatim>\<open>memory/swap_algorithm.rs\<close>): the three trackers and the swapper. The LRU
      tracker holds the most recent pages in order, and swapping out gives up the oldest; the
      clock tracker panics once enough pages have been accessed.
    \<^item> \<open>Kernel_Heap\<close> (\<^verbatim>\<open>memory/heap.rs\<close>): headers in memory, the linked free list, splitting. The areas
      handed out lie in the heap and do not overlap, every request is answered, and
      validation passes; some blocks are lost for good, and one counter drifts.
    \<^item> \<open>Process_Table\<close> (\<^verbatim>\<open>process/process.rs\<close>, and the record of \<^verbatim>\<open>process/context.rs\<close>): control blocks
      and the table, with the invariant on numbers, families and the running process.
    \<^item> \<open>Capabilities\<close> (\<^verbatim>\<open>ipc/capability.rs\<close>) and \<open>Security_Policy\<close> (\<^verbatim>\<open>ipc/security.rs\<close>): a grant gives
      exactly the rights it names and revoking takes them back; what delegation does on every
      branch; the decision of the policy. An instance of the check of rights.
    \<^item> \<open>Message_Queues\<close> (\<^verbatim>\<open>ipc/queue.rs\<close>, and the types of \<^verbatim>\<open>ipc/message.rs\<close>) and \<open>Ipc\<close> (the functions of
      \<^verbatim>\<open>ipc/message.rs\<close>, \<^verbatim>\<open>ipc/mod.rs\<close>): nothing is lost, duplicated or overtaken, for a queue and for
      every run of the whole system; the exact effect of sending; a request is answered; a
      process with the default rights cannot send. A queue is an instance of the priority queue.
    \<^item> \<open>Syscall_Interface\<close> (\<^verbatim>\<open>syscall/numbers.rs\<close>, \<^verbatim>\<open>syscall/error.rs\<close>, \<^verbatim>\<open>syscall/validation.rs\<close>) and \<open>Syscalls\<close>
      (\<^verbatim>\<open>syscall/dispatcher.rs\<close>, \<^verbatim>\<open>syscall/mod.rs\<close>): the three tables of numbers agree; what calls may
      change, and calls that fail; errors can be told from results; the effect of creating a
      process; delivery of messages seen from the calls.
    \<^item> \<open>Cpu_Power\<close> (\<^verbatim>\<open>power/mod.rs\<close>, \<^verbatim>\<open>power/cpu_scaling.rs\<close>, \<^verbatim>\<open>power/idle_management.rs\<close>), \<open>Battery\<close>
      (\<^verbatim>\<open>power/battery_monitor.rs\<close>), \<open>Responsiveness\<close> (\<^verbatim>\<open>power/responsiveness.rs\<close>) and \<open>Power_Policy\<close>
      (\<^verbatim>\<open>power/power_policy.rs\<close>): frequencies stay in range, the battery monitor panics at its
      start, a periodic update overrides thermal throttling.
    \<^item> \<open>Scheduler\<close> (\<^verbatim>\<open>process/scheduler.rs\<close>): the three algorithms as instances of the contract. A
      decision is always reached and picks what can run; round robin is fair, the other two
      pick the least and can starve a process.
    \<^item> \<open>Driver_Framework\<close> (\<^verbatim>\<open>src/shared/kosh-types\<close>, \<^verbatim>\<open>src/shared/kosh-driver\<close>), \<open>Keyboard\<close>
      (\<^verbatim>\<open>src/drivers/keyboard\<close>), \<open>Vga_Text\<close> (\<^verbatim>\<open>src/drivers/graphics\<close>) and \<open>Touch_Input\<close>
      (\<^verbatim>\<open>src/drivers/touch\<close>): the keyboard queue holds the latest events of the scancodes, against
      a reference that knows the layout and not the driver's tables; the screen shows the last
      lines written; a touch buffer holds the latest accepted events. Keyboard and display are
      instances of the contract of a driver's life.

  \<^bold>\<open>Loops and bounds.\<close> Loops are recursive functions with a proof of termination, but for two that
  could run forever and are \<open>partial_function (option)\<close>: the search of the free list, which is proved
  to end on the lists a heap has, and the search of the round robin, which is proved to come to a
  decision. The bound of 10000 blocks in the validation of the heap is the source's own. Theorems
  on numbers that would wrap after \<open>2 ^ 64\<close> steps bound the number of steps. The clocks of the
  capability, message and process modules return zero in the source, and so they do here.

  \<^bold>\<open>Parameters.\<close> The memory map of the boot loader, the sizes in bytes of \<^verbatim>\<open>MessageHeader\<close> and
  \<^verbatim>\<open>Capability\<close>, the contents of the display memory before the driver starts, and the one
  conversion of a floating-point number in the battery monitor are arguments.

  \<^bold>\<open>Not modelled.\<close> Assembly and hardware access: the context switch, \<^verbatim>\<open>platform\<close>, \<^verbatim>\<open>serial.rs\<close>, and
  \<^verbatim>\<open>vga_buffer.rs\<close>, which writes to the display memory. Page tables, \<^verbatim>\<open>memory/vmm.rs\<close>, which are
  structures of the \<^verbatim>\<open>x86_64\<close> crate. Start-up and tests: \<^verbatim>\<open>boot.rs\<close>, \<^verbatim>\<open>main.rs\<close>, \<^verbatim>\<open>lib.rs\<close>, the test files
  and \<^verbatim>\<open>test_harness.rs\<close>. The list of swap devices to add at start-up, \<^verbatim>\<open>memory/swap_config.rs\<close>. The
  time slices that are scaled by floating-point factors. The drivers for storage and network, which
  are stubs that answer every request with success. The request handler of the touch driver, whose
  types come from a crate that is not in the repository. The programs in user space,
  \<^verbatim>\<open>src/userspace\<close>, with the message formats of \<^verbatim>\<open>src/shared/kosh-ipc\<close> and \<^verbatim>\<open>src/shared/kosh-service\<close>:
  the file system, the driver manager, the service manager and the shell run outside the kernel,
  which this library is about.
\<close>

end
